(* ===== verification/Prelude.thy ===== *)
theory Prelude
  imports Main "HOL-Library.Word" "HOL-Library.AList" "HOL-Library.Multiset"
begin

text \<open>
  Shared vocabulary of the development: the lemma collections, the names of the types every
  component uses, and the generic facts on lists, association lists and stable sorting that the
  component proofs rest on.

  \<^item> A Go string or byte slice is a \<^typ>\<open>string\<close>: a list of bytes.
  \<^item> A Go map with an iteration order is an association list with distinct keys; the order of the
    list is the (unspecified) order in which \<^verbatim>\<open>range\<close> visits the map.
  \<^item> A Go \<^verbatim>\<open>error\<close> result is a sum \<open>'e + 'a\<close>, \<^const>\<open>Inl\<close> for the error, or an \<open>'e option\<close>
    where the call returns nothing else.
\<close>

type_synonym bytes = string

named_theorems go_simps \<open>defining equations of the Go string helpers\<close>
named_theorems validate_simps \<open>defining equations of the wire contract's validators\<close>
named_theorems sql_simps \<open>defining equations of the SQL statements\<close>
named_theorems hub_simps \<open>defining equations of the hubs' operations\<close>

subsection \<open>Association lists\<close>

lemma distinct_map_fst_filter [simp, intro]:
  "distinct (map fst xs) \<Longrightarrow> distinct (map fst (filter P xs))"
  by (induction xs) auto

lemma alist_delete_eq_filter: "AList.delete k xs = filter (\<lambda>p. fst p \<noteq> k) xs"
  by (auto simp: AList.delete_eq intro!: filter_cong)

lemma alist_delete_Nil_iff: "AList.delete k xs = [] \<longleftrightarrow> fst ` set xs \<subseteq> {k}"
  by (auto simp: alist_delete_eq_filter filter_empty_conv)

lemma alist_update_not_Nil [simp]: "AList.update k v xs \<noteq> []"
  by (cases xs) auto

lemma distinct_alist_update [simp, intro]:
  "distinct (map fst xs) \<Longrightarrow> distinct (map fst (AList.update k v xs))"
  by (rule AList.distinct_update)

lemma distinct_alist_delete [simp, intro]:
  "distinct (map fst xs) \<Longrightarrow> distinct (map fst (AList.delete k xs))"
  by (rule AList.distinct_delete)

lemma set_alist_update: "p \<in> set (AList.update k v xs) \<Longrightarrow> p = (k, v) \<or> p \<in> set xs"
  by (induction xs) (auto split: if_splits)

lemma map_of_distinct_unique:
  "\<lbrakk>distinct (map fst xs); (k, v) \<in> set xs; (k, w) \<in> set xs\<rbrakk> \<Longrightarrow> v = w"
  by (metis map_of_eq_Some_iff option.inject)

lemma map_of_filter_key:
  "map_of (filter (\<lambda>p. P (fst p)) xs) k = (if P k then map_of xs k else None)"
  by (induction xs) auto

subsection \<open>Sorting by an arbitrary comparison\<close>

text \<open>
  \<^verbatim>\<open>ORDER BY\<close> with a database collation and \<^verbatim>\<open>sort.Strings\<close> both sort by a comparison that is
  not the type's own order. The stable insertion sort below takes the comparison as an argument.
\<close>

fun insort_by :: "('a \<Rightarrow> 'a \<Rightarrow> bool) \<Rightarrow> 'a \<Rightarrow> 'a list \<Rightarrow> 'a list" where
  "insort_by le x [] = [x]"
| "insort_by le x (y # ys) = (if le x y then x # y # ys else y # insort_by le x ys)"

fun sort_by :: "('a \<Rightarrow> 'a \<Rightarrow> bool) \<Rightarrow> 'a list \<Rightarrow> 'a list" where
  "sort_by le [] = []"
| "sort_by le (x # xs) = insort_by le x (sort_by le xs)"

lemma mset_insort_by [simp]: "mset (insort_by le x xs) = add_mset x (mset xs)"
  by (induction xs) auto

lemma mset_sort_by [simp]: "mset (sort_by le xs) = mset xs"
  by (induction xs) auto

lemma set_sort_by [simp]: "set (sort_by le xs) = set xs"
  by (metis mset_sort_by set_mset_mset)

lemma length_sort_by [simp]: "length (sort_by le xs) = length xs"
  by (metis mset_sort_by size_mset)

lemma distinct_sort_by [simp]: "distinct (sort_by le xs) \<longleftrightarrow> distinct xs"
  by (metis mset_eq_imp_distinct_iff mset_sort_by)

lemma distinct_map_sort_by [simp]: "distinct (map f (sort_by le xs)) \<longleftrightarrow> distinct (map f xs)"
  by (metis mset_eq_imp_distinct_iff mset_map mset_sort_by)

lemma sorted_insort_by:
  assumes "\<And>x y. le x y \<or> le y x" and "\<And>x y z. le x y \<Longrightarrow> le y z \<Longrightarrow> le x z"
    and "sorted_wrt le xs"
  shows "sorted_wrt le (insort_by le x xs)"
proof -
  have s: "set (insort_by le x ys) = insert x (set ys)" for ys
    by (metis mset_insort_by set_mset_add_mset_insert set_mset_mset)
  show ?thesis
    using assms(3)
  proof (induction xs)
    case (Cons y ys)
    then show ?case using assms(1) assms(2) by (auto simp: s)
  qed simp
qed

lemma sorted_sort_by:
  assumes "\<And>x y. le x y \<or> le y x" and "\<And>x y z. le x y \<Longrightarrow> le y z \<Longrightarrow> le x z"
  shows "sorted_wrt le (sort_by le xs)"
proof (induction xs)
  case (Cons x xs)
  then show ?case using sorted_insort_by [OF assms] by simp
qed simp

subsection \<open>Subsequences of a list\<close>

lemma take_subset: "x \<in> set (take n xs) \<Longrightarrow> x \<in> set xs"
  by (rule in_set_takeD)

lemma distinct_map_take: "distinct (map f xs) \<Longrightarrow> distinct (map f (take n xs))"
  by (metis distinct_take take_map)

lemma sorted_append_last:
  "\<lbrakk>sorted xs; \<forall>x \<in> set xs. x \<le> y\<rbrakk> \<Longrightarrow> sorted (xs @ [y])"
  for y :: "'a::linorder"
  by (simp add: sorted_append)

end
