(* ===== verification/Go_Strings.thy ===== *)
theory Go_Strings
  imports Prelude
begin

text \<open>
  The parts of Go's \<^verbatim>\<open>strings\<close>, \<^verbatim>\<open>strconv\<close> and \<^verbatim>\<open>encoding/hex\<close> packages the services call, on
  byte strings: \<^verbatim>\<open>TrimSpace\<close> with the UTF-8 encodings of every code point of \<^verbatim>\<open>unicode.IsSpace\<close>,
  \<^verbatim>\<open>Split\<close>/\<^verbatim>\<open>Join\<close> on a one-byte separator, \<^verbatim>\<open>HasPrefix\<close>, \<^verbatim>\<open>HasSuffix\<close>, \<^verbatim>\<open>TrimPrefix\<close>, \<^verbatim>\<open>Cut\<close>,
  decimal integers of 64 bits, and hexadecimal text. The lemmas are the round trips and the
  fixed-point facts the component proofs use.
\<close>

subsection \<open>Prefixes and suffixes\<close>

definition HasPrefix :: "string \<Rightarrow> string \<Rightarrow> bool" where
  "HasPrefix s p \<longleftrightarrow> take (length p) s = p"

definition HasSuffix :: "string \<Rightarrow> string \<Rightarrow> bool" where
  "HasSuffix s p \<longleftrightarrow> HasPrefix (rev s) (rev p)"

definition TrimPrefix :: "string \<Rightarrow> string \<Rightarrow> string" where
  "TrimPrefix s p = (if HasPrefix s p then drop (length p) s else s)"

declare HasPrefix_def [go_simps] HasSuffix_def [go_simps] TrimPrefix_def [go_simps]

lemma HasPrefix_append [simp]: "HasPrefix (p @ s) p"
  by (simp add: HasPrefix_def)

lemma HasPrefix_iff: "HasPrefix s p \<longleftrightarrow> (\<exists>t. s = p @ t)"
  by (auto simp: HasPrefix_def) (metis append_take_drop_id)

lemma HasSuffix_iff: "HasSuffix s p \<longleftrightarrow> (\<exists>t. s = t @ p)"
  by (auto simp: HasSuffix_def HasPrefix_iff) (metis rev_append rev_rev_ident)+

lemma TrimPrefix_append [simp]: "TrimPrefix (p @ s) p = s"
  by (simp add: TrimPrefix_def)

subsection \<open>TrimSpace\<close>

text \<open>The UTF-8 encodings of the code points for which \<^verbatim>\<open>unicode.IsSpace\<close> holds.\<close>

definition space_runes :: "string list" where
  "space_runes =
     [[CHR 0x09], [CHR 0x0A], [CHR 0x0B], [CHR 0x0C], [CHR 0x0D], [CHR 0x20],
      [CHR 0xC2, CHR 0x85], [CHR 0xC2, CHR 0xA0], [CHR 0xE1, CHR 0x9A, CHR 0x80],
      [CHR 0xE2, CHR 0x80, CHR 0x80], [CHR 0xE2, CHR 0x80, CHR 0x81],
      [CHR 0xE2, CHR 0x80, CHR 0x82], [CHR 0xE2, CHR 0x80, CHR 0x83],
      [CHR 0xE2, CHR 0x80, CHR 0x84], [CHR 0xE2, CHR 0x80, CHR 0x85],
      [CHR 0xE2, CHR 0x80, CHR 0x86], [CHR 0xE2, CHR 0x80, CHR 0x87],
      [CHR 0xE2, CHR 0x80, CHR 0x88], [CHR 0xE2, CHR 0x80, CHR 0x89],
      [CHR 0xE2, CHR 0x80, CHR 0x8A], [CHR 0xE2, CHR 0x80, CHR 0xA8],
      [CHR 0xE2, CHR 0x80, CHR 0xA9], [CHR 0xE2, CHR 0x80, CHR 0xAF],
      [CHR 0xE2, CHR 0x81, CHR 0x9F], [CHR 0xE3, CHR 0x80, CHR 0x80]]"

text \<open>The first of the given encodings that the string starts with.\<close>

definition leading :: "string list \<Rightarrow> string \<Rightarrow> string option" where
  "leading es s = find (\<lambda>e. e \<noteq> [] \<and> HasPrefix s e) es"

lemma leading_None_iff: "leading es s = None \<longleftrightarrow> (\<forall>e \<in> set es. e \<noteq> [] \<longrightarrow> \<not> HasPrefix s e)"
  by (auto simp: leading_def find_None_iff)

lemma leading_SomeD: "leading es s = Some e \<Longrightarrow> e \<in> set es \<and> e \<noteq> [] \<and> HasPrefix s e"
  by (auto simp: leading_def find_Some_iff)

function strip :: "string list \<Rightarrow> string \<Rightarrow> string" where
  "strip es s = (case leading es s of None \<Rightarrow> s | Some e \<Rightarrow> strip es (drop (length e) s))"
  by pat_completeness auto
termination
proof (relation "measure (\<lambda>(es, s). length s)", goal_cases)
  case (2 es s e)
  then have "e \<noteq> []" "HasPrefix s e" using leading_SomeD by blast+
  then show ?case by (auto simp: HasPrefix_iff)
qed simp

declare strip.simps [simp del]

definition TrimLeft :: "string \<Rightarrow> string" where
  "TrimLeft s = strip space_runes s"

definition TrimRight :: "string \<Rightarrow> string" where
  "TrimRight s = rev (strip (map rev space_runes) (rev s))"

definition TrimSpace :: "string \<Rightarrow> string" where
  "TrimSpace s = TrimRight (TrimLeft s)"

lemma strip_suffix: "\<exists>p. s = p @ strip es s"
proof (induction es s rule: strip.induct)
  case (1 es s)
  show ?case
  proof (cases "leading es s")
    case None
    then show ?thesis by (simp add: strip.simps [of es s])
  next
    case (Some e)
    with 1 obtain p where "drop (length e) s = p @ strip es (drop (length e) s)" by blast
    then have "s = (take (length e) s @ p) @ strip es (drop (length e) s)"
      by (metis append_assoc append_take_drop_id)
    moreover have "strip es s = strip es (drop (length e) s)"
      using Some by (simp add: strip.simps [of es s])
    ultimately show ?thesis by metis
  qed
qed

lemma leading_strip [simp]: "leading es (strip es s) = None"
proof (induction es s rule: strip.induct)
  case (1 es s)
  then show ?case
    by (cases "leading es s") (simp_all add: strip.simps [of es s])
qed

lemma strip_fixed: "leading es s = None \<Longrightarrow> strip es s = s"
  by (simp add: strip.simps)

lemma length_strip_le: "length (strip es s) \<le> length s"
  by (metis strip_suffix length_append le_add2)

lemma TrimRight_prefix: "\<exists>t. s = TrimRight s @ t"
  by (metis TrimRight_def rev_append rev_rev_ident strip_suffix)

lemma TrimLeft_TrimRight: "leading space_runes s = None \<Longrightarrow> TrimLeft (TrimRight s) = TrimRight s"
proof -
  assume a: "leading space_runes s = None"
  obtain t where t: "s = TrimRight s @ t" using TrimRight_prefix by blast
  have "leading space_runes (TrimRight s) = None"
    using a t unfolding leading_None_iff HasPrefix_iff by (metis append_assoc)
  then show ?thesis by (simp add: TrimLeft_def strip_fixed)
qed

lemma TrimSpace_idem [simp]: "TrimSpace (TrimSpace s) = TrimSpace s"
proof -
  have "leading space_runes (TrimLeft s) = None" by (simp add: TrimLeft_def)
  then have "TrimLeft (TrimRight (TrimLeft s)) = TrimRight (TrimLeft s)"
    by (rule TrimLeft_TrimRight)
  then show ?thesis by (simp add: TrimSpace_def TrimRight_def strip_fixed)
qed

lemma strip_keeps:
  "\<lbrakk>c \<in> set s; \<forall>e \<in> set es. c \<notin> set e\<rbrakk> \<Longrightarrow> c \<in> set (strip es s)"
proof (induction es s rule: strip.induct)
  case (1 es s)
  show ?case
  proof (cases "leading es s")
    case None
    with 1 show ?thesis by (simp add: strip.simps [of es s])
  next
    case (Some e)
    then obtain t where t: "s = e @ t" "e \<in> set es"
      using leading_SomeD [OF Some] by (auto simp: HasPrefix_iff)
    with 1 Some show ?thesis by (auto simp: strip.simps [of es "e @ t"])
  qed
qed

lemma TrimSpace_keeps: "\<lbrakk>c \<in> set s; \<forall>e \<in> set space_runes. c \<notin> set e\<rbrakk> \<Longrightarrow> c \<in> set (TrimSpace s)"
  using strip_keeps [of c "rev (strip space_runes s)" "map rev space_runes"] strip_keeps [of c s space_runes]
  by (simp add: TrimSpace_def TrimRight_def TrimLeft_def)

lemma strip_Nil [simp]: "strip es [] = []"
  by (metis append_is_Nil_conv strip_suffix)

lemma TrimSpace_spaces:
  assumes "\<forall>c \<in> set s. c = CHR 0x20"
  shows "TrimSpace s = []"
proof -
  let ?t = "strip space_runes s"
  have "?t = []"
  proof (rule ccontr)
    assume "?t \<noteq> []"
    then obtain c t where ct: "?t = c # t" by (cases ?t) auto
    obtain p where "s = p @ c # t" using strip_suffix [of s space_runes] ct by metis
    with assms have "c = CHR 0x20" by simp
    then have "HasPrefix ?t [CHR 0x20]" using ct by (simp add: HasPrefix_def)
    moreover have "[CHR 0x20] \<in> set space_runes" by (simp add: space_runes_def)
    ultimately have "leading space_runes ?t \<noteq> None" unfolding leading_None_iff by blast
    then show False by simp
  qed
  then show ?thesis by (simp add: TrimSpace_def TrimLeft_def TrimRight_def)
qed

lemma length_TrimSpace_le: "length (TrimSpace s) \<le> length s"
  unfolding TrimSpace_def TrimRight_def TrimLeft_def
  by (metis length_strip_le length_rev order_trans)

lemma TrimSpace_Nil [simp]: "TrimSpace [] = []"
  using length_TrimSpace_le [of "[]"] by simp

subsection \<open>Split and Join\<close>

fun Split :: "char \<Rightarrow> string \<Rightarrow> string list" where
  "Split c [] = [[]]"
| "Split c (x # xs) =
     (if x = c then [] # Split c xs
      else case Split c xs of [] \<Rightarrow> [[x]] | y # ys \<Rightarrow> (x # y) # ys)"

fun Join :: "char \<Rightarrow> string list \<Rightarrow> string" where
  "Join c [] = []"
| "Join c [x] = x"
| "Join c (x # y # ys) = x @ c # Join c (y # ys)"

lemma Split_not_Nil [simp]: "Split c s \<noteq> []"
  by (cases s) (auto split: list.splits)

lemma Split_no_sep: "c \<notin> set s \<Longrightarrow> Split c s = [s]"
  by (induction s) auto

lemma Split_part_no_sep: "t \<in> set (Split c s) \<Longrightarrow> c \<notin> set t"
proof (induction s arbitrary: t)
  case (Cons x xs)
  then show ?case by (cases "Split c xs") (auto split: if_splits)
qed simp

lemma Split_append_sep: "c \<notin> set a \<Longrightarrow> Split c (a @ c # b) = a # Split c b"
  by (induction a) auto

lemma Join_Split [simp]: "Join c (Split c s) = s"
proof (induction s)
  case (Cons x xs)
  obtain y ys where "Split c xs = y # ys" by (metis Split_not_Nil list.exhaust)
  with Cons show ?case by (cases ys) auto
qed simp

lemma Split_Join: "\<lbrakk>xs \<noteq> []; \<forall>x \<in> set xs. c \<notin> set x\<rbrakk> \<Longrightarrow> Split c (Join c xs) = xs"
proof (induction c xs rule: Join.induct)
  case (3 c x y ys)
  then show ?case by (simp add: Split_append_sep)
qed (auto simp: Split_no_sep)

text \<open>\<^verbatim>\<open>strings.Cut\<close> around a one-byte separator.\<close>

fun Cut :: "string \<Rightarrow> char \<Rightarrow> (string \<times> string) option" where
  "Cut [] c = None"
| "Cut (x # xs) c = (if x = c then Some ([], xs)
                     else map_option (\<lambda>(a, b). (x # a, b)) (Cut xs c))"

lemma Cut_Some_iff: "Cut s c = Some (a, b) \<longleftrightarrow> s = a @ c # b \<and> c \<notin> set a"
proof (induction s arbitrary: a)
  case (Cons x xs)
  then show ?case by (cases a) auto
qed simp

end
