(* ===== verification/Go_Numbers.thy ===== *)
theory Go_Numbers
  imports Go_Strings
begin

text \<open>
  \<^verbatim>\<open>strconv\<close> on 64-bit integers and \<^verbatim>\<open>encoding/hex\<close>: decimal text of an integer and its parser
  (\<^verbatim>\<open>ParseInt(s, 10, 64)\<close>, \<^verbatim>\<open>Atoi\<close> on a 64-bit platform, with the range error), lower-case
  hexadecimal text of bytes and its parser, each with its round trip.
\<close>

unbundle bit_operations_syntax

abbreviation int64_max :: int where "int64_max \<equiv> 2 ^ 63 - 1"
abbreviation int64_min :: int where "int64_min \<equiv> - (2 ^ 63)"

definition in_int64 :: "int \<Rightarrow> bool" where
  "in_int64 i \<longleftrightarrow> int64_min \<le> i \<and> i \<le> int64_max"

text \<open>The value an \<^verbatim>\<open>int64\<close> operation stores: the mathematical result modulo $2^{64}$.\<close>

definition wrap64 :: "int \<Rightarrow> int" where
  "wrap64 n = (n + 2 ^ 63) mod 2 ^ 64 - 2 ^ 63"

lemma wrap64_id [simp]: "in_int64 n \<Longrightarrow> wrap64 n = n"
  by (simp add: wrap64_def in_int64_def)

lemma wrap64_in_int64: "in_int64 (wrap64 n)"
  using pos_mod_bound [of "2 ^ 64 :: int" "n + 2 ^ 63"] by (simp add: wrap64_def in_int64_def)

subsection \<open>Decimal text\<close>

abbreviation byte_val :: "char \<Rightarrow> nat" where "byte_val c \<equiv> of_char c"

definition is_digit :: "char \<Rightarrow> bool" where
  "is_digit c \<longleftrightarrow> 48 \<le> byte_val c \<and> byte_val c \<le> 57"

definition digit_char :: "nat \<Rightarrow> char" where
  "digit_char n = char_of (48 + n)"

lemma of_digit_char [simp]: "n < 10 \<Longrightarrow> byte_val (digit_char n) = 48 + n"
  by (simp add: digit_char_def of_char_of)

lemma is_digit_digit_char [simp]: "n < 10 \<Longrightarrow> is_digit (digit_char n)"
  by (simp add: is_digit_def)

fun show_nat :: "nat \<Rightarrow> string" where
  "show_nat n = (if n < 10 then [digit_char n] else show_nat (n div 10) @ [digit_char (n mod 10)])"

declare show_nat.simps [simp del]

definition show_int :: "int \<Rightarrow> string" where
  "show_int i = (if i < 0 then CHR ''-'' # show_nat (nat (- i)) else show_nat (nat i))"

fun digits_val :: "string \<Rightarrow> nat \<Rightarrow> nat option" where
  "digits_val [] a = Some a"
| "digits_val (c # cs) a = (if is_digit c then digits_val cs (10 * a + (byte_val c - 48)) else None)"

definition ParseInt :: "string \<Rightarrow> int option" where
  "ParseInt s =
     (let neg = (s \<noteq> [] \<and> hd s = CHR ''-'');
          ds = (if s \<noteq> [] \<and> (hd s = CHR ''-'' \<or> hd s = CHR ''+'') then tl s else s)
      in if ds = [] then None
         else case digits_val ds 0 of
           None \<Rightarrow> None
         | Some n \<Rightarrow>
             (let i = (if neg then - int n else int n) in if in_int64 i then Some i else None))"

lemma digits_val_append:
  "digits_val (s @ t) a = (case digits_val s a of None \<Rightarrow> None | Some b \<Rightarrow> digits_val t b)"
  by (induction s arbitrary: a) auto

lemma digits_val_show_nat: "digits_val (show_nat n) 0 = Some n"
proof (induction n rule: show_nat.induct)
  case (1 n)
  then show ?case
    by (cases "n < 10") (simp_all add: show_nat.simps [of n] digits_val_append)
qed

lemma show_nat_digits: "c \<in> set (show_nat n) \<Longrightarrow> is_digit c"
proof (induction n rule: show_nat.induct)
  case (1 n)
  then show ?case by (cases "n < 10") (auto simp: show_nat.simps [of n])
qed

lemma show_nat_not_Nil [simp]: "show_nat n \<noteq> []"
  by (subst show_nat.simps) simp

lemma is_digit_not_sign: "is_digit c \<Longrightarrow> c \<noteq> CHR ''-'' \<and> c \<noteq> CHR ''+''"
  by (auto simp: is_digit_def)

theorem ParseInt_show_int: "in_int64 i \<Longrightarrow> ParseInt (show_int i) = Some i"
proof -
  assume r: "in_int64 i"
  show ?thesis
  proof (cases "i < 0")
    case True
    with r show ?thesis by (simp add: ParseInt_def show_int_def digits_val_show_nat)
  next
    case False
    have "hd (show_nat (nat i)) \<noteq> CHR ''-'' \<and> hd (show_nat (nat i)) \<noteq> CHR ''+''"
      by (rule is_digit_not_sign [OF show_nat_digits [OF hd_in_set [OF show_nat_not_Nil]]])
    with False r show ?thesis by (simp add: ParseInt_def show_int_def digits_val_show_nat)
  qed
qed

lemma ParseInt_in_int64: "ParseInt s = Some i \<Longrightarrow> in_int64 i"
  by (auto simp: ParseInt_def Let_def split: if_splits option.splits)

subsection \<open>Hexadecimal text\<close>

definition hexdigit :: "nat \<Rightarrow> char" where
  "hexdigit n = (if n < 10 then char_of (48 + n) else char_of (87 + n))"

definition hex_value :: "char \<Rightarrow> nat option" where
  "hex_value c =
     (let n = byte_val c in
      if 48 \<le> n \<and> n \<le> 57 then Some (n - 48)
      else if 97 \<le> n \<and> n \<le> 102 then Some (n - 87)
      else if 65 \<le> n \<and> n \<le> 70 then Some (n - 55)
      else None)"

lemma hex_value_hexdigit [simp]: "n < 16 \<Longrightarrow> hex_value (hexdigit n) = Some n"
  by (auto simp: hex_value_def hexdigit_def of_char_of)

lemma hexdigit_not_dash [simp]: "n < 16 \<Longrightarrow> hexdigit n \<noteq> CHR ''-''"
proof
  assume "n < 16" "hexdigit n = CHR ''-''"
  then have "byte_val (hexdigit n) = byte_val (CHR ''-'')" by simp
  with \<open>n < 16\<close> show False by (auto simp: hexdigit_def of_char_of split: if_splits)
qed

fun hex_encode :: "8 word list \<Rightarrow> string" where
  "hex_encode [] = []"
| "hex_encode (b # bs) = hexdigit (unat b div 16) # hexdigit (unat b mod 16) # hex_encode bs"

fun hex_decode :: "string \<Rightarrow> 8 word list option" where
  "hex_decode [] = Some []"
| "hex_decode [c] = None"
| "hex_decode (c # d # cs) =
     (case hex_value c of None \<Rightarrow> None
      | Some h \<Rightarrow> (case hex_value d of None \<Rightarrow> None
      | Some l \<Rightarrow> map_option ((#) (word_of_nat (16 * h + l))) (hex_decode cs)))"

lemma unat_byte_div16 [simp]: "unat (b :: 8 word) div 16 < 16"
proof -
  have "unat b < 2 ^ LENGTH(8)" by (rule unsigned_less)
  then show ?thesis by simp
qed

lemma hex_decode_encode: "hex_decode (hex_encode bs) = Some bs"
  by (induction bs) simp_all

lemma length_hex_encode [simp]: "length (hex_encode bs) = 2 * length bs"
  by (induction bs) auto

lemma hex_encode_no_dash: "CHR ''-'' \<notin> set (hex_encode bs)"
  by (induction bs) (auto dest: sym)

lemma hex_encode_append: "hex_encode (a @ b) = hex_encode a @ hex_encode b"
  by (induction a) auto

lemma hex_value_less: "hex_value c = Some n \<Longrightarrow> n < 16"
  by (auto simp: hex_value_def Let_def split: if_splits)

lemma length_hex_decode: "hex_decode s = Some bs \<Longrightarrow> length s = 2 * length bs"
  by (induction s arbitrary: bs rule: hex_decode.induct) (auto split: option.splits)

end
