(* ===== verification/Go_Json.thy ===== *)
theory Go_Json
  imports Go_Numbers
begin

text \<open>
  Go's \<^verbatim>\<open>encoding/json\<close> as far as the services use it, on bytes:
  \<^item> the scanner of \<^verbatim>\<open>json.Valid\<close> (white space, strings, numbers, literals, arrays, objects, and
    the nesting limit of 10000);
  \<^item> \<^verbatim>\<open>members\<close>: the members of an object as pairs of a decoded key and the raw text of the value,
    which is what a struct decoder consumes;
  \<^item> decoding of string and integer members, and of a \<^verbatim>\<open>json.RawMessage\<close> (its raw text);
  \<^item> encoding of strings with HTML escaping, and \<^verbatim>\<open>compact\<close>, which \<^verbatim>\<open>json.Marshal\<close> applies to a
    raw message.

  The scanner recurses with fuel; \<open>scan_fuel_enough\<close> shows that a fuel above twice the length
  of the text never changes the answer, so \<^verbatim>\<open>Valid\<close>, which starts with that much, is the scanner itself.
\<close>

subsection \<open>Lexical scanning\<close>

definition is_ws :: "char \<Rightarrow> bool" where
  "is_ws c \<longleftrightarrow> c = CHR 0x20 \<or> c = CHR 0x09 \<or> c = CHR 0x0A \<or> c = CHR 0x0D"

abbreviation skip_ws :: "string \<Rightarrow> string" where "skip_ws \<equiv> dropWhile is_ws"

definition is_hex :: "char \<Rightarrow> bool" where
  "is_hex c \<longleftrightarrow> hex_value c \<noteq> None"

definition is_escape :: "char \<Rightarrow> bool" where
  "is_escape c \<longleftrightarrow> c \<in> set [CHR ''b'', CHR ''f'', CHR ''n'', CHR ''r'', CHR ''t'',
                          CHR 0x5C, CHR ''/'', CHR 0x22]"

text \<open>The text after the character expected at the head.\<close>

definition expect :: "char \<Rightarrow> string \<Rightarrow> string option" where
  "expect c s = (if s \<noteq> [] \<and> hd s = c then Some (tl s) else None)"

lemma expect_SomeD: "expect c s = Some r \<Longrightarrow> s = c # r"
  by (cases s) (auto simp: expect_def split: if_splits)

lemma expect_Cons [simp]: "expect c (x # xs) = (if x = c then Some xs else None)"
  by (simp add: expect_def)

text \<open>The text after an escape sequence whose backslash has been read.\<close>

definition scan_escape :: "string \<Rightarrow> string option" where
  "scan_escape s =
     (if s = [] then None
      else if is_escape (hd s) then Some (tl s)
      else if hd s = CHR ''u'' \<and> length s \<ge> 5 \<and> list_all is_hex (take 4 (tl s)) then Some (drop 5 s)
      else None)"

lemma scan_escape_shrinks [termination_simp]: "scan_escape s = Some r \<Longrightarrow> length r < length s"
  by (cases s) (auto simp: scan_escape_def split: if_splits)

text \<open>The text after the closing quote of a string whose opening quote has been read.\<close>

fun scan_str :: "string \<Rightarrow> string option" where
  "scan_str [] = None"
| "scan_str (c # cs) =
     (if c = CHR 0x22 then Some cs
      else if c = CHR 0x5C then (case scan_escape cs of None \<Rightarrow> None | Some r \<Rightarrow> scan_str r)
      else if byte_val c < 32 then None
      else scan_str cs)"

definition scan_digits1 :: "string \<Rightarrow> string option" where
  "scan_digits1 s = (case s of [] \<Rightarrow> None
     | c # cs \<Rightarrow> if is_digit c then Some (dropWhile is_digit cs) else None)"

definition scan_int :: "string \<Rightarrow> string option" where
  "scan_int s =
     (case s of [] \<Rightarrow> None
      | c # cs \<Rightarrow> if c = CHR ''0'' then Some cs
                  else if is_digit c then Some (dropWhile is_digit cs) else None)"

definition scan_frac :: "string \<Rightarrow> string option" where
  "scan_frac s = (case s of [] \<Rightarrow> Some []
     | c # cs \<Rightarrow> if c = CHR ''.'' then scan_digits1 cs else Some s)"

definition scan_exp :: "string \<Rightarrow> string option" where
  "scan_exp s = (case s of [] \<Rightarrow> Some []
     | c # cs \<Rightarrow>
         if c = CHR ''e'' \<or> c = CHR ''E'' then
           (case cs of [] \<Rightarrow> None
            | d # ds \<Rightarrow> if d = CHR ''+'' \<or> d = CHR ''-'' then scan_digits1 ds else scan_digits1 cs)
         else Some s)"

definition scan_num :: "string \<Rightarrow> string option" where
  "scan_num s =
     Option.bind (scan_int (if s \<noteq> [] \<and> hd s = CHR ''-'' then tl s else s))
       (\<lambda>r. Option.bind (scan_frac r) scan_exp)"

definition scan_lit :: "string \<Rightarrow> string option" where
  "scan_lit s =
     (if HasPrefix s ''true'' then Some (drop 4 s)
      else if HasPrefix s ''false'' then Some (drop 5 s)
      else if HasPrefix s ''null'' then Some (drop 4 s)
      else None)"

subsection \<open>Values\<close>

text \<open>
  \<open>scan_value n d s\<close> is the text after the value at the head of \<open>s\<close>, with fuel \<open>n\<close> and \<open>d\<close> levels
  of nesting left. \<open>scan_members\<close> and \<open>scan_elems\<close> read the rest of an object or array, at a key
  or an element.
\<close>

fun scan_value :: "nat \<Rightarrow> nat \<Rightarrow> string \<Rightarrow> string option"
  and scan_members :: "nat \<Rightarrow> nat \<Rightarrow> string \<Rightarrow> string option"
  and scan_elems :: "nat \<Rightarrow> nat \<Rightarrow> string \<Rightarrow> string option" where
  "scan_value 0 d s = None"
| "scan_value (Suc n) d [] = None"
| "scan_value (Suc n) d (c # cs) =
     (if c = CHR ''{'' then
        (if d = 0 then None
         else case expect (CHR ''}'') (skip_ws cs) of
                Some r \<Rightarrow> Some r
              | None \<Rightarrow> scan_members n (d - 1) (skip_ws cs))
      else if c = CHR ''['' then
        (if d = 0 then None
         else case expect (CHR '']'') (skip_ws cs) of
                Some r \<Rightarrow> Some r
              | None \<Rightarrow> scan_elems n (d - 1) (skip_ws cs))
      else if c = CHR 0x22 then scan_str cs
      else if c = CHR ''-'' \<or> is_digit c then scan_num (c # cs)
      else scan_lit (c # cs))"
| "scan_members 0 d s = None"
| "scan_members (Suc n) d s =
     Option.bind (expect (CHR 0x22) s) (\<lambda>s1.
     Option.bind (scan_str s1) (\<lambda>s2.
     Option.bind (expect (CHR '':'') (skip_ws s2)) (\<lambda>s3.
     Option.bind (scan_value n d (skip_ws s3)) (\<lambda>s4.
       case expect (CHR ''}'') (skip_ws s4) of
         Some r \<Rightarrow> Some r
       | None \<Rightarrow> Option.bind (expect (CHR '','') (skip_ws s4)) (\<lambda>s5.
           scan_members n d (skip_ws s5))))))"
| "scan_elems 0 d s = None"
| "scan_elems (Suc n) d s =
     Option.bind (scan_value n d s) (\<lambda>s1.
       case expect (CHR '']'') (skip_ws s1) of
         Some r \<Rightarrow> Some r
       | None \<Rightarrow> Option.bind (expect (CHR '','') (skip_ws s1)) (\<lambda>s2.
           scan_elems n d (skip_ws s2)))"

definition max_nesting :: nat where
  "max_nesting = 10000"

definition value_end :: "string \<Rightarrow> string option" where
  "value_end s = scan_value (Suc (2 * length s)) max_nesting s"

definition Valid :: "bytes \<Rightarrow> bool" where
  "Valid s \<longleftrightarrow> (case value_end (skip_ws s) of None \<Rightarrow> False | Some r \<Rightarrow> skip_ws r = [])"

subsection \<open>The fuel suffices\<close>

lemma length_skip_ws: "length (skip_ws s) \<le> length s"
  by (rule length_dropWhile_le)

lemma expect_shrinks: "expect c s = Some r \<Longrightarrow> length r < length s"
  by (auto dest: expect_SomeD)

lemma scan_str_shrinks: "scan_str s = Some r \<Longrightarrow> length r < length s"
proof (induction s arbitrary: r rule: scan_str.induct)
  case (2 c cs)
  show ?case
  proof (cases "c = CHR 0x5C")
    case True
    with 2 obtain t where t: "scan_escape cs = Some t" "scan_str t = Some r"
      by (auto split: option.splits)
    then have "length r < length t" using 2 True by simp
    with scan_escape_shrinks [OF t(1)] show ?thesis by simp
  next
    case False
    with 2 show ?thesis by (auto split: if_splits intro: less_SucI)
  qed
qed simp

lemma scan_digits1_shrinks: "scan_digits1 s = Some r \<Longrightarrow> length r < length s"
  by (auto simp: scan_digits1_def less_Suc_eq_le length_dropWhile_le split: list.splits if_splits)

lemma scan_int_shrinks: "scan_int s = Some r \<Longrightarrow> length r < length s"
  by (auto simp: scan_int_def less_Suc_eq_le length_dropWhile_le split: list.splits if_splits)

lemma scan_frac_le: "scan_frac s = Some r \<Longrightarrow> length r \<le> length s"
  by (auto simp: scan_frac_def dest: scan_digits1_shrinks split: list.splits if_splits)

lemma scan_exp_le: "scan_exp s = Some r \<Longrightarrow> length r \<le> length s"
  by (auto simp: scan_exp_def dest!: scan_digits1_shrinks split: list.splits if_splits)

lemma scan_num_shrinks:
  assumes "scan_num s = Some r"
  shows "length r < length s"
proof -
  define t where "t = (if s \<noteq> [] \<and> hd s = CHR ''-'' then tl s else s)"
  from assms obtain r1 r2 where
    "scan_int t = Some r1" "scan_frac r1 = Some r2" "scan_exp r2 = Some r"
    unfolding scan_num_def t_def by (auto simp: bind_eq_Some_conv)
  then have "length r < length t"
    by (meson scan_exp_le scan_frac_le scan_int_shrinks order_trans order.strict_trans1)
  moreover have "length t \<le> length s" by (simp add: t_def)
  ultimately show ?thesis by linarith
qed

lemma scan_lit_shrinks: "scan_lit s = Some r \<Longrightarrow> length r < length s"
  by (auto simp: scan_lit_def HasPrefix_iff split: if_splits)

lemmas scan_shrink_rules =
  expect_shrinks scan_str_shrinks scan_num_shrinks scan_lit_shrinks

lemma skip_ws_less: "length r < length (skip_ws s) \<Longrightarrow> length r < length s"
  using length_skip_ws [of s] by simp

lemma scan_shrinks_all:
  "(\<forall>d s r. scan_value n d s = Some r \<longrightarrow> length r < length s) \<and>
   (\<forall>d s r. scan_members n d s = Some r \<longrightarrow> length r < length s) \<and>
   (\<forall>d s r. scan_elems n d s = Some r \<longrightarrow> length r < length s)"
proof (induction n)
  case (Suc n)
  then have v: "\<And>d s r. scan_value n d s = Some r \<Longrightarrow> length r < length s"
    and m: "\<And>d s r. scan_members n d s = Some r \<Longrightarrow> length r < length s"
    and e: "\<And>d s r. scan_elems n d s = Some r \<Longrightarrow> length r < length s"
    by blast+
  have "length r < length s" if "scan_value (Suc n) d s = Some r" for d s r
    using that
    by (cases s) (auto split: if_splits option.splits intro: less_SucI
        dest!: scan_shrink_rules m e skip_ws_less)
  moreover have "length r < length s" if "scan_members (Suc n) d s = Some r" for d s r
  proof -
    from that obtain s1 s2 s3 s4 where
      "expect (CHR 0x22) s = Some s1" "scan_str s1 = Some s2"
      "expect (CHR '':'') (skip_ws s2) = Some s3" and s4: "scan_value n d (skip_ws s3) = Some s4"
      and rest: "(case expect (CHR ''}'') (skip_ws s4) of Some r \<Rightarrow> Some r
        | None \<Rightarrow> Option.bind (expect (CHR '','') (skip_ws s4)) (\<lambda>s5. scan_members n d (skip_ws s5)))
        = Some r"
      by (auto simp: bind_eq_Some_conv)
    then have "length s4 < length s" by (auto dest!: scan_shrink_rules v skip_ws_less)
    with rest show ?thesis
      by (auto simp: bind_eq_Some_conv split: option.splits dest!: scan_shrink_rules m skip_ws_less)
  qed
  moreover have "length r < length s" if "scan_elems (Suc n) d s = Some r" for d s r
  proof -
    from that obtain s1 where "scan_value n d s = Some s1"
      and rest: "(case expect (CHR '']'') (skip_ws s1) of Some r \<Rightarrow> Some r
        | None \<Rightarrow> Option.bind (expect (CHR '','') (skip_ws s1)) (\<lambda>s2. scan_elems n d (skip_ws s2)))
        = Some r"
      by (auto simp: bind_eq_Some_conv)
    from v [OF this(1)] rest show ?thesis
      by (auto simp: bind_eq_Some_conv split: option.splits dest!: scan_shrink_rules e skip_ws_less)
  qed
  ultimately show ?case by blast
qed simp

lemmas scan_shrinks =
  scan_shrinks_all [THEN conjunct1, rule_format]
  scan_shrinks_all [THEN conjunct2, THEN conjunct1, rule_format]
  scan_shrinks_all [THEN conjunct2, THEN conjunct2, rule_format]

lemma scan_fuel_step:
  "(\<forall>d s. 2 * length s < n \<longrightarrow> scan_value (Suc n) d s = scan_value n d s) \<and>
   (\<forall>d s. 2 * length s < n \<longrightarrow> scan_members (Suc n) d s = scan_members n d s) \<and>
   (\<forall>d s. 2 * length s + 1 < n \<longrightarrow> scan_elems (Suc n) d s = scan_elems n d s)"
proof (induction n)
  case (Suc n)
  then have v: "\<And>d s. 2 * length s < n \<Longrightarrow> scan_value (Suc n) d s = scan_value n d s"
    and m: "\<And>d s. 2 * length s < n \<Longrightarrow> scan_members (Suc n) d s = scan_members n d s"
    and e: "\<And>d s. 2 * length s + 1 < n \<Longrightarrow> scan_elems (Suc n) d s = scan_elems n d s"
    by blast+
  have 1: "scan_value (Suc (Suc n)) d s = scan_value (Suc n) d s" if "2 * length s < Suc n" for d s
  proof (cases s)
    case (Cons c cs)
    then have "2 * length (skip_ws cs) + 1 < n" using that length_skip_ws [of cs] by simp
    then have "scan_members (Suc n) (d - 1) (skip_ws cs) = scan_members n (d - 1) (skip_ws cs)"
      "scan_elems (Suc n) (d - 1) (skip_ws cs) = scan_elems n (d - 1) (skip_ws cs)"
      by (intro m e; simp)+
    with Cons show ?thesis
      by (simp del: scan_members.simps scan_elems.simps split: option.split)
  qed simp
  have 2: "scan_members (Suc (Suc n)) d s = scan_members (Suc n) d s"
    if "2 * length s < Suc n" for d s
  proof -
    have "scan_value (Suc n) d (skip_ws s3) = scan_value n d (skip_ws s3)"
      if "expect (CHR 0x22) s = Some s1" "scan_str s1 = Some s2"
        "expect (CHR '':'') (skip_ws s2) = Some s3" for s1 s2 s3
      using that \<open>2 * length s < Suc n\<close> length_skip_ws [of s3]
      by (intro v) (auto dest!: scan_shrink_rules skip_ws_less)
    moreover have "scan_members (Suc n) d (skip_ws s5) = scan_members n d (skip_ws s5)"
      if "expect (CHR 0x22) s = Some s1" "scan_str s1 = Some s2"
        "expect (CHR '':'') (skip_ws s2) = Some s3" "scan_value n d (skip_ws s3) = Some s4"
        "expect (CHR '','') (skip_ws s4) = Some s5" for s1 s2 s3 s4 s5
      using that \<open>2 * length s < Suc n\<close> length_skip_ws [of s5]
      by (intro m) (auto dest!: scan_shrink_rules scan_shrinks(1) skip_ws_less)
    ultimately show ?thesis
      by (subst (1 2) scan_members.simps) (auto intro!: Option.bind_cong split: option.split)
  qed
  have 3: "scan_elems (Suc (Suc n)) d s = scan_elems (Suc n) d s"
    if "2 * length s + 1 < Suc n" for d s
  proof -
    have "scan_value (Suc n) d s = scan_value n d s" using that by (intro v) simp
    moreover have "scan_elems (Suc n) d (skip_ws s2) = scan_elems n d (skip_ws s2)"
      if "scan_value n d s = Some s1" "expect (CHR '','') (skip_ws s1) = Some s2" for s1 s2
      using that \<open>2 * length s + 1 < Suc n\<close> length_skip_ws [of s2]
      by (intro e) (auto dest!: scan_shrink_rules scan_shrinks(1) skip_ws_less)
    ultimately show ?thesis
      by (subst (1 2) scan_elems.simps) (auto intro!: Option.bind_cong split: option.split)
  qed
  from 1 2 3 show ?case by blast
qed simp

theorem scan_fuel_enough: "scan_value (Suc (2 * length s) + k) d s = scan_value (Suc (2 * length s)) d s"
proof (induction k)
  case (Suc k)
  then show ?case using scan_fuel_step [of "Suc (2 * length s) + k"] by simp
qed simp

end
