(* ===== verification/Go_Time.thy ===== *)
theory Go_Time
  imports Go_Numbers
begin

text \<open>
  \<^verbatim>\<open>time.Time\<close> as the wire contract uses it: a civil date and time of day with nanoseconds and an
  offset from UTC in minutes. \<open>instant\<close> is the number of nanoseconds since
  January 1, year 1, 00:00:00 UTC, the zero time of Go, so \<open>IsZero\<close> and the order of timestamps are
  read off it. \<open>format_rfc3339\<close> is the layout \<^verbatim>\<open>RFC3339Nano\<close> of \<^verbatim>\<open>Time.MarshalJSON\<close> and
  \<open>parse_rfc3339\<close> the strict parser of \<^verbatim>\<open>Time.UnmarshalJSON\<close>.
\<close>

record gotime =
  t_year :: nat
  t_month :: nat
  t_day :: nat
  t_hour :: nat
  t_minute :: nat
  t_second :: nat
  t_nano :: nat
  t_offset :: int

definition is_leap :: "nat \<Rightarrow> bool" where
  "is_leap y \<longleftrightarrow> y mod 4 = 0 \<and> (y mod 100 \<noteq> 0 \<or> y mod 400 = 0)"

definition days_in_month :: "nat \<Rightarrow> nat \<Rightarrow> nat" where
  "days_in_month y m =
     (if m = 2 then (if is_leap y then 29 else 28)
      else if m \<in> {4, 6, 9, 11} then 30 else 31)"

text \<open>Days before the first day of a year, counted from year 1, and before a month of a year.\<close>

definition days_before_year :: "nat \<Rightarrow> int" where
  "days_before_year y = (let p = int y - 1 in 365 * p + p div 4 - p div 100 + p div 400)"

definition days_before_month :: "nat \<Rightarrow> nat \<Rightarrow> int" where
  "days_before_month y m = int (sum_list (map (days_in_month y) [1..<m]))"

definition instant :: "gotime \<Rightarrow> int" where
  "instant t =
     (let days = days_before_year (t_year t) + days_before_month (t_year t) (t_month t)
                 + int (t_day t) - 1;
          secs = days * 86400 + int (t_hour t) * 3600 + int (t_minute t) * 60 + int (t_second t)
                 - t_offset t * 60
      in secs * 1000000000 + int (t_nano t))"

definition IsZero :: "gotime \<Rightarrow> bool" where
  "IsZero t \<longleftrightarrow> instant t = 0"

definition zero_time :: gotime where
  "zero_time = \<lparr>t_year = 1, t_month = 1, t_day = 1, t_hour = 0, t_minute = 0, t_second = 0,
                t_nano = 0, t_offset = 0\<rparr>"

lemma IsZero_zero_time: "IsZero zero_time"
  by (simp add: IsZero_def zero_time_def instant_def days_before_year_def days_before_month_def)

definition valid_time :: "gotime \<Rightarrow> bool" where
  "valid_time t \<longleftrightarrow>
     t_year t \<le> 9999 \<and> 1 \<le> t_month t \<and> t_month t \<le> 12 \<and>
     1 \<le> t_day t \<and> t_day t \<le> days_in_month (t_year t) (t_month t) \<and>
     t_hour t < 24 \<and> t_minute t < 60 \<and> t_second t < 60 \<and> t_nano t < 1000000000 \<and>
     \<bar>t_offset t\<bar> < 1440"

subsection \<open>RFC 3339 text\<close>

fun pad :: "nat \<Rightarrow> nat \<Rightarrow> string" where
  "pad 0 n = []"
| "pad (Suc w) n = pad w (n div 10) @ [digit_char (n mod 10)]"

lemma pad_numeral:
  "pad (numeral k) n = pad (pred_numeral k) (n div 10) @ [digit_char (n mod 10)]"
  by (simp only: numeral_eq_Suc pad.simps)

lemma pad_1: "pad 1 n = [digit_char (n mod 10)]"
  unfolding One_nat_def by simp

definition trim_zeros :: "string \<Rightarrow> string" where
  "trim_zeros s = rev (dropWhile (\<lambda>c. c = CHR ''0'') (rev s))"

definition format_offset :: "int \<Rightarrow> string" where
  "format_offset z =
     (if z = 0 then ''Z''
      else (if z < 0 then CHR ''-'' else CHR ''+'')
           # pad 2 (nat \<bar>z\<bar> div 60) @ CHR '':'' # pad 2 (nat \<bar>z\<bar> mod 60))"

definition format_rfc3339 :: "gotime \<Rightarrow> string" where
  "format_rfc3339 t =
     pad 4 (t_year t) @ CHR ''-'' # pad 2 (t_month t) @ CHR ''-'' # pad 2 (t_day t) @ CHR ''T''
       # pad 2 (t_hour t) @ CHR '':'' # pad 2 (t_minute t) @ CHR '':'' # pad 2 (t_second t)
       @ (if t_nano t = 0 then [] else CHR ''.'' # trim_zeros (pad 9 (t_nano t)))
       @ format_offset (t_offset t)"

text \<open>The value of exactly \<open>w\<close> digits at the head, and the rest.\<close>

definition take_num :: "nat \<Rightarrow> string \<Rightarrow> (nat \<times> string) option" where
  "take_num w s =
     (if length s < w then None
      else map_option (\<lambda>n. (n, drop w s)) (digits_val (take w s) 0))"

definition take_char :: "char \<Rightarrow> string \<Rightarrow> string option" where
  "take_char c s = (if s \<noteq> [] \<and> hd s = c then Some (tl s) else None)"

text \<open>The fraction of a second: nine digits are kept, further ones are dropped.\<close>

definition take_frac :: "string \<Rightarrow> (nat \<times> string) option" where
  "take_frac s =
     (case take_char (CHR ''.'') s of
        None \<Rightarrow> Some (0, s)
      | Some r \<Rightarrow>
          (let ds = takeWhile is_digit r; k = take 9 ds
           in if ds = [] then None
              else map_option (\<lambda>n. (n * 10 ^ (9 - length k), drop (length ds) r)) (digits_val k 0)))"

definition take_offset :: "string \<Rightarrow> int option" where
  "take_offset s =
     (if s = ''Z'' then Some 0
      else if s \<noteq> [] \<and> hd s \<in> {CHR ''+'', CHR ''-''} then
        Option.bind (take_num 2 (tl s)) (\<lambda>(h, r1).
        Option.bind (take_char (CHR '':'') r1) (\<lambda>r2.
        Option.bind (take_num 2 r2) (\<lambda>(m, r3).
          if r3 = [] \<and> h < 24 \<and> m < 60
          then Some ((if hd s = CHR ''-'' then - 1 else 1) * int (h * 60 + m)) else None)))
      else None)"

definition parse_rfc3339 :: "string \<Rightarrow> gotime option" where
  "parse_rfc3339 s =
     Option.bind (take_num 4 s) (\<lambda>(y, s).
     Option.bind (take_char (CHR ''-'') s) (\<lambda>s.
     Option.bind (take_num 2 s) (\<lambda>(mo, s).
     Option.bind (take_char (CHR ''-'') s) (\<lambda>s.
     Option.bind (take_num 2 s) (\<lambda>(d, s).
     Option.bind (take_char (CHR ''T'') s) (\<lambda>s.
     Option.bind (take_num 2 s) (\<lambda>(h, s).
     Option.bind (take_char (CHR '':'') s) (\<lambda>s.
     Option.bind (take_num 2 s) (\<lambda>(mi, s).
     Option.bind (take_char (CHR '':'') s) (\<lambda>s.
     Option.bind (take_num 2 s) (\<lambda>(se, s).
     Option.bind (take_frac s) (\<lambda>(ns, s).
     Option.bind (take_offset s) (\<lambda>off.
       (let t = \<lparr>t_year = y, t_month = mo, t_day = d, t_hour = h, t_minute = mi, t_second = se,
                 t_nano = ns, t_offset = off\<rparr>
        in if valid_time t then Some t else None))))))))))))))"

subsection \<open>The round trip\<close>

lemma length_pad [simp]: "length (pad w n) = w"
  by (induction w n rule: pad.induct) auto

lemma pad_digits: "c \<in> set (pad w n) \<Longrightarrow> is_digit c"
  by (induction w n rule: pad.induct) auto

lemma digits_val_pad: "digits_val (pad w n) 0 = Some (n mod 10 ^ w)"
proof (induction w n rule: pad.induct)
  case (2 w n)
  have "n mod (10 * 10 ^ w) = 10 * (n div 10 mod 10 ^ w) + n mod 10"
    by (simp add: mod_mult2_eq)
  with 2 show ?case by (simp add: digits_val_append)
qed simp

lemma take_num_pad [simp]: "n < 10 ^ w \<Longrightarrow> take_num w (pad w n @ s) = Some (n, s)"
  by (simp add: take_num_def digits_val_pad)

lemma take_char_Cons [simp]: "take_char c (c # s) = Some s"
  by (simp add: take_char_def)

lemma digits_val_zeros:
  "digits_val (s @ replicate k (CHR ''0'')) a = map_option (\<lambda>n. n * 10 ^ k) (digits_val s a)"
proof -
  have "digits_val (replicate k (CHR ''0'')) b = Some (b * 10 ^ k)" for b
    by (induction k arbitrary: b) (simp_all add: is_digit_def algebra_simps)
  then show ?thesis by (simp add: digits_val_append split: option.split)
qed

lemma trim_zeros_decomp: "\<exists>k. s = trim_zeros s @ replicate k (CHR ''0'')"
proof -
  let ?P = "\<lambda>c. c = CHR ''0''"
  have z: "takeWhile ?P (rev s) = replicate (length (takeWhile ?P (rev s))) (CHR ''0'')"
    by (rule replicate_length_same [symmetric]) (auto dest: set_takeWhileD)
  have "s = rev (takeWhile ?P (rev s) @ dropWhile ?P (rev s))"
    by (simp only: takeWhile_dropWhile_id rev_rev_ident)
  also have "\<dots> = trim_zeros s @ rev (takeWhile ?P (rev s))"
    by (simp only: trim_zeros_def rev_append)
  finally show ?thesis by (metis rev_replicate z)
qed

lemma take_frac_format:
  assumes n: "0 < n" "n < 10 ^ 9" and r: "r \<noteq> []" "\<not> is_digit (hd r)"
  shows "take_frac (CHR ''.'' # trim_zeros (pad 9 n) @ r) = Some (n, r)"
proof -
  let ?t = "trim_zeros (pad 9 n)"
  obtain k where k: "pad 9 n = ?t @ replicate k (CHR ''0'')" using trim_zeros_decomp by blast
  have dig: "\<forall>c \<in> set ?t. is_digit c" using k pad_digits by (metis UnI1 set_append)
  then have tw: "takeWhile is_digit (?t @ r) = ?t"
    using r by (cases r) (auto simp: takeWhile_append2)
  have len: "length ?t + k = 9" by (metis k length_append length_pad length_replicate)
  have v: "map_option (\<lambda>m. m * 10 ^ k) (digits_val ?t 0) = Some n"
    using digits_val_zeros [of ?t k 0] k digits_val_pad [of 9 n] n by simp
  have ne: "?t \<noteq> []" using v n by auto
  have "9 - length ?t = k" using len by simp
  then show ?thesis using v ne len by (auto simp: take_frac_def Let_def tw)
qed

lemma take_offset_format: "\<bar>z\<bar> < 1440 \<Longrightarrow> take_offset (format_offset z) = Some z"
proof (cases "z = 0")
  case False
  assume "\<bar>z\<bar> < 1440"
  then have "nat \<bar>z\<bar> div 60 < 24" "nat \<bar>z\<bar> mod 60 < 60" by auto
  moreover have "take_num 2 (pad 2 (nat \<bar>z\<bar> mod 60)) = Some (nat \<bar>z\<bar> mod 60, [])"
    using take_num_pad [of "nat \<bar>z\<bar> mod 60" 2 "[]"] by simp
  moreover have "int (nat \<bar>z\<bar> div 60 * 60 + nat \<bar>z\<bar> mod 60) = \<bar>z\<bar>" by simp
  ultimately show ?thesis using False by (auto simp: take_offset_def format_offset_def)
qed (simp add: take_offset_def format_offset_def)

lemma format_offset_start: "format_offset z \<noteq> [] \<and> \<not> is_digit (hd (format_offset z))
  \<and> hd (format_offset z) \<noteq> CHR ''.''"
  by (auto simp: format_offset_def is_digit_def)

theorem parse_format_rfc3339: "valid_time t \<Longrightarrow> parse_rfc3339 (format_rfc3339 t) = Some t"
proof -
  assume v: "valid_time t"
  have "t_day t \<le> 31"
    using v by (auto simp: valid_time_def days_in_month_def split: if_splits)
  with v have b: "t_year t < 10 ^ 4" "t_month t < 10 ^ 2" "t_day t < 10 ^ 2" "t_hour t < 10 ^ 2"
    "t_minute t < 10 ^ 2" "t_second t < 10 ^ 2" "\<bar>t_offset t\<bar> < 1440" "t_nano t < 10 ^ 9"
    by (auto simp: valid_time_def)
  define fr where "fr = (if t_nano t = 0 then [] else CHR ''.'' # trim_zeros (pad 9 (t_nano t)))
      @ format_offset (t_offset t)"
  have f: "take_frac fr = Some (t_nano t, format_offset (t_offset t))"
  proof (cases "t_nano t = 0")
    case True
    then show ?thesis
      using format_offset_start [of "t_offset t"] by (simp add: fr_def take_frac_def take_char_def)
  next
    case False
    then show ?thesis
      using take_frac_format [of "t_nano t" "format_offset (t_offset t)"] b
        format_offset_start [of "t_offset t"] by (simp add: fr_def)
  qed
  have p: "take_num 4 (pad 4 (t_year t) @ s) = Some (t_year t, s)"
    "take_num 2 (pad 2 (t_month t) @ s) = Some (t_month t, s)"
    "take_num 2 (pad 2 (t_day t) @ s) = Some (t_day t, s)"
    "take_num 2 (pad 2 (t_hour t) @ s) = Some (t_hour t, s)"
    "take_num 2 (pad 2 (t_minute t) @ s) = Some (t_minute t, s)"
    "take_num 2 (pad 2 (t_second t) @ s) = Some (t_second t, s)" for s
    using b by (intro take_num_pad; simp)+
  show ?thesis
    unfolding parse_rfc3339_def format_rfc3339_def fr_def [symmetric]
    using v b by (simp add: p f take_offset_format Let_def valid_time_def)
qed

end
