(* ===== verification/Go_Codec.thy ===== *)
theory Go_Codec
  imports Go_Json Go_Time
begin

text \<open>
  The value side of \<^verbatim>\<open>encoding/json\<close>: what a struct decoder does with the members of an object, and
  what \<^verbatim>\<open>json.Marshal\<close> writes.
  \<^item> \<open>unquote\<close> decodes the inside of a string literal: escapes, \<^verbatim>\<open>\u\<close> with surrogate pairs, and
    U+FFFD for anything that is not UTF-8.
  \<^item> \<open>members\<close> lists the members of a valid object as (decoded key, raw value).
  \<^item> \<open>field\<close> decodes the members that match one struct field, in order: Go matches member names
    exactly or case-insensitively and a later member overwrites an earlier one. A decoder gets
    \<^verbatim>\<open>null\<close> too, which leaves a string, integer or time field as it is and is the value of a raw
    message. A nil and an empty \<^verbatim>\<open>json.RawMessage\<close> are both the empty string; the services never
    build a non-nil empty one.
  \<^item> \<open>quote\<close> and \<open>compact\<close> are the encoder's string literal (with HTML escaping) and its
    treatment of a \<^verbatim>\<open>json.RawMessage\<close>.
\<close>

subsection \<open>UTF-8\<close>

definition byte_in :: "string \<Rightarrow> nat \<Rightarrow> nat \<Rightarrow> nat \<Rightarrow> bool" where
  "byte_in s i lo hi \<longleftrightarrow> i < length s \<and> lo \<le> byte_val (s ! i) \<and> byte_val (s ! i) \<le> hi"

text \<open>The length of the UTF-8 encoded code point at the head, 0 where there is none.\<close>

definition utf8_len :: "string \<Rightarrow> nat" where
  "utf8_len s =
     (if byte_in s 0 0 0x7F then 1
      else if byte_in s 0 0xC2 0xDF \<and> byte_in s 1 0x80 0xBF then 2
      else if byte_in s 0 0xE0 0xE0 \<and> byte_in s 1 0xA0 0xBF \<and> byte_in s 2 0x80 0xBF then 3
      else if (byte_in s 0 0xE1 0xEC \<or> byte_in s 0 0xEE 0xEF) \<and> byte_in s 1 0x80 0xBF
              \<and> byte_in s 2 0x80 0xBF then 3
      else if byte_in s 0 0xED 0xED \<and> byte_in s 1 0x80 0x9F \<and> byte_in s 2 0x80 0xBF then 3
      else if byte_in s 0 0xF0 0xF0 \<and> byte_in s 1 0x90 0xBF \<and> byte_in s 2 0x80 0xBF
              \<and> byte_in s 3 0x80 0xBF then 4
      else if byte_in s 0 0xF1 0xF3 \<and> byte_in s 1 0x80 0xBF \<and> byte_in s 2 0x80 0xBF
              \<and> byte_in s 3 0x80 0xBF then 4
      else if byte_in s 0 0xF4 0xF4 \<and> byte_in s 1 0x80 0x8F \<and> byte_in s 2 0x80 0xBF
              \<and> byte_in s 3 0x80 0xBF then 4
      else 0)"

definition encode_rune :: "nat \<Rightarrow> string" where
  "encode_rune n =
     (if n < 0x80 then [char_of n]
      else if n < 0x800 then [char_of (0xC0 + n div 64), char_of (0x80 + n mod 64)]
      else if n < 0x10000 then
        [char_of (0xE0 + n div 4096), char_of (0x80 + n div 64 mod 64), char_of (0x80 + n mod 64)]
      else [char_of (0xF0 + n div 262144), char_of (0x80 + n div 4096 mod 64),
            char_of (0x80 + n div 64 mod 64), char_of (0x80 + n mod 64)])"

definition replacement :: string where
  "replacement = [CHR 0xEF, CHR 0xBF, CHR 0xBD]"

subsection \<open>Decoding a string literal\<close>

text \<open>The value of four hexadecimal digits at the head.\<close>

definition hex4 :: "string \<Rightarrow> nat option" where
  "hex4 s =
     (if length s < 4 then None
      else Option.bind (hex_value (s ! 0)) (\<lambda>a. Option.bind (hex_value (s ! 1)) (\<lambda>b.
           Option.bind (hex_value (s ! 2)) (\<lambda>c. Option.bind (hex_value (s ! 3)) (\<lambda>d.
             Some (a * 4096 + b * 256 + c * 16 + d))))))"

definition unescape :: "char \<Rightarrow> char" where
  "unescape c =
     (if c = CHR ''b'' then CHR 0x08 else if c = CHR ''f'' then CHR 0x0C
      else if c = CHR ''n'' then CHR 0x0A else if c = CHR ''r'' then CHR 0x0D
      else if c = CHR ''t'' then CHR 0x09 else c)"

text \<open>
  The bytes an escape sequence stands for (its backslash has been read) and how many bytes of the
  text it takes.
\<close>

definition escape_value :: "string \<Rightarrow> string \<times> nat" where
  "escape_value s =
     (case s of
        [] \<Rightarrow> ([], 0)
      | e # es \<Rightarrow>
          if e \<noteq> CHR ''u'' then ([unescape e], 1)
          else case hex4 es of
            None \<Rightarrow> (replacement, 1)
          | Some u \<Rightarrow>
              if u < 0xD800 \<or> 0xDFFF < u then (encode_rune u, 5)
              else case (if HasPrefix (drop 4 es) [CHR 0x5C, CHR ''u''] then hex4 (drop 6 es)
                         else None) of
                Some l \<Rightarrow>
                  if u < 0xDC00 \<and> 0xDC00 \<le> l \<and> l \<le> 0xDFFF
                  then (encode_rune (0x10000 + (u - 0xD800) * 0x400 + (l - 0xDC00)), 11)
                  else (replacement, 5)
              | None \<Rightarrow> (replacement, 5))"

function unquote :: "string \<Rightarrow> string" where
  "unquote [] = []"
| "unquote (c # cs) =
     (if c = CHR 0x5C then fst (escape_value cs) @ unquote (drop (snd (escape_value cs)) cs)
      else if utf8_len (c # cs) = 0 then replacement @ unquote cs
      else take (utf8_len (c # cs)) (c # cs) @ unquote (drop (utf8_len (c # cs)) (c # cs)))"
  by pat_completeness auto
termination
  by (relation "measure length") (auto simp: less_Suc_eq_le)

subsection \<open>Members of an object\<close>

definition raw :: "string \<Rightarrow> string \<Rightarrow> string" where
  "raw s r = take (length s - length r) s"

text \<open>The members from a key on, up to the closing brace (fuel as for the scanner).\<close>

fun members_from :: "nat \<Rightarrow> string \<Rightarrow> (string \<times> string) list option" where
  "members_from 0 s = None"
| "members_from (Suc n) s =
     Option.bind (expect (CHR 0x22) s) (\<lambda>s1.
     Option.bind (scan_str s1) (\<lambda>s2.
     Option.bind (expect (CHR '':'') (skip_ws s2)) (\<lambda>s3.
     Option.bind (value_end (skip_ws s3)) (\<lambda>s4.
       (let m = (unquote (butlast (raw s1 s2)), raw (skip_ws s3) s4) in
        case expect (CHR ''}'') (skip_ws s4) of
          Some r \<Rightarrow> Some [m]
        | None \<Rightarrow> Option.bind (expect (CHR '','') (skip_ws s4)) (\<lambda>s5.
            map_option ((#) m) (members_from n (skip_ws s5))))))))"

datatype document = Object "(string \<times> string) list" | Null | Other

text \<open>
  What \<^verbatim>\<open>json.Unmarshal\<close> sees at the top: \<open>None\<close> for a syntax error, which it reports before it
  decodes anything.
\<close>

definition parse_document :: "bytes \<Rightarrow> document option" where
  "parse_document s =
     (if \<not> Valid s then None
      else case skip_ws s of
        [] \<Rightarrow> None
      | c # cs \<Rightarrow>
          if c = CHR ''n'' then Some Null
          else if c \<noteq> CHR ''{'' then Some Other
          else case expect (CHR ''}'') (skip_ws cs) of
            Some r \<Rightarrow> Some (Object [])
          | None \<Rightarrow> map_option Object (members_from (length s) (skip_ws cs)))"

text \<open>
  Member names are compared after folding: ASCII letters to upper case, and the two code points
  outside ASCII that fold to an ASCII letter (U+017F to S, U+212A to K).
\<close>

function fold_name :: "string \<Rightarrow> string" where
  "fold_name [] = []"
| "fold_name (c # cs) =
     (if HasPrefix (c # cs) [CHR 0xC5, CHR 0xBF] then CHR ''S'' # fold_name (drop 1 cs)
      else if HasPrefix (c # cs) [CHR 0xE2, CHR 0x84, CHR 0xAA] then CHR ''K'' # fold_name (drop 2 cs)
      else (if 97 \<le> byte_val c \<and> byte_val c \<le> 122 then char_of (byte_val c - 32) else c)
           # fold_name cs)"
  by pat_completeness auto
termination
  by (relation "measure length") auto

text \<open>
  The raw values of the members a struct decodes into one field, in order. Go looks a member name
  up exactly and then folded; the names of one struct here have distinct foldings, so folding both
  sides finds the same field.
\<close>

definition field_values :: "string \<Rightarrow> (string \<times> string) list \<Rightarrow> string list" where
  "field_values f ms = map snd (filter (\<lambda>m. fold_name (fst m) = fold_name f) ms)"

subsection \<open>Decoding a field\<close>

text \<open>
  Each member of the field is decoded in turn into the field's current value. \<open>None\<close>: the type
  does not fit, which makes \<^verbatim>\<open>json.Unmarshal\<close> return an error.
\<close>

definition is_null :: "string \<Rightarrow> bool" where
  "is_null v \<longleftrightarrow> v = ''null''"

definition decode_string :: "string \<Rightarrow> string \<Rightarrow> string option" where
  "decode_string old v =
     (if is_null v then Some old
      else if v \<noteq> [] \<and> hd v = CHR 0x22 then Some (unquote (butlast (tl v))) else None)"

definition decode_int :: "int \<Rightarrow> string \<Rightarrow> int option" where
  "decode_int old v =
     (if is_null v then Some old
      else if v \<noteq> [] \<and> (hd v = CHR ''-'' \<or> is_digit (hd v)) then ParseInt v else None)"

definition decode_time :: "gotime \<Rightarrow> string \<Rightarrow> gotime option" where
  "decode_time old v =
     (if is_null v then Some old
      else if length v \<ge> 2 \<and> hd v = CHR 0x22 then parse_rfc3339 (butlast (tl v)) else None)"

definition decode_raw :: "string \<Rightarrow> string \<Rightarrow> string option" where
  "decode_raw old v = Some v"

fun decode_all :: "('a \<Rightarrow> string \<Rightarrow> 'a option) \<Rightarrow> 'a \<Rightarrow> string list \<Rightarrow> 'a option" where
  "decode_all d a [] = Some a"
| "decode_all d a (v # vs) = Option.bind (d a v) (\<lambda>b. decode_all d b vs)"

definition field :: "('a \<Rightarrow> string \<Rightarrow> 'a option) \<Rightarrow> 'a \<Rightarrow> string \<Rightarrow> (string \<times> string) list \<Rightarrow> 'a option"
  where "field d zero f ms = decode_all d zero (field_values f ms)"

text \<open>
  \<^verbatim>\<open>json.Unmarshal\<close> into a struct: nothing is stored for \<^verbatim>\<open>null\<close>, any other non-object does not fit.
\<close>

definition unmarshal :: "((string \<times> string) list \<Rightarrow> 'a option) \<Rightarrow> 'a \<Rightarrow> bytes \<Rightarrow> 'a option" where
  "unmarshal dec zero s =
     (case parse_document s of
        None \<Rightarrow> None
      | Some Null \<Rightarrow> Some zero
      | Some Other \<Rightarrow> None
      | Some (Object ms) \<Rightarrow> dec ms)"

subsection \<open>Encoding\<close>

definition u00 :: "nat \<Rightarrow> string" where
  "u00 n = [CHR 0x5C, CHR ''u'', CHR ''0'', CHR ''0'', hexdigit (n div 16), hexdigit (n mod 16)]"

definition quote_ascii :: "char \<Rightarrow> string" where
  "quote_ascii c =
     (let n = byte_val c in
      if c = CHR 0x22 \<or> c = CHR 0x5C then [CHR 0x5C, c]
      else if n = 8 then [CHR 0x5C, CHR ''b''] else if n = 12 then [CHR 0x5C, CHR ''f'']
      else if n = 10 then [CHR 0x5C, CHR ''n''] else if n = 13 then [CHR 0x5C, CHR ''r'']
      else if n = 9 then [CHR 0x5C, CHR ''t'']
      else if n < 32 \<or> c = CHR ''<'' \<or> c = CHR ''>'' \<or> c = CHR ''&'' then u00 n
      else [c])"

definition line_separator :: "string \<Rightarrow> bool" where
  "line_separator s \<longleftrightarrow> HasPrefix s [CHR 0xE2, CHR 0x80, CHR 0xA8] \<or>
                        HasPrefix s [CHR 0xE2, CHR 0x80, CHR 0xA9]"

text \<open>U+2028 and U+2029 are written as escapes; the last byte holds the last digit.\<close>

definition quote_separator :: "string \<Rightarrow> string" where
  "quote_separator s = [CHR 0x5C, CHR ''u'', CHR ''2'', CHR ''0'', CHR ''2'',
                        hexdigit (byte_val (s ! 2) mod 16)]"

function quote_body :: "string \<Rightarrow> string" where
  "quote_body [] = []"
| "quote_body (c # cs) =
     (if byte_val c < 128 then quote_ascii c @ quote_body cs
      else if utf8_len (c # cs) = 0 then
        [CHR 0x5C, CHR ''u'', CHR ''f'', CHR ''f'', CHR ''f'', CHR ''d''] @ quote_body cs
      else if line_separator (c # cs) then quote_separator (c # cs) @ quote_body (drop 2 cs)
      else take (utf8_len (c # cs)) (c # cs) @ quote_body (drop (utf8_len (c # cs)) (c # cs)))"
  by pat_completeness auto
termination
  by (relation "measure length") auto

definition quote :: "string \<Rightarrow> string" where
  "quote s = CHR 0x22 # quote_body s @ [CHR 0x22]"

text \<open>
  The text \<^verbatim>\<open>json.Marshal\<close> writes for a raw message: white space outside strings is dropped, and
  inside strings the HTML characters and the two separators are escaped.
\<close>

function compact :: "bool \<Rightarrow> string \<Rightarrow> string" where
  "compact q [] = []"
| "compact q (c # cs) =
     (if \<not> q then
        (if is_ws c then compact False cs else c # compact (c = CHR 0x22) cs)
      else if c = CHR 0x5C then c # take 1 cs @ compact True (drop 1 cs)
      else if c = CHR 0x22 then c # compact False cs
      else if c = CHR ''<'' \<or> c = CHR ''>'' \<or> c = CHR ''&'' then u00 (byte_val c) @ compact True cs
      else if line_separator (c # cs) then quote_separator (c # cs) @ compact True (drop 2 cs)
      else c # compact True cs)"
  by pat_completeness auto
termination
  by (relation "measure (\<lambda>(q, s). length s)") auto

definition marshal_raw :: "string \<Rightarrow> string option" where
  "marshal_raw s =
     (if s = [] then Some ''null'' else if Valid s then Some (compact False s) else None)"

definition marshal_time :: "gotime \<Rightarrow> string option" where
  "marshal_time t =
     (if t_year t \<le> 9999 \<and> \<bar>t_offset t\<bar> < 1440
      then Some (CHR 0x22 # format_rfc3339 t @ [CHR 0x22]) else None)"

definition member :: "string \<Rightarrow> string \<Rightarrow> string" where
  "member k v = quote k @ CHR '':'' # v"

definition object :: "string list \<Rightarrow> string" where
  "object ms = CHR ''{'' # Join (CHR '','') ms @ ''}''"

end
