(* ===== verification/Contracts.thy ===== *)
theory Contracts
  imports Go_Codec
begin

text \<open>
  The shared contracts of the services: \<^verbatim>\<open>proper-scale/contracts/messages/contract.go\<close> (the frames of
  the WebSocket protocol and the event that travels from the store through Kafka and Redis to the
  clients, with their validators and JSON texts) and \<^verbatim>\<open>contracts/common/env.go\<close>.
  A validator returns \<^const>\<open>None\<close> where the Go method returns nil.
\<close>

subsection \<open>Constants and errors\<close>

definition Version :: int where "Version = 1"

definition SendFrameType :: string where "SendFrameType = ''send''"
definition AcceptedFrameType :: string where "AcceptedFrameType = ''accepted''"
definition RejectedFrameType :: string where "RejectedFrameType = ''rejected''"

definition InvalidRequestErrorCode :: string where "InvalidRequestErrorCode = ''invalid_request''"
definition NotAcceptedErrorCode :: string where "NotAcceptedErrorCode = ''not_accepted''"

datatype contract_error =
    TypeMustBeSend | TypeMustBeAccepted | TypeMustBeRejected | VersionMustBe1
  | MessageIDRequired | ClientMessageIDRequired | RoomIDRequired | RoomSeqMustBePositive
  | CreatedAtRequired | PayloadMustBeValidJSON | ErrorCodeRequired

definition blank :: "string \<Rightarrow> bool" where
  "blank s \<longleftrightarrow> TrimSpace s = []"

subsection \<open>Frames\<close>

record SendRequest =
  req_Type :: string
  req_Version :: int
  req_ClientMessageID :: string
  req_RoomID :: string
  req_Payload :: bytes

definition SendRequest_Validate :: "SendRequest \<Rightarrow> contract_error option" where
  "SendRequest_Validate r =
     (if req_Type r \<noteq> SendFrameType then Some TypeMustBeSend
      else if req_Version r \<noteq> Version then Some VersionMustBe1
      else if blank (req_ClientMessageID r) then Some ClientMessageIDRequired
      else if blank (req_RoomID r) then Some RoomIDRequired
      else if \<not> Valid (req_Payload r) then Some PayloadMustBeValidJSON
      else None)"

record Event =
  ev_Version :: int
  ev_MessageID :: string
  ev_ClientMessageID :: string
  ev_RoomID :: string
  ev_RoomSeq :: int
  ev_CreatedAt :: gotime
  ev_Payload :: bytes

definition Event_Validate :: "Event \<Rightarrow> contract_error option" where
  "Event_Validate e =
     (if ev_Version e \<noteq> Version then Some VersionMustBe1
      else if blank (ev_MessageID e) then Some MessageIDRequired
      else if blank (ev_ClientMessageID e) then Some ClientMessageIDRequired
      else if blank (ev_RoomID e) then Some RoomIDRequired
      else if ev_RoomSeq e < 1 then Some RoomSeqMustBePositive
      else if IsZero (ev_CreatedAt e) then Some CreatedAtRequired
      else if \<not> Valid (ev_Payload e) then Some PayloadMustBeValidJSON
      else None)"

record AcceptedAck =
  ack_Type :: string
  ack_Version :: int
  ack_MessageID :: string
  ack_ClientMessageID :: string
  ack_RoomID :: string
  ack_RoomSeq :: int
  ack_CreatedAt :: gotime

record RejectedAck =
  rej_Type :: string
  rej_Version :: int
  rej_ClientMessageID :: string
  rej_ErrorCode :: string

definition RejectedAck_Validate :: "RejectedAck \<Rightarrow> contract_error option" where
  "RejectedAck_Validate a =
     (if rej_Type a \<noteq> RejectedFrameType then Some TypeMustBeRejected
      else if rej_Version a \<noteq> Version then Some VersionMustBe1
      else if blank (rej_ErrorCode a) then Some ErrorCodeRequired
      else None)"

definition AcceptedAck_Validate :: "AcceptedAck \<Rightarrow> contract_error option" where
  "AcceptedAck_Validate a =
     (if ack_Type a \<noteq> AcceptedFrameType then Some TypeMustBeAccepted
      else if ack_Version a \<noteq> Version then Some VersionMustBe1
      else if blank (ack_MessageID a) then Some MessageIDRequired
      else if blank (ack_ClientMessageID a) then Some ClientMessageIDRequired
      else if blank (ack_RoomID a) then Some RoomIDRequired
      else if ack_RoomSeq a < 1 then Some RoomSeqMustBePositive
      else if IsZero (ack_CreatedAt a) then Some CreatedAtRequired
      else None)"

declare SendRequest_Validate_def [validate_simps] Event_Validate_def [validate_simps]
  RejectedAck_Validate_def [validate_simps] AcceptedAck_Validate_def [validate_simps]

subsection \<open>JSON texts\<close>

definition decode_SendRequest :: "(string \<times> string) list \<Rightarrow> SendRequest option" where
  "decode_SendRequest ms =
     Option.bind (field decode_string [] ''type'' ms) (\<lambda>ty.
     Option.bind (field decode_int 0 ''version'' ms) (\<lambda>v.
     Option.bind (field decode_string [] ''client_message_id'' ms) (\<lambda>cm.
     Option.bind (field decode_string [] ''room_id'' ms) (\<lambda>r.
     Option.bind (field decode_raw [] ''payload'' ms) (\<lambda>p.
       Some \<lparr>req_Type = ty, req_Version = v, req_ClientMessageID = cm, req_RoomID = r,
             req_Payload = p\<rparr>)))))"

definition unmarshal_SendRequest :: "bytes \<Rightarrow> SendRequest option" where
  "unmarshal_SendRequest =
     unmarshal decode_SendRequest
       \<lparr>req_Type = [], req_Version = 0, req_ClientMessageID = [], req_RoomID = [], req_Payload = []\<rparr>"

definition zero_Event :: Event where
  "zero_Event = \<lparr>ev_Version = 0, ev_MessageID = [], ev_ClientMessageID = [], ev_RoomID = [],
                 ev_RoomSeq = 0, ev_CreatedAt = zero_time, ev_Payload = []\<rparr>"

definition decode_Event :: "(string \<times> string) list \<Rightarrow> Event option" where
  "decode_Event ms =
     Option.bind (field decode_int 0 ''version'' ms) (\<lambda>v.
     Option.bind (field decode_string [] ''message_id'' ms) (\<lambda>m.
     Option.bind (field decode_string [] ''client_message_id'' ms) (\<lambda>cm.
     Option.bind (field decode_string [] ''room_id'' ms) (\<lambda>r.
     Option.bind (field decode_int 0 ''room_seq'' ms) (\<lambda>s.
     Option.bind (field decode_time zero_time ''created_at'' ms) (\<lambda>t.
     Option.bind (field decode_raw [] ''payload'' ms) (\<lambda>p.
       Some \<lparr>ev_Version = v, ev_MessageID = m, ev_ClientMessageID = cm, ev_RoomID = r,
             ev_RoomSeq = s, ev_CreatedAt = t, ev_Payload = p\<rparr>)))))))"

definition unmarshal_Event :: "bytes \<Rightarrow> Event option" where
  "unmarshal_Event = unmarshal decode_Event zero_Event"

definition marshal_Event :: "Event \<Rightarrow> bytes option" where
  "marshal_Event e =
     Option.bind (marshal_time (ev_CreatedAt e)) (\<lambda>t.
     Option.bind (marshal_raw (ev_Payload e)) (\<lambda>p.
       Some (object [member ''version'' (show_int (ev_Version e)),
                     member ''message_id'' (quote (ev_MessageID e)),
                     member ''client_message_id'' (quote (ev_ClientMessageID e)),
                     member ''room_id'' (quote (ev_RoomID e)),
                     member ''room_seq'' (show_int (ev_RoomSeq e)),
                     member ''created_at'' t,
                     member ''payload'' p])))"

definition decode_AcceptedAck :: "(string \<times> string) list \<Rightarrow> AcceptedAck option" where
  "decode_AcceptedAck ms =
     Option.bind (field decode_string [] ''type'' ms) (\<lambda>ty.
     Option.bind (field decode_int 0 ''version'' ms) (\<lambda>v.
     Option.bind (field decode_string [] ''message_id'' ms) (\<lambda>m.
     Option.bind (field decode_string [] ''client_message_id'' ms) (\<lambda>cm.
     Option.bind (field decode_string [] ''room_id'' ms) (\<lambda>r.
     Option.bind (field decode_int 0 ''room_seq'' ms) (\<lambda>s.
     Option.bind (field decode_time zero_time ''created_at'' ms) (\<lambda>t.
       Some \<lparr>ack_Type = ty, ack_Version = v, ack_MessageID = m, ack_ClientMessageID = cm,
             ack_RoomID = r, ack_RoomSeq = s, ack_CreatedAt = t\<rparr>)))))))"

definition marshal_AcceptedAck :: "AcceptedAck \<Rightarrow> bytes option" where
  "marshal_AcceptedAck a =
     Option.bind (marshal_time (ack_CreatedAt a)) (\<lambda>t.
       Some (object [member ''type'' (quote (ack_Type a)),
                     member ''version'' (show_int (ack_Version a)),
                     member ''message_id'' (quote (ack_MessageID a)),
                     member ''client_message_id'' (quote (ack_ClientMessageID a)),
                     member ''room_id'' (quote (ack_RoomID a)),
                     member ''room_seq'' (show_int (ack_RoomSeq a)),
                     member ''created_at'' t]))"

definition decode_RejectedAck :: "(string \<times> string) list \<Rightarrow> RejectedAck option" where
  "decode_RejectedAck ms =
     Option.bind (field decode_string [] ''type'' ms) (\<lambda>ty.
     Option.bind (field decode_int 0 ''version'' ms) (\<lambda>v.
     Option.bind (field decode_string [] ''client_message_id'' ms) (\<lambda>cm.
     Option.bind (field decode_string [] ''error_code'' ms) (\<lambda>ec.
       Some \<lparr>rej_Type = ty, rej_Version = v, rej_ClientMessageID = cm, rej_ErrorCode = ec\<rparr>))))"

text \<open>\<^verbatim>\<open>omitempty\<close>: the client's key is left out where it is empty.\<close>

definition marshal_RejectedAck :: "RejectedAck \<Rightarrow> bytes option" where
  "marshal_RejectedAck a =
     Some (object
       ([member ''type'' (quote (rej_Type a)), member ''version'' (show_int (rej_Version a))]
        @ (if rej_ClientMessageID a = [] then []
           else [member ''client_message_id'' (quote (rej_ClientMessageID a))])
        @ [member ''error_code'' (quote (rej_ErrorCode a))]))"

text \<open>Each field of an event is decoded from the member of its name.\<close>

lemma Event_field_values:
  "field_values ''version'' [(''version'', a), (''message_id'', b), (''client_message_id'', c),
     (''room_id'', d), (''room_seq'', e), (''created_at'', f), (''payload'', g)] = [a]"
  "field_values ''message_id'' [(''version'', a), (''message_id'', b), (''client_message_id'', c),
     (''room_id'', d), (''room_seq'', e), (''created_at'', f), (''payload'', g)] = [b]"
  "field_values ''client_message_id'' [(''version'', a), (''message_id'', b), (''client_message_id'', c),
     (''room_id'', d), (''room_seq'', e), (''created_at'', f), (''payload'', g)] = [c]"
  "field_values ''room_id'' [(''version'', a), (''message_id'', b), (''client_message_id'', c),
     (''room_id'', d), (''room_seq'', e), (''created_at'', f), (''payload'', g)] = [d]"
  "field_values ''room_seq'' [(''version'', a), (''message_id'', b), (''client_message_id'', c),
     (''room_id'', d), (''room_seq'', e), (''created_at'', f), (''payload'', g)] = [e]"
  "field_values ''created_at'' [(''version'', a), (''message_id'', b), (''client_message_id'', c),
     (''room_id'', d), (''room_seq'', e), (''created_at'', f), (''payload'', g)] = [f]"
  "field_values ''payload'' [(''version'', a), (''message_id'', b), (''client_message_id'', c),
     (''room_id'', d), (''room_seq'', e), (''created_at'', f), (''payload'', g)] = [g]"
  by code_simp+

subsection \<open>Environment variables\<close>

type_synonym env_vars = "string \<Rightarrow> string option"

text \<open>\<^verbatim>\<open>os.Getenv\<close> gives the empty string for an unset variable.\<close>

definition Getenv :: "env_vars \<Rightarrow> string \<Rightarrow> string" where
  "Getenv env key = (case env key of None \<Rightarrow> [] | Some v \<Rightarrow> v)"

definition common_GetEnv :: "env_vars \<Rightarrow> string \<Rightarrow> string \<Rightarrow> string" where
  "common_GetEnv env key def = (if Getenv env key \<noteq> [] then Getenv env key else def)"

definition SplitEnv :: "env_vars \<Rightarrow> string \<Rightarrow> string \<Rightarrow> string list" where
  "SplitEnv env key def = Split (CHR '','') (common_GetEnv env key def)"

subsection \<open>Facts\<close>

text \<open>Every valid event gives a valid accepted acknowledgement.\<close>

definition ack_of :: "Event \<Rightarrow> AcceptedAck" where
  "ack_of e = \<lparr>ack_Type = AcceptedFrameType, ack_Version = Version, ack_MessageID = ev_MessageID e,
               ack_ClientMessageID = ev_ClientMessageID e, ack_RoomID = ev_RoomID e,
               ack_RoomSeq = ev_RoomSeq e, ack_CreatedAt = ev_CreatedAt e\<rparr>"

lemma Event_valid_iff:
  "Event_Validate e = None \<longleftrightarrow>
     ev_Version e = Version \<and> \<not> blank (ev_MessageID e) \<and> \<not> blank (ev_ClientMessageID e) \<and>
     \<not> blank (ev_RoomID e) \<and> 1 \<le> ev_RoomSeq e \<and> \<not> IsZero (ev_CreatedAt e) \<and> Valid (ev_Payload e)"
  by (auto simp: Event_Validate_def)

lemma SendRequest_valid_iff:
  "SendRequest_Validate r = None \<longleftrightarrow>
     req_Type r = SendFrameType \<and> req_Version r = Version \<and> \<not> blank (req_ClientMessageID r) \<and>
     \<not> blank (req_RoomID r) \<and> Valid (req_Payload r)"
  by (auto simp: SendRequest_Validate_def)

lemma ack_of_valid: "Event_Validate e = None \<Longrightarrow> AcceptedAck_Validate (ack_of e) = None"
  by (auto simp: validate_simps ack_of_def split: if_splits)

end
