(* ===== verification/Message_Store.thy ===== *)
theory Message_Store
  imports Contracts
begin

text \<open>
  The message store of the message service: \<^verbatim>\<open>message_service/infra/postgres/store.go\<close> over the
  tables of \<^verbatim>\<open>migrations/000001_create_message_storage.up.sql\<close>, and the ingest handler
  \<^verbatim>\<open>service/ingest.go\<close> in front of it.

  \<^item> A table is the list of its rows in insertion order; the SQL statements of the source are
    functions on the tables with the constraints of the migration as their error branches.
  \<^item> A transaction works on a copy of the database that the commit publishes.
  \<^item> Every call to the database may fail (\<open>outcome_of\<close>); a commit may also fail after the server
    has performed it (\<open>BrokenAfter\<close>). The random bytes, the clock, the text PostgreSQL gives back for
    a \<^verbatim>\<open>jsonb\<close> value and for a \<^verbatim>\<open>timestamptz\<close> are parameters of the environment.
\<close>

unbundle bit_operations_syntax

type_synonym uuid = "8 word list"

subsection \<open>Message identifiers\<close>

definition uuid_text :: "uuid \<Rightarrow> string" where
  "uuid_text bs =
     hex_encode (take 4 bs) @ CHR ''-'' # hex_encode (take 2 (drop 4 bs)) @ CHR ''-''
       # hex_encode (take 2 (drop 6 bs)) @ CHR ''-'' # hex_encode (take 2 (drop 8 bs)) @ CHR ''-''
       # hex_encode (take 6 (drop 10 bs))"

definition newMessageID :: "uuid option \<Rightarrow> string option" where
  "newMessageID rnd =
     (case rnd of
        None \<Rightarrow> None
      | Some v \<Rightarrow>
          (let v6 = v[6 := (v ! 6 AND 0x0f) OR 0x40]; v8 = v6[8 := (v6 ! 8 AND 0x3f) OR 0x80]
           in Some (uuid_text v8)))"

definition parseMessageID :: "string \<Rightarrow> uuid option" where
  "parseMessageID v =
     (case hex_decode (filter (\<lambda>c. c \<noteq> CHR ''-'') v) of
        None \<Rightarrow> None
      | Some bs \<Rightarrow> if length bs \<noteq> 16 then None else Some bs)"

subsection \<open>Tables\<close>

record message_row =
  m_message_id :: uuid
  m_client_id :: string
  m_client_message_id :: string
  m_room_id :: string
  m_room_seq :: int
  m_created_at :: gotime
  m_payload :: bytes

record outbox_row =
  o_message_id :: uuid
  o_room_id :: string
  o_room_seq :: int
  o_event :: bytes
  o_created_at :: gotime
  o_published_at :: "gotime option"

record msgdb =
  room_counters :: "string \<Rightarrow> int option"
  messages :: "message_row list"
  message_outbox :: "outbox_row list"

definition empty_db :: msgdb where
  "empty_db = \<lparr>room_counters = (\<lambda>_. None), messages = [], message_outbox = []\<rparr>"

datatype pg_error =
    ConnLost | UniqueViolation string | CheckViolation string | ForeignKeyViolation string
  | BigintOutOfRange | InvalidJson

definition isClientIdempotencyConflict :: "pg_error \<Rightarrow> bool" where
  "isClientIdempotencyConflict err \<longleftrightarrow> err = UniqueViolation ''messages_client_idempotency_unique''"

subsection \<open>Calls of \<open>Accept\<close> and their outcomes\<close>

datatype call =
    FindPool | Begin | FindTx | CommitRead | AllocSeq | InsertMsg | FindAfterConflict
  | InsertOutbox | CommitTx

datatype outcome = Done | Broken | BrokenAfter

record accept_env =
  outcome_of :: "call \<Rightarrow> outcome"
  rand16 :: "uuid option"
  now_utc :: gotime
  jsonb_in :: "string \<Rightarrow> string option"
  tstz :: "gotime \<Rightarrow> gotime"

datatype store_error =
    StoreClientIDRequired | StoreInvalidRequest contract_error | FindAcceptedFailed | BeginFailed
  | CommitReadFailed | FindInTxFailed | AllocateSeqFailed pg_error | GenerateIDFailed
  | ParseIDFailed | InvalidEvent contract_error | InsertHistoryFailed pg_error | MarshalFailed
  | InsertOutboxFailed pg_error | CommitFailed

subsection \<open>SQL statements\<close>

datatype found = Found Event | NoRows | FindError

definition event_of_row :: "message_row \<Rightarrow> Event" where
  "event_of_row m =
     \<lparr>ev_Version = Version, ev_MessageID = uuid_text (m_message_id m),
      ev_ClientMessageID = m_client_message_id m, ev_RoomID = m_room_id m,
      ev_RoomSeq = m_room_seq m, ev_CreatedAt = m_created_at m, ev_Payload = m_payload m\<rparr>"

definition same_key :: "string \<Rightarrow> string \<Rightarrow> message_row \<Rightarrow> bool" where
  "same_key cl cm m \<longleftrightarrow> m_client_id m = cl \<and> m_client_message_id m = cm"

definition findEvent :: "outcome \<Rightarrow> msgdb \<Rightarrow> string \<Rightarrow> string \<Rightarrow> found" where
  "findEvent oc db clientID clientMessageID =
     (if oc \<noteq> Done then FindError
      else case find (same_key clientID clientMessageID) (messages db) of
        None \<Rightarrow> NoRows
      | Some m \<Rightarrow> Found (event_of_row m))"

text \<open>\<^verbatim>\<open>length(btrim(s)) > 0\<close>: \<^verbatim>\<open>btrim\<close> removes spaces only.\<close>

definition btrim_nonempty :: "string \<Rightarrow> bool" where
  "btrim_nonempty s \<longleftrightarrow> (\<exists>c \<in> set s. c \<noteq> CHR 0x20)"

definition last_seq :: "msgdb \<Rightarrow> string \<Rightarrow> int" where
  "last_seq db r = (case room_counters db r of None \<Rightarrow> 0 | Some n \<Rightarrow> n)"

definition allocate_seq :: "msgdb \<Rightarrow> string \<Rightarrow> pg_error + int \<times> msgdb" where
  "allocate_seq db r =
     (let n = last_seq db r + 1 in
      if \<not> btrim_nonempty r then Inl (CheckViolation ''room_counters_room_id_check'')
      else if n > int64_max then Inl BigintOutOfRange
      else Inr (n, db\<lparr>room_counters := (room_counters db)(r := Some n)\<rparr>))"

definition insert_message :: "msgdb \<Rightarrow> message_row \<Rightarrow> pg_error + msgdb" where
  "insert_message db m =
     (if \<not> btrim_nonempty (m_client_id m) then Inl (CheckViolation ''messages_client_id_check'')
      else if \<not> btrim_nonempty (m_client_message_id m)
        then Inl (CheckViolation ''messages_client_message_id_check'')
      else if m_room_seq m \<le> 0 then Inl (CheckViolation ''messages_room_seq_check'')
      else if m_message_id m \<in> m_message_id ` set (messages db)
        then Inl (UniqueViolation ''messages_pkey'')
      else if (\<exists>x \<in> set (messages db). m_room_id x = m_room_id m \<and> m_room_seq x = m_room_seq m)
        then Inl (UniqueViolation ''messages_room_sequence_unique'')
      else if (\<exists>x \<in> set (messages db). same_key (m_client_id m) (m_client_message_id m) x)
        then Inl (UniqueViolation ''messages_client_idempotency_unique'')
      else if room_counters db (m_room_id m) = None
        then Inl (ForeignKeyViolation ''messages_room_id_fkey'')
      else Inr (db\<lparr>messages := messages db @ [m]\<rparr>))"

text \<open>\<^verbatim>\<open>jsonb_typeof(event) = 'object' AND COALESCE(event->>'version', '') = '1'\<close>\<close>

definition event_check :: "bytes \<Rightarrow> bool" where
  "event_check t =
     (case parse_document t of
        Some (Object ms) \<Rightarrow>
          (case map_of (rev ms) ''version'' of
             None \<Rightarrow> False
           | Some v \<Rightarrow> v = ''1'' \<or> v = [CHR 0x22, CHR ''1'', CHR 0x22])
      | _ \<Rightarrow> False)"

definition insert_outbox :: "msgdb \<Rightarrow> outbox_row \<Rightarrow> pg_error + msgdb" where
  "insert_outbox db r =
     (if \<not> event_check (o_event r) then Inl (CheckViolation ''message_outbox_event_check'')
      else if o_message_id r \<in> o_message_id ` set (message_outbox db)
        then Inl (UniqueViolation ''message_outbox_pkey'')
      else if (\<exists>x \<in> set (message_outbox db). o_room_id x = o_room_id r \<and> o_room_seq x = o_room_seq r)
        then Inl (UniqueViolation ''message_outbox_room_sequence_unique'')
      else if o_message_id r \<notin> m_message_id ` set (messages db)
        then Inl (ForeignKeyViolation ''message_outbox_message_id_fkey'')
      else if \<not> (\<exists>x \<in> set (messages db). m_room_id x = o_room_id r \<and> m_room_seq x = o_room_seq r)
        then Inl (ForeignKeyViolation ''message_outbox_message_sequence_fk'')
      else Inr (db\<lparr>message_outbox := message_outbox db @ [r]\<rparr>))"

declare findEvent_def [sql_simps] allocate_seq_def [sql_simps] insert_message_def [sql_simps]
  insert_outbox_def [sql_simps]

text \<open>A statement that may break, and one whose jsonb argument may be refused.\<close>

definition run_sql :: "outcome \<Rightarrow> pg_error + 'a \<Rightarrow> pg_error + 'a" where
  "run_sql oc r = (if oc \<noteq> Done then Inl ConnLost else r)"

subsection \<open>\<open>Accept\<close>\<close>

text \<open>
  The rest of the transaction once the room's sequence number is allocated: \<open>db\<close> is the committed
  database, \<open>tx\<close> the transaction's copy.
\<close>

definition accept_insert ::
  "accept_env \<Rightarrow> msgdb \<Rightarrow> msgdb \<Rightarrow> string \<Rightarrow> SendRequest \<Rightarrow> int \<Rightarrow> (store_error + Event) \<times> msgdb" where
  "accept_insert env db tx clientID request roomSeq =
     (case newMessageID (rand16 env) of
        None \<Rightarrow> (Inl GenerateIDFailed, db)
      | Some messageID \<Rightarrow>
     (case parseMessageID messageID of
        None \<Rightarrow> (Inl ParseIDFailed, db)
      | Some databaseMessageID \<Rightarrow>
     (let event = \<lparr>ev_Version = Version, ev_MessageID = messageID,
                   ev_ClientMessageID = req_ClientMessageID request,
                   ev_RoomID = req_RoomID request, ev_RoomSeq = roomSeq,
                   ev_CreatedAt = now_utc env, ev_Payload = req_Payload request\<rparr> in
      case Event_Validate event of
        Some e \<Rightarrow> (Inl (InvalidEvent e), db)
      | None \<Rightarrow>
     (case run_sql (outcome_of env InsertMsg)
             (case jsonb_in env (ev_Payload event) of
                None \<Rightarrow> Inl InvalidJson
              | Some payload \<Rightarrow>
                  insert_message tx
                    \<lparr>m_message_id = databaseMessageID, m_client_id = clientID,
                     m_client_message_id = ev_ClientMessageID event, m_room_id = ev_RoomID event,
                     m_room_seq = ev_RoomSeq event, m_created_at = tstz env (ev_CreatedAt event),
                     m_payload = payload\<rparr>) of
        Inl err \<Rightarrow>
          (if isClientIdempotencyConflict err then
             (case findEvent (outcome_of env FindAfterConflict) db clientID
                     (req_ClientMessageID request) of
                Found accepted \<Rightarrow> (Inr accepted, db)
              | _ \<Rightarrow> (Inl (InsertHistoryFailed err), db))
           else (Inl (InsertHistoryFailed err), db))
      | Inr tx1 \<Rightarrow>
     (case marshal_Event event of
        None \<Rightarrow> (Inl MarshalFailed, db)
      | Some serialized \<Rightarrow>
     (case run_sql (outcome_of env InsertOutbox)
             (case jsonb_in env serialized of
                None \<Rightarrow> Inl InvalidJson
              | Some ev \<Rightarrow>
                  insert_outbox tx1
                    \<lparr>o_message_id = databaseMessageID, o_room_id = ev_RoomID event,
                     o_room_seq = ev_RoomSeq event, o_event = ev,
                     o_created_at = tstz env (ev_CreatedAt event), o_published_at = None\<rparr>) of
        Inl err \<Rightarrow> (Inl (InsertOutboxFailed err), db)
      | Inr tx2 \<Rightarrow>
     (case outcome_of env CommitTx of
        Done \<Rightarrow> (Inr event, tx2)
      | Broken \<Rightarrow> (Inl CommitFailed, db)
      | BrokenAfter \<Rightarrow> (Inl CommitFailed, tx2))))))))"

definition accept_tx ::
  "accept_env \<Rightarrow> msgdb \<Rightarrow> string \<Rightarrow> SendRequest \<Rightarrow> (store_error + Event) \<times> msgdb" where
  "accept_tx env db clientID request =
     (if outcome_of env Begin \<noteq> Done then (Inl BeginFailed, db)
      else case findEvent (outcome_of env FindTx) db clientID (req_ClientMessageID request) of
        Found event \<Rightarrow>
          (if outcome_of env CommitRead \<noteq> Done then (Inl CommitReadFailed, db) else (Inr event, db))
      | FindError \<Rightarrow> (Inl FindInTxFailed, db)
      | NoRows \<Rightarrow>
          (case run_sql (outcome_of env AllocSeq) (allocate_seq db (req_RoomID request)) of
             Inl err \<Rightarrow> (Inl (AllocateSeqFailed err), db)
           | Inr (roomSeq, tx) \<Rightarrow> accept_insert env db tx clientID request roomSeq))"

definition Accept ::
  "accept_env \<Rightarrow> msgdb \<Rightarrow> string \<Rightarrow> SendRequest \<Rightarrow> (store_error + Event) \<times> msgdb" where
  "Accept env db clientID request =
     (if blank clientID then (Inl StoreClientIDRequired, db)
      else case SendRequest_Validate request of
        Some e \<Rightarrow> (Inl (StoreInvalidRequest e), db)
      | None \<Rightarrow>
          (case findEvent (outcome_of env FindPool) db clientID (req_ClientMessageID request) of
             Found event \<Rightarrow> (Inr event, db)
           | FindError \<Rightarrow> (Inl FindAcceptedFailed, db)
           | NoRows \<Rightarrow> accept_tx env db clientID request))"

text \<open>\<^verbatim>\<open>service.ingestHandler.HandleIncoming\<close> repeats the two checks before it calls the store.\<close>

definition HandleIncoming ::
  "accept_env \<Rightarrow> msgdb \<Rightarrow> string \<Rightarrow> SendRequest \<Rightarrow> (store_error + Event) \<times> msgdb" where
  "HandleIncoming env db clientID request =
     (if blank clientID then (Inl StoreClientIDRequired, db)
      else case SendRequest_Validate request of
        Some e \<Rightarrow> (Inl (StoreInvalidRequest e), db)
      | None \<Rightarrow> Accept env db clientID request)"

subsection \<open>Identifiers round-trip\<close>

lemma filter_dash_hex [simp]: "filter (\<lambda>c. c \<noteq> CHR ''-'') (hex_encode bs) = hex_encode bs"
  using hex_encode_no_dash [of bs] by (simp add: filter_id_conv) metis

lemma filter_dash_uuid_text:
  assumes "length bs = 16"
  shows "filter (\<lambda>c. c \<noteq> CHR ''-'') (uuid_text bs) = hex_encode bs"
proof -
  have "bs = take 4 bs @ take 2 (drop 4 bs) @ take 2 (drop 6 bs) @ take 2 (drop 8 bs)
      @ take 6 (drop 10 bs)"
    using assms
    by (simp add: list_eq_iff_nth_eq nth_append)
  then have "hex_encode bs = hex_encode (take 4 bs) @ hex_encode (take 2 (drop 4 bs))
      @ hex_encode (take 2 (drop 6 bs)) @ hex_encode (take 2 (drop 8 bs))
      @ hex_encode (take 6 (drop 10 bs))"
    by (metis hex_encode_append)
  then show ?thesis by (simp add: uuid_text_def)
qed

lemma parse_uuid_text: "length bs = 16 \<Longrightarrow> parseMessageID (uuid_text bs) = Some bs"
  by (simp add: parseMessageID_def filter_dash_uuid_text hex_decode_encode)

lemma uuid_text_inj: "\<lbrakk>length a = 16; length b = 16; uuid_text a = uuid_text b\<rbrakk> \<Longrightarrow> a = b"
  by (metis option.inject parse_uuid_text)

lemma parseMessageID_length: "parseMessageID s = Some u \<Longrightarrow> length u = 16"
  by (auto simp: parseMessageID_def split: option.splits if_splits)

text \<open>\<^verbatim>\<open>[16]byte\<close>: the random source fills exactly 16 bytes.\<close>

definition wf_env :: "accept_env \<Rightarrow> bool" where
  "wf_env env \<longleftrightarrow> (\<forall>v. rand16 env = Some v \<longrightarrow> length v = 16)"

lemma newMessageID_parse:
  assumes "newMessageID rnd = Some s" and "\<And>v. rnd = Some v \<Longrightarrow> length v = 16"
  shows "\<exists>u. parseMessageID s = Some u \<and> uuid_text u = s \<and> length u = 16"
  using assms by (auto simp: newMessageID_def Let_def parse_uuid_text split: option.splits)

subsection \<open>What a call of \<open>Accept\<close> may do\<close>

text \<open>The database with one more message and its outbox row.\<close>

definition committed :: "msgdb \<Rightarrow> string \<Rightarrow> message_row \<Rightarrow> outbox_row \<Rightarrow> msgdb" where
  "committed db room m r =
     db\<lparr>room_counters := (room_counters db)(room := Some (last_seq db room + 1)),
        messages := messages db @ [m], message_outbox := message_outbox db @ [r]\<rparr>"

definition fresh_rows :: "msgdb \<Rightarrow> string \<Rightarrow> SendRequest \<Rightarrow> message_row \<Rightarrow> outbox_row \<Rightarrow> bool" where
  "fresh_rows db cl req m r \<longleftrightarrow>
     m_client_id m = cl \<and> m_client_message_id m = req_ClientMessageID req \<and>
     m_room_id m = req_RoomID req \<and> m_room_seq m = last_seq db (req_RoomID req) + 1 \<and>
     m_room_seq m \<le> int64_max \<and> length (m_message_id m) = 16 \<and>
     m_message_id m \<notin> m_message_id ` set (messages db) \<and>
     \<not> (\<exists>x \<in> set (messages db). same_key cl (req_ClientMessageID req) x) \<and>
     o_message_id r = m_message_id m \<and> o_room_id r = m_room_id m \<and> o_room_seq r = m_room_seq m \<and>
     o_created_at r = m_created_at m \<and> o_published_at r = None"

text \<open>The event a new message is acknowledged with; the row holds PostgreSQL's text of it.\<close>

definition event_matches :: "SendRequest \<Rightarrow> message_row \<Rightarrow> Event \<Rightarrow> bool" where
  "event_matches req m ev \<longleftrightarrow>
     ev_MessageID ev = uuid_text (m_message_id m) \<and> ev_ClientMessageID ev = m_client_message_id m \<and>
     ev_RoomID ev = m_room_id m \<and> ev_RoomSeq ev = m_room_seq m \<and>
     ev_Payload ev = req_Payload req \<and> Event_Validate ev = None"

inductive accept_spec ::
  "msgdb \<Rightarrow> string \<Rightarrow> SendRequest \<Rightarrow> store_error + Event \<Rightarrow> msgdb \<Rightarrow> bool" where
  reject: "accept_spec db cl req (Inl e) db"
| replay: "\<lbrakk>m \<in> set (messages db); same_key cl (req_ClientMessageID req) m\<rbrakk>
    \<Longrightarrow> accept_spec db cl req (Inr (event_of_row m)) db"
| accept: "\<lbrakk>fresh_rows db cl req m r; event_matches req m ev\<rbrakk>
    \<Longrightarrow> accept_spec db cl req (Inr ev) (committed db (req_RoomID req) m r)"
| lost_ack: "fresh_rows db cl req m r
    \<Longrightarrow> accept_spec db cl req (Inl CommitFailed) (committed db (req_RoomID req) m r)"

inductive_cases accept_spec_InrE: "accept_spec db cl req (Inr ev) db'"

lemmas accept_spec_commit =
  accept_spec.accept [unfolded committed_def] accept_spec.lost_ack [unfolded committed_def]

lemma findEvent_Found:
  "findEvent oc db cl cm = Found ev \<Longrightarrow> \<exists>m \<in> set (messages db). same_key cl cm m \<and> ev = event_of_row m"
  by (auto simp: findEvent_def find_Some_iff split: if_splits option.splits)

lemma findEvent_NoRows:
  "findEvent oc db cl cm = NoRows \<Longrightarrow> \<not> (\<exists>m \<in> set (messages db). same_key cl cm m)"
  by (auto simp: findEvent_def find_None_iff split: if_splits option.splits)

lemma allocate_seq_InrD:
  "allocate_seq db r = Inr (n, tx) \<Longrightarrow>
     n = last_seq db r + 1 \<and> n \<le> int64_max \<and> tx = db\<lparr>room_counters := (room_counters db)(r := Some n)\<rparr>"
  by (auto simp: allocate_seq_def Let_def split: if_splits)

lemma insert_message_InrD:
  "insert_message db m = Inr tx \<Longrightarrow>
     m_message_id m \<notin> m_message_id ` set (messages db) \<and> tx = db\<lparr>messages := messages db @ [m]\<rparr>"
  by (auto simp: insert_message_def split: if_splits)

lemma insert_outbox_InrD:
  "insert_outbox db r = Inr tx \<Longrightarrow> tx = db\<lparr>message_outbox := message_outbox db @ [r]\<rparr>"
  by (auto simp: insert_outbox_def split: if_splits)

lemma run_sql_Inr [simp]: "run_sql oc x = Inr y \<longleftrightarrow> oc = Done \<and> x = Inr y"
  by (simp add: run_sql_def)

lemma accept_insert_refines:
  assumes wf: "wf_env env"
    and no: "\<not> (\<exists>x \<in> set (messages db). same_key cl (req_ClientMessageID req) x)"
    and alloc: "allocate_seq db (req_RoomID req) = Inr (n, tx)"
  shows "accept_spec db cl req (fst (accept_insert env db tx cl req n))
    (snd (accept_insert env db tx cl req n))"
  using newMessageID_parse [of "rand16 env"] wf no allocate_seq_InrD [OF alloc]
  unfolding accept_insert_def wf_env_def
  by (auto simp: Let_def fresh_rows_def event_matches_def
      split: option.splits sum.splits outcome.splits found.splits if_splits
      intro!: accept_spec_commit intro: accept_spec.reject
      dest!: insert_message_InrD insert_outbox_InrD findEvent_Found)

lemma Accept_refines:
  assumes "wf_env env"
  shows "accept_spec db cl req (fst (Accept env db cl req)) (snd (Accept env db cl req))"
  using findEvent_Found [of _ db cl "req_ClientMessageID req"]
    findEvent_NoRows [of _ db cl "req_ClientMessageID req"]
  by (auto simp: Accept_def accept_tx_def accept_insert_refines [OF assms]
      split: option.splits sum.splits found.splits intro: accept_spec.reject accept_spec.replay)

subsection \<open>The invariant of the store\<close>

definition room_seqs :: "message_row list \<Rightarrow> string \<Rightarrow> int list" where
  "room_seqs ms r = map m_room_seq (filter (\<lambda>m. m_room_id m = r) ms)"

definition store_inv :: "msgdb \<Rightarrow> bool" where
  "store_inv db \<longleftrightarrow>
     distinct (map m_message_id (messages db)) \<and>
     distinct (map (\<lambda>m. (m_client_id m, m_client_message_id m)) (messages db)) \<and>
     (\<forall>r. room_seqs (messages db) r = [1..last_seq db r]) \<and>
     (\<forall>r. 0 \<le> last_seq db r \<and> last_seq db r \<le> int64_max) \<and>
     list_all (\<lambda>m. length (m_message_id m) = 16) (messages db) \<and>
     map (\<lambda>m. (m_message_id m, m_room_id m, m_room_seq m)) (messages db)
       = map (\<lambda>r. (o_message_id r, o_room_id r, o_room_seq r)) (message_outbox db)"

lemma room_seqs_simps [simp]:
  "room_seqs [] r = []"
  "room_seqs (ms @ [m]) r = room_seqs ms r @ (if m_room_id m = r then [m_room_seq m] else [])"
  by (simp_all add: room_seqs_def)

lemma last_seq_committed [simp]:
  "last_seq (committed db room m r) q = (if q = room then last_seq db room + 1 else last_seq db q)"
  by (simp add: committed_def last_seq_def)

lemma messages_committed [simp]:
  "messages (committed db room m r) = messages db @ [m]"
  "message_outbox (committed db room m r) = message_outbox db @ [r]"
  by (simp_all add: committed_def)

lemma store_inv_empty: "store_inv empty_db"
  by (simp add: store_inv_def empty_db_def last_seq_def)

lemma store_inv_committed:
  assumes inv: "store_inv db" and fresh: "fresh_rows db cl req m r"
  shows "store_inv (committed db (req_RoomID req) m r)"
proof -
  have key: "(cl, req_ClientMessageID req) \<notin> (\<lambda>x. (m_client_id x, m_client_message_id x)) ` set (messages db)"
    using fresh by (auto simp: fresh_rows_def same_key_def)
  have seqs: "[1..last_seq db q] @ [last_seq db q + 1] = [1..last_seq db q + 1]" for q
    using inv upto_rec2 [of 1 "last_seq db q + 1"] by (simp add: store_inv_def)
  show ?thesis
    using inv fresh key by (auto simp: store_inv_def fresh_rows_def seqs)
qed

lemma accept_spec_inv: "\<lbrakk>accept_spec db cl req res db'; store_inv db\<rbrakk> \<Longrightarrow> store_inv db'"
  by (induction rule: accept_spec.induct) (auto intro: store_inv_committed)

lemma find_same_key:
  assumes "store_inv db" and "m \<in> set (messages db)" and "same_key cl cm m"
  shows "find (same_key cl cm) (messages db) = Some m"
proof -
  have "\<exists>x. find (same_key cl cm) (messages db) = Some x"
    using assms by (metis (no_types, lifting) find_None_iff not_None_eq)
  then obtain x where x: "find (same_key cl cm) (messages db) = Some x" by blast
  then have "x \<in> set (messages db)" "same_key cl cm x"
    by (auto simp: find_Some_iff in_set_conv_nth)
  moreover have "inj_on (\<lambda>m. (m_client_id m, m_client_message_id m)) (set (messages db))"
    using assms(1) by (simp add: store_inv_def distinct_map)
  ultimately have "x = m"
    using assms(2,3) by (auto simp: same_key_def inj_on_def)
  with x show ?thesis by simp
qed

text \<open>A request whose key is stored is answered with the stored message.\<close>

lemma Accept_stored:
  assumes "store_inv db" and "m \<in> set (messages db)"
    and "same_key cl (req_ClientMessageID req) m"
    and "\<not> blank cl" and "SendRequest_Validate req = None" and "outcome_of env FindPool = Done"
  shows "Accept env db cl req = (Inr (event_of_row m), db)"
  using assms find_same_key [OF assms(1-3)] by (simp add: Accept_def findEvent_def)

lemma accept_spec_Inr_row:
  assumes "accept_spec db cl req (Inr ev) db'"
  shows "\<exists>m \<in> set (messages db'). same_key cl (req_ClientMessageID req) m \<and>
    ev_MessageID ev = uuid_text (m_message_id m) \<and> ev_ClientMessageID ev = m_client_message_id m \<and>
    ev_RoomID ev = m_room_id m \<and> ev_RoomSeq ev = m_room_seq m"
  using assms
  by (cases rule: accept_spec_InrE)
    (auto simp: event_of_row_def event_matches_def fresh_rows_def same_key_def)

lemma accept_spec_grows:
  "accept_spec db cl req res db' \<Longrightarrow> set (messages db) \<subseteq> set (messages db')"
  by (induction rule: accept_spec.induct) auto

lemma Accept_inv: "\<lbrakk>wf_env env; store_inv db\<rbrakk> \<Longrightarrow> store_inv (snd (Accept env db cl req))"
  using Accept_refines accept_spec_inv by blast

lemma Accept_Inr_guard:
  "fst (Accept env db cl req) = Inr ev \<Longrightarrow> \<not> blank cl \<and> SendRequest_Validate req = None"
  by (auto simp: Accept_def split: if_splits option.splits)

lemma run_sql_Done [simp]: "run_sql Done x = x"
  by (simp add: run_sql_def)

lemma not_blank_btrim: "\<not> blank s \<Longrightarrow> btrim_nonempty s"
  using TrimSpace_spaces by (auto simp: blank_def btrim_nonempty_def)

lemma uuid_text_not_blank: "\<not> blank (uuid_text u)"
proof -
  have "CHR ''-'' \<in> set (uuid_text u)" by (simp add: uuid_text_def)
  moreover have "\<forall>e \<in> set space_runes. CHR ''-'' \<notin> set e" by (simp add: space_runes_def)
  ultimately have "CHR ''-'' \<in> set (TrimSpace (uuid_text u))" by (rule TrimSpace_keeps)
  then show ?thesis by (auto simp: blank_def)
qed

lemma store_inv_seq_le:
  assumes "store_inv db" and "x \<in> set (messages db)"
  shows "1 \<le> m_room_seq x \<and> m_room_seq x \<le> last_seq db (m_room_id x)"
proof -
  have "m_room_seq x \<in> set (room_seqs (messages db) (m_room_id x))" using assms(2) by (simp add: room_seqs_def)
  with assms(1) show ?thesis by (simp add: store_inv_def)
qed

text \<open>The number after the last one of a room is free in both tables.\<close>

lemma store_inv_outbox_rows:
  assumes "store_inv db"
  shows "(\<lambda>r. (o_message_id r, o_room_id r, o_room_seq r)) ` set (message_outbox db)
    = (\<lambda>m. (m_message_id m, m_room_id m, m_room_seq m)) ` set (messages db)"
proof -
  have "map (\<lambda>r. (o_message_id r, o_room_id r, o_room_seq r)) (message_outbox db)
    = map (\<lambda>m. (m_message_id m, m_room_id m, m_room_seq m)) (messages db)"
    using assms by (simp add: store_inv_def)
  from arg_cong [OF this, of set] show ?thesis by simp
qed

lemma store_inv_next_free:
  assumes "store_inv db"
  shows "\<not> (\<exists>x \<in> set (messages db). m_room_id x = r \<and> m_room_seq x = last_seq db r + 1)"
    and "\<not> (\<exists>x \<in> set (message_outbox db). o_room_id x = r \<and> o_room_seq x = last_seq db r + 1)"
proof -
  show m: "\<not> (\<exists>x \<in> set (messages db). m_room_id x = r \<and> m_room_seq x = last_seq db r + 1)"
    using store_inv_seq_le [OF assms] by force
  have "\<exists>m \<in> set (messages db). m_room_id m = o_room_id x \<and> m_room_seq m = o_room_seq x"
    if "x \<in> set (message_outbox db)" for x
    using store_inv_outbox_rows [OF assms] that by (force simp: set_eq_iff image_iff)
  with m show "\<not> (\<exists>x \<in> set (message_outbox db). o_room_id x = r \<and> o_room_seq x = last_seq db r + 1)"
    by metis
qed

lemma store_inv_outbox_ids:
  assumes "store_inv db"
  shows "o_message_id ` set (message_outbox db) = m_message_id ` set (messages db)"
  using arg_cong [OF store_inv_outbox_rows [OF assms], of "(`) fst"] by (simp add: image_image)

end
