(* ===== verification/Outbox_Repository.thy ===== *)
theory Outbox_Repository
  imports Message_Store
begin

text \<open>
  The outbox relay's view of the database, \<^verbatim>\<open>outbox_relay/internal/postgres/repository.go\<close>: the query for
  the oldest unpublished row of each room, and the update that marks a row published. Both act on
  the table \<^verbatim>\<open>message_outbox\<close> that the message store fills. \<open>coll\<close> is the database's collation of
  text, which only \<^verbatim>\<open>ORDER BY\<close> uses.
\<close>

record Entry =
  en_MessageID :: string
  en_RoomID :: string
  en_RoomSeq :: int
  en_Event :: bytes

definition entry_of :: "outbox_row \<Rightarrow> Entry" where
  "entry_of r = \<lparr>en_MessageID = uuid_text (o_message_id r), en_RoomID = o_room_id r,
                 en_RoomSeq = o_room_seq r, en_Event = o_event r\<rparr>"

definition pending :: "outbox_row \<Rightarrow> bool" where
  "pending r \<longleftrightarrow> o_published_at r = None"

text \<open>The \<^verbatim>\<open>WHERE\<close> clause: unpublished, and no unpublished row of the room has a smaller number.\<close>

definition room_head :: "outbox_row list \<Rightarrow> outbox_row \<Rightarrow> bool" where
  "room_head rows r \<longleftrightarrow> pending r \<and>
     \<not> list_ex (\<lambda>q. o_room_id q = o_room_id r \<and> pending q \<and> o_room_seq q < o_room_seq r) rows"

definition pending_order :: "(string \<Rightarrow> string \<Rightarrow> bool) \<Rightarrow> outbox_row \<Rightarrow> outbox_row \<Rightarrow> bool" where
  "pending_order coll a b \<longleftrightarrow>
     instant (o_created_at a) < instant (o_created_at b) \<or>
     instant (o_created_at a) = instant (o_created_at b) \<and>
       (if o_room_id a = o_room_id b then o_room_seq a \<le> o_room_seq b
        else coll (o_room_id a) (o_room_id b))"

definition NextPending :: "(string \<Rightarrow> string \<Rightarrow> bool) \<Rightarrow> outbox_row list \<Rightarrow> int \<Rightarrow> Entry list" where
  "NextPending coll rows limit =
     map entry_of (take (nat limit) (sort_by (pending_order coll) (filter (room_head rows) rows)))"

text \<open>
  The cast \<^verbatim>\<open>$1::uuid\<close> on the canonical text, the only form \<^const>\<open>NextPending\<close> hands out.
\<close>

definition uuid_in :: "string \<Rightarrow> uuid option" where
  "uuid_in s = (case parseMessageID s of None \<Rightarrow> None
     | Some u \<Rightarrow> if uuid_text u = s then Some u else None)"

definition mark_row :: "gotime \<Rightarrow> uuid \<Rightarrow> outbox_row \<Rightarrow> outbox_row" where
  "mark_row now u r =
     (if o_message_id r = u \<and> pending r then r\<lparr>o_published_at := Some now\<rparr> else r)"

datatype repo_error = QueryFailed | BadUuid | NoLongerPending

text \<open>The update, with the number of rows it affected.\<close>

definition MarkPublished :: "gotime \<Rightarrow> outbox_row list \<Rightarrow> string \<Rightarrow> repo_error option \<times> outbox_row list" where
  "MarkPublished now rows messageID =
     (case uuid_in messageID of
        None \<Rightarrow> (Some BadUuid, rows)
      | Some u \<Rightarrow>
          (let affected = length (filter (\<lambda>r. o_message_id r = u \<and> pending r) rows)
           in (if affected \<noteq> 1 then Some NoLongerPending else None, map (mark_row now u) rows)))"

declare NextPending_def [sql_simps] MarkPublished_def [sql_simps]

subsection \<open>The query\<close>

lemma set_NextPending:
  assumes "e \<in> set (NextPending coll rows n)"
  obtains r where "r \<in> set rows" "room_head rows r" "e = entry_of r"
  using assms by (auto simp: NextPending_def dest!: in_set_takeD)

lemma length_NextPending: "length (NextPending coll rows n) \<le> nat n"
  by (simp add: NextPending_def)

lemma NextPending_head_exists:
  assumes "r \<in> set rows" "pending r"
  shows "\<exists>h \<in> set rows. room_head rows h \<and> o_room_id h = o_room_id r"
proof -
  let ?S = "{q \<in> set rows. o_room_id q = o_room_id r \<and> pending q}"
  have "finite ?S" "r \<in> ?S" using assms by auto
  then obtain h where h: "h \<in> ?S" "\<forall>q \<in> ?S. o_room_seq h \<le> o_room_seq q"
    by (metis (no_types, lifting) arg_min_if_finite(1) arg_min_least empty_iff)
  then have "room_head rows h" by (force simp: room_head_def list_ex_iff)
  with h show ?thesis by blast
qed

lemma NextPending_nonempty:
  assumes "r \<in> set rows" "pending r" "1 \<le> n"
  shows "NextPending coll rows n \<noteq> []"
proof -
  obtain h where "h \<in> set (filter (room_head rows) rows)"
    using NextPending_head_exists [OF assms(1,2)] by auto
  then have "filter (room_head rows) rows \<noteq> []" by (metis list.set(1) empty_iff)
  then have "sort_by (pending_order coll) (filter (room_head rows) rows) \<noteq> []"
    by (metis length_0_conv length_sort_by)
  with assms(3) show ?thesis by (simp add: NextPending_def)
qed

text \<open>
  Rows are keyed by (room, number) and by an identifier of 16 bytes; two heads of one room would
  have equal numbers.
\<close>

definition row_keys :: "outbox_row list \<Rightarrow> bool" where
  "row_keys rows \<longleftrightarrow> distinct (map (\<lambda>r. (o_room_id r, o_room_seq r)) rows) \<and>
     distinct (map o_message_id rows) \<and> list_all (\<lambda>r. length (o_message_id r) = 16) rows"

lemma distinct_map_filter_inj:
  "\<lbrakk>distinct xs; inj_on f (set (filter P xs))\<rbrakk> \<Longrightarrow> distinct (map f (filter P xs))"
  by (simp add: distinct_map)

lemma room_heads_distinct:
  assumes "row_keys rows"
  shows "distinct (map o_room_id (filter (room_head rows) rows))"
proof (rule distinct_map_filter_inj)
  show "distinct rows" using assms by (auto simp: row_keys_def distinct_map)
  show "inj_on o_room_id (set (filter (room_head rows) rows))"
  proof (rule inj_onI)
    fix a b
    assume ab: "a \<in> set (filter (room_head rows) rows)" "b \<in> set (filter (room_head rows) rows)"
      "o_room_id a = o_room_id b"
    then have "o_room_seq a = o_room_seq b"
      by (force simp: room_head_def list_ex_iff)
    with ab assms show "a = b" by (auto simp: row_keys_def distinct_map inj_on_def)
  qed
qed

lemma NextPending_rooms_distinct:
  assumes "row_keys rows"
  shows "distinct (map en_RoomID (NextPending coll rows n))"
proof -
  have "map en_RoomID (NextPending coll rows n)
      = take (nat n) (map o_room_id (sort_by (pending_order coll) (filter (room_head rows) rows)))"
    by (simp add: NextPending_def take_map entry_of_def comp_def)
  then show ?thesis using room_heads_distinct [OF assms] by simp
qed

end
