(* ===== verification/Outbox_Relay.thy ===== *)
theory Outbox_Relay
  imports Outbox_Repository
begin

text \<open>
  The outbox relay, \<^verbatim>\<open>outbox_relay/internal/relay/relay.go\<close>, and the Kafka producer it publishes with
  (\<^verbatim>\<open>internal/kafka/producer.go\<close>).

  \<^item> The relay calls two interfaces and waits on timers; \<open>relay_api\<close> is the record of these calls on
    a world \<open>'w\<close>. Every call returns the world after it, so that whatever happens meanwhile
    (a cancelled context included) is in the returned world.
  \<^item> The locale \<open>outbox_interface\<close> states what the relay relies on: which rows a query may return, and
    what a call may have done when it reports an error. The order theorem is proved there once.
  \<^item> The concrete world holds the database, the Kafka log and a schedule of faults; its calls are the
    SQL statements of \<^verbatim>\<open>repository.go\<close> and the append of a record. It interprets the locale.
\<close>

subsection \<open>The relay\<close>

datatype relay_error =
    RepoError repo_error | SendFailed | CtxErr | DecodeFailed | ValidateFailed contract_error
  | FieldsMismatch | PublishGaveUp int "relay_error option"

record 'w relay_api =
  api_ctx_err :: "'w \<Rightarrow> bool"
  api_next_pending :: "int \<Rightarrow> 'w \<Rightarrow> (relay_error + Entry list) \<times> 'w"
  api_mark_published :: "string \<Rightarrow> 'w \<Rightarrow> relay_error option \<times> 'w"
  api_publish :: "string \<Rightarrow> string \<Rightarrow> bytes \<Rightarrow> 'w \<Rightarrow> (relay_error + int \<times> int) \<times> 'w"
  api_wait :: "int \<Rightarrow> 'w \<Rightarrow> bool \<times> 'w"

record relay_config =
  rc_Topic :: string
  rc_BatchSize :: int
  rc_MaxRetries :: int
  rc_RetryBackoff :: int
  rc_PollInterval :: int

abbreviation second_ns :: int where "second_ns \<equiv> 1000000000"

text \<open>\<^verbatim>\<open>New\<close> refuses these configurations (nil arguments apart).\<close>

definition relay_New :: "relay_config \<Rightarrow> relay_config option" where
  "relay_New c =
     (if rc_Topic c = [] \<or> rc_BatchSize c < 1 \<or> rc_MaxRetries c < 1 \<or> rc_RetryBackoff c \<le> 0
         \<or> rc_PollInterval c \<le> 0
      then None else Some c)"

definition validateEntry :: "Entry \<Rightarrow> relay_error option" where
  "validateEntry entry =
     (case unmarshal_Event (en_Event entry) of
        None \<Rightarrow> Some DecodeFailed
      | Some event \<Rightarrow>
          (case Event_Validate event of
             Some e \<Rightarrow> Some (ValidateFailed e)
           | None \<Rightarrow>
               if ev_MessageID event \<noteq> en_MessageID entry \<or> ev_RoomID event \<noteq> en_RoomID entry
                  \<or> ev_RoomSeq event \<noteq> en_RoomSeq entry
               then Some FieldsMismatch else None))"

text \<open>
  \<^verbatim>\<open>RetryBackoff * time.Duration(1<<(attempt-1))\<close>, capped at five seconds: both operations are on
  \<^verbatim>\<open>int64\<close>.
\<close>

definition retry_delay :: "relay_config \<Rightarrow> int \<Rightarrow> int" where
  "retry_delay c attempt =
     (let delay = wrap64 (rc_RetryBackoff c * wrap64 (2 ^ nat (attempt - 1))) in
      if delay > 5 * second_ns then 5 * second_ns else delay)"

text \<open>The loop from \<open>attempt\<close> on; \<open>lastErr\<close> is the error of the attempt before.\<close>

function publish_loop ::
  "'w relay_api \<Rightarrow> relay_config \<Rightarrow> Entry \<Rightarrow> int \<Rightarrow> relay_error option \<Rightarrow> 'w \<Rightarrow> (relay_error + int \<times> int) \<times> 'w" where
  "publish_loop api c entry attempt lastErr w =
     (if rc_MaxRetries c < attempt then (Inl (PublishGaveUp (rc_MaxRetries c) lastErr), w)
      else case api_publish api (rc_Topic c) (en_RoomID entry) (en_Event entry) w of
        (Inr po, w1) \<Rightarrow> (Inr po, w1)
      | (Inl err, w1) \<Rightarrow>
          if attempt = rc_MaxRetries c then (Inl (PublishGaveUp (rc_MaxRetries c) (Some err)), w1)
          else case api_wait api (retry_delay c attempt) w1 of
            (True, w2) \<Rightarrow> (Inl CtxErr, w2)
          | (False, w2) \<Rightarrow> publish_loop api c entry (attempt + 1) (Some err) w2)"
  by pat_completeness auto
termination
  by (relation "measure (\<lambda>(api, c, entry, attempt, err, w). nat (rc_MaxRetries c + 1 - attempt))") auto

declare publish_loop.simps [simp del]

definition publishWithRetry ::
  "'w relay_api \<Rightarrow> relay_config \<Rightarrow> Entry \<Rightarrow> 'w \<Rightarrow> (relay_error + int \<times> int) \<times> 'w" where
  "publishWithRetry api c entry w = publish_loop api c entry 1 None w"

text \<open>The loop over the batch, with the errors joined so far.\<close>

fun process_entries ::
  "'w relay_api \<Rightarrow> relay_config \<Rightarrow> Entry list \<Rightarrow> relay_error list \<Rightarrow> 'w \<Rightarrow> relay_error list \<times> 'w" where
  "process_entries api c [] errs w = (errs, w)"
| "process_entries api c (entry # entries) errs w =
     (if api_ctx_err api w then ([CtxErr], w)
      else case validateEntry entry of
        Some e \<Rightarrow> process_entries api c entries (errs @ [e]) w
      | None \<Rightarrow>
          (case publishWithRetry api c entry w of
             (Inl e, w1) \<Rightarrow> process_entries api c entries (errs @ [e]) w1
           | (Inr _, w1) \<Rightarrow>
               (case api_mark_published api (en_MessageID entry) w1 of
                  (Some e, w2) \<Rightarrow> process_entries api c entries (errs @ [e]) w2
                | (None, w2) \<Rightarrow> process_entries api c entries errs w2)))"

definition processBatch :: "'w relay_api \<Rightarrow> relay_config \<Rightarrow> 'w \<Rightarrow> relay_error list \<times> 'w" where
  "processBatch api c w =
     (case api_next_pending api (rc_BatchSize c) w of
        (Inl e, w1) \<Rightarrow> ([e], w1)
      | (Inr entries, w1) \<Rightarrow> process_entries api c entries [] w1)"

text \<open>
  \<^verbatim>\<open>Run\<close>, for at most \<open>n\<close> cycles: it ends when the context is done, before a cycle or while it waits
  for the next one. The result says whether it has ended.
\<close>

fun relay_Run :: "nat \<Rightarrow> 'w relay_api \<Rightarrow> relay_config \<Rightarrow> 'w \<Rightarrow> bool \<times> 'w" where
  "relay_Run 0 api c w = (False, w)"
| "relay_Run (Suc n) api c w =
     (if api_ctx_err api w then (True, w)
      else case api_wait api (rc_PollInterval c) (snd (processBatch api c w)) of
        (True, w1) \<Rightarrow> (True, w1)
      | (False, w1) \<Rightarrow> relay_Run n api c w1)"

subsection \<open>Order of the log\<close>

record kafka_record =
  k_topic :: string
  k_key :: string
  k_value :: bytes

definition record_of :: "string \<Rightarrow> Entry \<Rightarrow> kafka_record" where
  "record_of topic e = \<lparr>k_topic = topic, k_key = en_RoomID e, k_value = en_Event e\<rparr>"

definition seq_of :: "bytes \<Rightarrow> int" where
  "seq_of v = (case unmarshal_Event v of Some e \<Rightarrow> ev_RoomSeq e | None \<Rightarrow> 0)"

text \<open>The numbers of a room in the order in which Kafka holds its messages.\<close>

definition room_log :: "kafka_record list \<Rightarrow> string \<Rightarrow> int list" where
  "room_log log r = map (\<lambda>k. seq_of (k_value k)) (filter (\<lambda>k. k_key k = r) log)"

lemma room_log_simps [simp]:
  "room_log [] r = []"
  "room_log (l @ l') r = room_log l r @ room_log l' r"
  "room_log (k # l) r = (if k_key k = r then [seq_of (k_value k)] else []) @ room_log l r"
  by (simp_all add: room_log_def)

lemma room_log_replicate [simp]:
  "room_log (replicate n k) r = (if k_key k = r then replicate n (seq_of (k_value k)) else [])"
  by (induction n) auto

lemma validateEntry_seq: "validateEntry e = None \<Longrightarrow> seq_of (en_Event e) = en_RoomSeq e"
  by (auto simp: validateEntry_def seq_of_def split: option.splits if_splits)

definition relay_inv :: "outbox_row list \<Rightarrow> kafka_record list \<Rightarrow> bool" where
  "relay_inv rows log \<longleftrightarrow>
     row_keys rows \<and>
     (\<forall>r. sorted (room_log log r)) \<and>
     (\<forall>r. \<forall>s \<in> set (room_log log r). \<exists>q \<in> set rows. o_room_id q = r \<and> o_room_seq q = s) \<and>
     (\<forall>q \<in> set rows. \<not> pending q \<longrightarrow> o_room_seq q \<in> set (room_log log (o_room_id q))) \<and>
     (\<forall>q \<in> set rows. pending q \<longrightarrow> (\<forall>s \<in> set (room_log log (o_room_id q)). s \<le> o_room_seq q))"

lemma relay_invE:
  assumes "relay_inv rows log"
  obtains "row_keys rows" "\<And>r. sorted (room_log log r)"
    "\<And>r s. s \<in> set (room_log log r) \<Longrightarrow> \<exists>q \<in> set rows. o_room_id q = r \<and> o_room_seq q = s"
    "\<And>q. \<lbrakk>q \<in> set rows; \<not> pending q\<rbrakk> \<Longrightarrow> o_room_seq q \<in> set (room_log log (o_room_id q))"
    "\<And>q s. \<lbrakk>q \<in> set rows; pending q; s \<in> set (room_log log (o_room_id q))\<rbrakk> \<Longrightarrow> s \<le> o_room_seq q"
  using assms unfolding relay_inv_def by blast

lemma relay_inv_empty: "relay_inv [] []"
  by (simp add: relay_inv_def row_keys_def)

lemma room_headD:
  assumes "room_head rows q" "q' \<in> set rows" "o_room_id q' = o_room_id q" "pending q'"
  shows "o_room_seq q \<le> o_room_seq q'"
  using assms by (auto simp: room_head_def list_ex_iff not_less)

text \<open>Publishing the head of a room, any number of times, keeps the order.\<close>

lemma relay_inv_publish:
  assumes inv: "relay_inv rows log" and q: "q \<in> set rows" "room_head rows q"
    and valid: "validateEntry (entry_of q) = None"
  shows "relay_inv rows (log @ replicate n (record_of topic (entry_of q)))"
proof -
  have seq: "seq_of (o_event q) = o_room_seq q"
    using validateEntry_seq [OF valid] by (simp add: entry_of_def)
  have rl: "room_log (log @ replicate n (record_of topic (entry_of q))) r
      = room_log log r @ (if r = o_room_id q then replicate n (o_room_seq q) else [])" for r
    by (simp add: record_of_def entry_of_def seq)
  have pend: "pending q" using q by (simp add: room_head_def)
  note inv' = inv [unfolded relay_inv_def]
  have "sorted (replicate n (o_room_seq q))" by (induction n) (auto simp: less_imp_le)
  then have "sorted (room_log log r @ (if r = o_room_id q then replicate n (o_room_seq q) else []))" for r
    using inv' q pend by (auto simp: sorted_append)
  moreover have "s \<le> o_room_seq q'"
    if "q' \<in> set rows" "pending q'"
      "s \<in> set (room_log log (o_room_id q') @ (if o_room_id q' = o_room_id q then replicate n (o_room_seq q) else []))"
    for q' s
    using that inv' room_headD [OF q(2) that(1) _ that(2)] by (auto split: if_splits)
  moreover have "\<exists>x \<in> set rows. o_room_id x = r \<and> o_room_seq x = s"
    if "s \<in> set (room_log log r @ (if r = o_room_id q then replicate n (o_room_seq q) else []))" for r s
    using that inv' q(1) by (auto split: if_splits)
  moreover have "o_room_seq x \<in> set (room_log log (o_room_id x) @ ys)" if "x \<in> set rows" "\<not> pending x" for x ys
    using that inv' by simp
  ultimately show ?thesis
    using inv' unfolding relay_inv_def rl by blast
qed

lemma mark_row_fields [simp]:
  "o_message_id (mark_row now u r) = o_message_id r" "o_room_id (mark_row now u r) = o_room_id r"
  "o_room_seq (mark_row now u r) = o_room_seq r" "o_event (mark_row now u r) = o_event r"
  "o_created_at (mark_row now u r) = o_created_at r"
  by (simp_all add: mark_row_def)

lemma pending_mark_row [simp]: "pending (mark_row now u r) \<longleftrightarrow> pending r \<and> o_message_id r \<noteq> u"
  by (auto simp: mark_row_def pending_def)

lemma entry_of_mark_row [simp]: "entry_of (mark_row now u r) = entry_of r"
  by (simp add: entry_of_def)

lemma row_keys_mark [simp]: "row_keys (map (mark_row now u) rows) \<longleftrightarrow> row_keys rows"
  by (simp add: row_keys_def comp_def list_all_iff)

text \<open>Marking a row whose number is in the log keeps the invariant.\<close>

lemma relay_inv_mark:
  assumes inv: "relay_inv rows log" and q: "q \<in> set rows"
    and logged: "o_room_seq q \<in> set (room_log log (o_room_id q))"
  shows "relay_inv (map (mark_row now (o_message_id q)) rows) log"
proof -
  have same: "q' = q" if "q' \<in> set rows" "o_message_id q' = o_message_id q" for q'
    using that q inv by (auto simp: relay_inv_def row_keys_def distinct_map inj_on_def)
  show ?thesis
    using inv logged same unfolding relay_inv_def by (auto; metis)
qed

definition batch_ok :: "outbox_row list \<Rightarrow> Entry list \<Rightarrow> bool" where
  "batch_ok rows es \<longleftrightarrow> distinct (map en_RoomID es) \<and>
     (\<forall>e \<in> set es. \<exists>q \<in> set rows. room_head rows q \<and> e = entry_of q)"

lemma room_head_mark_other:
  assumes "room_head rows q" "\<forall>x \<in> set rows. o_message_id x = u \<longrightarrow> o_room_id x \<noteq> o_room_id q" "q \<in> set rows"
  shows "room_head (map (mark_row now u) rows) (mark_row now u q)"
  using assms by (auto simp: room_head_def list_ex_iff)

lemma batch_ok_mark:
  assumes "batch_ok rows (e # es)" and "row_keys rows" and "q \<in> set rows" and "e = entry_of q"
  shows "batch_ok (map (mark_row now (o_message_id q)) rows) es"
proof -
  have "\<exists>x \<in> set rows. room_head (map (mark_row now (o_message_id q)) rows) (mark_row now (o_message_id q) x) \<and> f = entry_of x"
    if "f \<in> set es" for f
  proof -
    from that assms(1) obtain x where x: "x \<in> set rows" "room_head rows x" "f = entry_of x"
      by (auto simp: batch_ok_def)
    have "en_RoomID e \<notin> en_RoomID ` set es" using assms(1) by (simp add: batch_ok_def)
    then have "en_RoomID f \<noteq> en_RoomID e" using that by (metis imageI)
    then have "o_room_id q \<noteq> o_room_id x" using x(3) assms(4) by (auto simp: entry_of_def)
    moreover have "y = q" if "y \<in> set rows" "o_message_id y = o_message_id q" for y
      using that assms(2,3) by (auto simp: row_keys_def distinct_map inj_on_def)
    ultimately have "room_head (map (mark_row now (o_message_id q)) rows) (mark_row now (o_message_id q) x)"
      using x by (intro room_head_mark_other) auto
    with x show ?thesis by blast
  qed
  then show ?thesis using assms(1) by (auto simp: batch_ok_def)
qed

subsection \<open>New rows\<close>

text \<open>
  The message store runs beside the relay: between two calls of the relay, new unpublished rows may
  appear, each with a number above those its room already has.
\<close>

definition grows :: "outbox_row list \<Rightarrow> outbox_row list \<Rightarrow> bool" where
  "grows rows rows' \<longleftrightarrow> row_keys rows' \<and>
     (\<exists>new. rows' = rows @ new \<and>
        (\<forall>q \<in> set new. pending q \<and> (\<forall>x \<in> set rows. o_room_id x = o_room_id q \<longrightarrow> o_room_seq x < o_room_seq q)))"

lemma grows_refl: "row_keys rows \<Longrightarrow> grows rows rows"
  by (simp add: grows_def)

lemma grows_trans: "\<lbrakk>grows a b; grows b c\<rbrakk> \<Longrightarrow> grows a c"
  by (auto simp: grows_def)

lemma grows_keys: "grows a b \<Longrightarrow> row_keys b"
  by (simp add: grows_def)

lemma grows_mem: "\<lbrakk>grows a b; x \<in> set a\<rbrakk> \<Longrightarrow> x \<in> set b"
  by (auto simp: grows_def)

lemma room_head_grows: "\<lbrakk>grows a b; room_head a q; q \<in> set a\<rbrakk> \<Longrightarrow> room_head b q"
  by (fastforce simp: grows_def room_head_def list_ex_iff)

lemma batch_ok_grows: "\<lbrakk>grows a b; batch_ok a es\<rbrakk> \<Longrightarrow> batch_ok b es"
  unfolding batch_ok_def using room_head_grows grows_mem by metis

lemma relay_inv_grows:
  assumes g: "grows a b" and inv: "relay_inv a log"
  shows "relay_inv b log"
proof -
  obtain new where b: "b = a @ new" and new: "\<forall>q \<in> set new. pending q"
    "\<forall>q \<in> set new. \<forall>x \<in> set a. o_room_id x = o_room_id q \<longrightarrow> o_room_seq x < o_room_seq q"
    using g by (auto simp: grows_def)
  have "s \<le> o_room_seq q" if q: "q \<in> set new" and s: "s \<in> set (room_log log (o_room_id q))" for q s
  proof -
    obtain x where "x \<in> set a" "o_room_id x = o_room_id q" "o_room_seq x = s"
      using inv s unfolding relay_inv_def by blast
    with new(2) q show ?thesis by force
  qed
  with inv new grows_keys [OF g] show ?thesis
    unfolding relay_inv_def b by (auto simp: bex_Un)
qed

subsection \<open>What the relay relies on\<close>

locale outbox_interface =
  fixes api :: "'w relay_api" and outbox :: "'w \<Rightarrow> outbox_row list"
    and log :: "'w \<Rightarrow> kafka_record list" and ok :: "'w \<Rightarrow> bool"
  assumes ok_keys: "ok w \<Longrightarrow> row_keys (outbox w)"
  and next_pending_effect:
    "\<lbrakk>api_next_pending api n w = (found, w'); ok w\<rbrakk> \<Longrightarrow> ok w' \<and> grows (outbox w) (outbox w') \<and>
       log w' = log w \<and> (\<forall>es. found = Inr es \<longrightarrow> batch_ok (outbox w') es)"
  and publish_effect:
    "\<lbrakk>api_publish api t k v w = (sent, w'); ok w\<rbrakk> \<Longrightarrow> ok w' \<and> grows (outbox w) (outbox w') \<and>
       (log w' = log w @ [\<lparr>k_topic = t, k_key = k, k_value = v\<rparr>] \<or> log w' = log w \<and> (\<exists>e. sent = Inl e))"
  and mark_effect:
    "\<lbrakk>api_mark_published api i w = (marked, w'); ok w\<rbrakk> \<Longrightarrow> ok w' \<and> log w' = log w \<and>
       (\<exists>mid. grows (outbox w) mid \<and>
         (outbox w' = mid \<or> (\<exists>now u. uuid_in i = Some u \<and> outbox w' = map (mark_row now u) mid)))"
  and wait_effect:
    "\<lbrakk>api_wait api d w = (stop, w'); ok w\<rbrakk> \<Longrightarrow> ok w' \<and> grows (outbox w) (outbox w') \<and> log w' = log w"
begin

text \<open>
  A publication appends the entry's record at least once if it succeeds and, success or not, at
  most once per attempt.
\<close>

lemma publish_loop_effect:
  "\<lbrakk>publish_loop api c e attempt err w = (res, w'); ok w\<rbrakk> \<Longrightarrow>
     ok w' \<and> grows (outbox w) (outbox w') \<and>
     (\<exists>n. log w' = log w @ replicate n (record_of (rc_Topic c) e) \<and>
          int n \<le> max 0 (rc_MaxRetries c + 1 - attempt) \<and> ((\<exists>po. res = Inr po) \<longrightarrow> 1 \<le> n))"
proof (induction "nat (rc_MaxRetries c + 1 - attempt)" arbitrary: attempt err w rule: less_induct)
  case less
  let ?rec = "record_of (rc_Topic c) e"
  note unfold = publish_loop.simps [of api c e attempt] publish_loop.simps [of api c e "rc_MaxRetries c"]
  show ?case
  proof (cases "rc_MaxRetries c < attempt")
    case True
    with less.prems show ?thesis by (auto simp: unfold grows_refl ok_keys)
  next
    case False
    obtain sent w1 where pub: "api_publish api (rc_Topic c) (en_RoomID e) (en_Event e) w = (sent, w1)"
      by fastforce
    from publish_effect [OF this less.prems(2)] obtain k where k: "log w1 = log w @ replicate k ?rec" "k \<le> 1"
      "(\<exists>po. sent = Inr po) \<longrightarrow> 1 \<le> k" and w1: "ok w1" "grows (outbox w) (outbox w1)"
      by (force simp: record_of_def intro: that [of 1] that [of 0])
    obtain stop w2 where wait: "api_wait api (retry_delay c attempt) w1 = (stop, w2)" by fastforce
    note w2 = wait_effect [OF wait w1(1)]
    then have g2: "grows (outbox w) (outbox w2)" using grows_trans [OF w1(2)] by blast
    consider (sent) po where "sent = Inr po" | (last) err1 where "sent = Inl err1" "attempt = rc_MaxRetries c"
      | (stop) err1 where "sent = Inl err1" "attempt \<noteq> rc_MaxRetries c" stop
      | (again) err1 where "sent = Inl err1" "attempt \<noteq> rc_MaxRetries c" "\<not> stop"
      by (cases sent) auto
    then show ?thesis
    proof cases
      case again
      with less.prems False pub wait
      have rest: "publish_loop api c e (attempt + 1) (Some err1) w2 = (res, w')"
        by (simp add: publish_loop.simps [of api c e attempt])
      have "nat (rc_MaxRetries c + 1 - (attempt + 1)) < nat (rc_MaxRetries c + 1 - attempt)"
        using False by simp
      from less.hyps [OF this rest] w2 obtain n where n: "ok w'" "grows (outbox w2) (outbox w')"
        "log w' = log w2 @ replicate n ?rec" "int n \<le> max 0 (rc_MaxRetries c - attempt)"
        "(\<exists>po. res = Inr po) \<longrightarrow> 1 \<le> n" by auto
      then have "log w' = log w @ replicate (k + n) ?rec"
        using w2 k by (simp add: replicate_add)
      with n k False grows_trans [OF g2 n(2)] show ?thesis by (auto intro!: exI [of _ "k + n"])
    qed (use less.prems False pub wait k w1 w2 g2 in
        \<open>auto simp: unfold intro!: exI [of _ k]\<close>)
  qed
qed

lemmas publishWithRetry_effect =
  publish_loop_effect [where attempt = 1 and err = None, folded publishWithRetry_def]

lemma process_entries_inv:
  assumes "process_entries api c es errs w = (out, w')" and "ok w" and "relay_inv (outbox w) (log w)"
    and "batch_ok (outbox w) es"
  shows "ok w' \<and> relay_inv (outbox w') (log w')"
  using assms
proof (induction es arbitrary: errs w)
  case (Cons e es)
  from Cons.prems(4) obtain q where q: "q \<in> set (outbox w)" "room_head (outbox w) q" "e = entry_of q"
    by (auto simp: batch_ok_def)
  have tail: "batch_ok (outbox w) es" using Cons.prems(4) by (auto simp: batch_ok_def)
  show ?case
  proof (cases "api_ctx_err api w \<or> validateEntry e \<noteq> None")
    case True
    with Cons tail show ?thesis by (auto split: if_splits)
  next
    case False
    obtain res w1 where pub: "publishWithRetry api c e w = (res, w1)" by fastforce
    from publishWithRetry_effect [OF this Cons.prems(2)] obtain n where w1: "ok w1"
      "grows (outbox w) (outbox w1)" "log w1 = log w @ replicate n (record_of (rc_Topic c) e)"
      "(\<exists>po. res = Inr po) \<longrightarrow> 1 \<le> n" by blast
    note q1 = grows_mem [OF w1(2) q(1)] room_head_grows [OF w1(2) q(2,1)]
    have inv1: "relay_inv (outbox w1) (log w1)"
      using relay_inv_publish [OF relay_inv_grows [OF w1(2) Cons.prems(3)] q1] False q(3) w1(3) by simp
    have bo1: "batch_ok (outbox w1) (e # es)" by (rule batch_ok_grows [OF w1(2) Cons.prems(4)])
    show ?thesis
    proof (cases res)
      case (Inl err)
      with Cons.prems(1) False pub have "process_entries api c es (errs @ [err]) w1 = (out, w')" by simp
      then show ?thesis by (rule Cons.IH) (use inv1 bo1 w1 in \<open>auto simp: batch_ok_def\<close>)
    next
      case (Inr po)
      obtain m w2 where mark: "api_mark_published api (en_MessageID e) w1 = (m, w2)" by fastforce
      from mark_effect [OF this w1(1)] obtain mid where w2: "ok w2" "log w2 = log w1"
        "grows (outbox w1) mid" "outbox w2 = mid \<or>
          (\<exists>now u. uuid_in (en_MessageID e) = Some u \<and> outbox w2 = map (mark_row now u) mid)" by blast
      have inv2: "relay_inv mid (log w1)" by (rule relay_inv_grows [OF w2(3) inv1])
      have bo2: "batch_ok mid (e # es)" by (rule batch_ok_grows [OF w2(3) bo1])
      have q2: "q \<in> set mid" by (rule grows_mem [OF w2(3) q1(1)])
      have keys: "row_keys mid" by (rule grows_keys [OF w2(3)])
      then have u: "u = o_message_id q" if "uuid_in (en_MessageID e) = Some u" for u
        using that q q2 uuid_text_inj parseMessageID_length
        by (auto simp: uuid_in_def entry_of_def row_keys_def list_all_iff split: option.splits if_splits)
      have logged: "o_room_seq q \<in> set (room_log (log w1) (o_room_id q))"
        using w1 Inr False q(3) validateEntry_seq [of e] by (auto simp: record_of_def entry_of_def)
      have "relay_inv (outbox w2) (log w2) \<and> batch_ok (outbox w2) es"
        using w2 inv2 u relay_inv_mark [OF inv2 q2 logged] bo2 batch_ok_mark [OF bo2 keys q2 q(3)]
        by (auto simp: batch_ok_def)
      moreover have "\<exists>errs'. process_entries api c es errs' w2 = (out, w')"
        using Cons.prems(1) False pub Inr mark by (auto split: option.splits)
      ultimately show ?thesis using Cons.IH w2(1) by blast
    qed
  qed
qed simp

lemma processBatch_inv:
  assumes "relay_inv (outbox w) (log w)" and "ok w"
  shows "ok (snd (processBatch api c w)) \<and>
    relay_inv (outbox (snd (processBatch api c w))) (log (snd (processBatch api c w)))"
proof -
  obtain found w1 where np: "api_next_pending api (rc_BatchSize c) w = (found, w1)" by fastforce
  note w1 = next_pending_effect [OF np assms(2)]
  then have inv: "relay_inv (outbox w1) (log w1)" using assms(1) relay_inv_grows by auto
  show ?thesis
  proof (cases found)
    case (Inl e)
    with np w1 inv show ?thesis by (simp add: processBatch_def)
  next
    case (Inr es)
    obtain out w' where pe: "process_entries api c es [] w1 = (out, w')" by fastforce
    with process_entries_inv [OF pe] inv w1 np Inr show ?thesis by (simp add: processBatch_def)
  qed
qed

lemma relay_Run_inv:
  "\<lbrakk>relay_inv (outbox w) (log w); ok w\<rbrakk> \<Longrightarrow> ok (snd (relay_Run n api c w)) \<and>
     relay_inv (outbox (snd (relay_Run n api c w))) (log (snd (relay_Run n api c w)))"
proof (induction n arbitrary: w)
  case (Suc n)
  obtain stop w1 where wait: "api_wait api (rc_PollInterval c) (snd (processBatch api c w)) = (stop, w1)"
    by fastforce
  note pb = processBatch_inv [OF Suc.prems, of c]
  note w1 = wait_effect [OF wait pb [THEN conjunct1]]
  then have "relay_inv (outbox w1) (log w1)" using pb relay_inv_grows by auto
  with Suc wait w1 show ?case by (cases stop) auto
qed simp

end

end
