(* ===== verification/Message_Props.thy ===== *)
theory Message_Props
  imports Message_Store
begin

text \<open>
  The properties of the message store, over one call of \<^const>\<open>Accept\<close> and over sequences of calls,
  and a first accepted message on which they are evaluated.
\<close>

subsection \<open>A first message\<close>

text \<open>A concrete environment in which every call succeeds, and the first message it accepts.\<close>

definition sample_time :: gotime where
  "sample_time = \<lparr>t_year = 2026, t_month = 1, t_day = 2, t_hour = 3, t_minute = 4, t_second = 5,
                  t_nano = 0, t_offset = 0\<rparr>"

definition sample_env :: accept_env where
  "sample_env = \<lparr>outcome_of = (\<lambda>_. Done), rand16 = Some (map of_nat [0..<16]), now_utc = sample_time,
                jsonb_in = Some, tstz = (\<lambda>t. t)\<rparr>"

definition sample_request :: SendRequest where
  "sample_request = \<lparr>req_Type = ''send'', req_Version = 1, req_ClientMessageID = ''k1'',
                    req_RoomID = ''general'', req_Payload = ''{}''\<rparr>"

definition sample_id :: uuid where
  "sample_id = [0, 1, 2, 3, 4, 5, 0x46, 7, 0x88, 9, 10, 11, 12, 13, 14, 15]"

definition sample_event :: Event where
  "sample_event = \<lparr>ev_Version = 1, ev_MessageID = uuid_text sample_id, ev_ClientMessageID = ''k1'',
                   ev_RoomID = ''general'', ev_RoomSeq = 1, ev_CreatedAt = sample_time,
                   ev_Payload = ''{}''\<rparr>"

definition sample_text :: bytes where
  "sample_text = object [member ''version'' (show_int 1),
     member ''message_id'' (quote (uuid_text sample_id)),
     member ''client_message_id'' (quote ''k1''), member ''room_id'' (quote ''general''),
     member ''room_seq'' (show_int 1), member ''created_at'' (quote ''2026-01-02T03:04:05Z''),
     member ''payload'' ''{}'']"

definition sample_row :: message_row where
  "sample_row = \<lparr>m_message_id = sample_id, m_client_id = ''alice'', m_client_message_id = ''k1'',
     m_room_id = ''general'', m_room_seq = 1, m_created_at = sample_time, m_payload = ''{}''\<rparr>"

definition sample_outbox :: outbox_row where
  "sample_outbox = \<lparr>o_message_id = sample_id, o_room_id = ''general'', o_room_seq = 1,
     o_event = sample_text, o_created_at = sample_time, o_published_at = None\<rparr>"

definition sample_db :: msgdb where
  "sample_db = committed empty_db ''general'' sample_row sample_outbox"

lemma sample_wf: "wf_env sample_env"
  by (simp add: wf_env_def sample_env_def)

lemma sample_valid: "SendRequest_Validate sample_request = None" "\<not> blank ''alice''"
  "Event_Validate sample_event = None"
  by code_simp+

lemma sample_newMessageID: "newMessageID (rand16 sample_env) = Some (uuid_text sample_id)"
  by code_simp

lemma sample_parse: "parseMessageID (uuid_text sample_id) = Some sample_id"
  by (simp add: parse_uuid_text sample_id_def)

lemma sample_format: "format_rfc3339 sample_time = ''2026-01-02T03:04:05Z''"
  by (simp add: format_rfc3339_def sample_time_def pad_numeral pad_1 digit_char_def char_of_def format_offset_def bit_0)

lemma sample_quote: "quote ''2026-01-02T03:04:05Z'' = CHR 0x22 # ''2026-01-02T03:04:05Z'' @ [CHR 0x22]"
  by code_simp

lemma sample_raw: "marshal_raw ''{}'' = Some ''{}''"
  by code_simp

lemma sample_marshal: "marshal_Event sample_event = Some sample_text"
  by (simp add: marshal_Event_def sample_event_def marshal_time_def sample_format sample_raw
      sample_text_def sample_quote) (simp add: sample_time_def)

lemma sample_parse_time: "parse_rfc3339 ''2026-01-02T03:04:05Z'' = Some sample_time"
  using parse_format_rfc3339 [of sample_time] by (simp add: sample_format) (simp add: valid_time_def sample_time_def days_in_month_def)

lemma sample_document:
  "parse_document sample_text = Some (Object [(''version'', show_int 1),
     (''message_id'', quote (uuid_text sample_id)), (''client_message_id'', quote ''k1''),
     (''room_id'', quote ''general''), (''room_seq'', show_int 1),
     (''created_at'', quote ''2026-01-02T03:04:05Z''), (''payload'', ''{}'')])"
  by code_simp

lemma sample_fields:
  "decode_string [] (quote (uuid_text sample_id)) = Some (uuid_text sample_id)"
  "decode_string [] (quote ''k1'') = Some ''k1''"
  "decode_string [] (quote ''general'') = Some ''general''"
  "decode_int 0 (show_int 1) = Some 1" "decode_raw [] ''{}'' = Some ''{}''"
  by code_simp+

lemma sample_decode_time: "decode_time zero_time (quote ''2026-01-02T03:04:05Z'') = Some sample_time"
  by (simp add: sample_quote decode_time_def is_null_def sample_parse_time)

lemma sample_unmarshal: "unmarshal_Event sample_text = Some sample_event"
  by (simp add: unmarshal_Event_def unmarshal_def sample_document decode_Event_def field_def
      Event_field_values sample_fields sample_decode_time sample_event_def)

lemma sample_check: "event_check sample_text"
proof -
  have "show_int 1 = ''1''" by code_simp
  then show ?thesis by (simp add: event_check_def sample_document)
qed

lemma sample_accept: "Accept sample_env empty_db ''alice'' sample_request = (Inr sample_event, sample_db)"
proof -
  have nonempty: "btrim_nonempty ''general''" "btrim_nonempty ''alice''" "btrim_nonempty ''k1''"
    by code_simp+
  show ?thesis
    using sample_valid sample_newMessageID sample_parse sample_marshal sample_check nonempty
    by (simp add: Accept_def accept_tx_def accept_insert_def findEvent_def allocate_seq_def run_sql_def
        last_seq_def empty_db_def sample_env_def sample_request_def insert_message_def insert_outbox_def
        Let_def Version_def sample_event_def sample_db_def committed_def sample_row_def sample_outbox_def)
qed

subsection \<open>Sequences of calls\<close>

type_synonym accept_call = "accept_env \<times> string \<times> SendRequest"

definition run_accepts :: "accept_call list \<Rightarrow> msgdb \<Rightarrow> msgdb" where
  "run_accepts calls db = fold (\<lambda>(env, cl, req) d. snd (Accept env d cl req)) calls db"

definition wf_calls :: "accept_call list \<Rightarrow> bool" where
  "wf_calls calls \<longleftrightarrow> list_all (\<lambda>(env, _, _). wf_env env) calls"

lemma run_accepts_keeps:
  assumes "wf_calls calls" and "store_inv db"
  shows "store_inv (run_accepts calls db) \<and> set (messages db) \<subseteq> set (messages (run_accepts calls db))"
  using assms
proof (induction calls arbitrary: db)
  case (Cons c calls)
  obtain env cl req where c: "c = (env, cl, req)" by (cases c)
  let ?d = "snd (Accept env db cl req)"
  have spec: "accept_spec db cl req (fst (Accept env db cl req)) ?d"
    using Cons.prems c by (intro Accept_refines) (simp add: wf_calls_def)
  have "store_inv ?d" and "set (messages db) \<subseteq> set (messages ?d)"
    using accept_spec_inv [OF spec Cons.prems(2)] accept_spec_grows [OF spec] .
  moreover have "wf_calls calls" using Cons.prems by (simp add: wf_calls_def)
  ultimately show ?case
    using Cons.IH [of ?d] c by (auto simp: run_accepts_def)
qed (simp add: run_accepts_def)

lemmas run_accepts_inv = run_accepts_keeps [THEN conjunct1]
lemmas run_accepts_grows = run_accepts_keeps [THEN conjunct2]

subsection \<open>Properties\<close>

text \<open>C1: a call of \<open>Accept\<close> does one of four things: it answers an error and leaves the database as it
  was; it answers the message stored under the client's key; it answers a valid event whose message
  and unpublished outbox row, with the next number of the room, are added together; or it reports
  a failed commit although these rows were added.\<close>

theorem Accept_implements_spec:
  "wf_env env \<Longrightarrow> accept_spec db cl req (fst (Accept env db cl req)) (snd (Accept env db cl req))"
  by (rule Accept_refines)

theorem Accept_implements_spec_witness:
  "accept_spec empty_db ''alice'' sample_request (Inr sample_event) sample_db"
  using Accept_implements_spec [OF sample_wf, of empty_db "''alice''" sample_request]
  by (simp add: sample_accept)

text \<open>C3: after any sequence of calls on an empty store, whatever their outcomes, the numbers of every
  room run from 1 without gap or repetition in insertion order, message identifiers and the keys
  (client, client message id) are unique, and the outbox holds exactly the messages, in order.\<close>

theorem store_gapless:
  assumes "wf_calls calls" and "db = run_accepts calls empty_db"
  shows "(\<forall>r. room_seqs (messages db) r = [1..int (length (room_seqs (messages db) r))]) \<and>
    distinct (map m_message_id (messages db)) \<and>
    distinct (map (\<lambda>m. (m_client_id m, m_client_message_id m)) (messages db)) \<and>
    map (\<lambda>m. (m_message_id m, m_room_id m, m_room_seq m)) (messages db)
      = map (\<lambda>r. (o_message_id r, o_room_id r, o_room_seq r)) (message_outbox db)"
  using run_accepts_inv [OF assms(1) store_inv_empty] unfolding assms(2) store_inv_def by auto

theorem store_gapless_witness:
  "room_seqs (messages sample_db) ''general'' = [1] \<and> distinct (map m_message_id (messages sample_db))"
  using store_gapless [of "[(sample_env, ''alice'', sample_request)]" sample_db]
  by (simp add: wf_calls_def run_accepts_def sample_wf sample_accept)
    (simp add: sample_db_def sample_row_def empty_db_def room_seqs_def)

text \<open>C4: once a request is accepted, a repetition of its key by the same client, after any further calls,
  is answered with the same message identifier, room and number, and changes nothing.\<close>

theorem Accept_idempotent:
  assumes "store_inv db" and "wf_env env" and "fst (Accept env db cl req) = Inr ev"
    and "wf_calls calls" and "later = run_accepts calls (snd (Accept env db cl req))"
    and "SendRequest_Validate again = None" and "req_ClientMessageID again = req_ClientMessageID req"
    and "outcome_of env2 FindPool = Done"
  shows "\<exists>ev2. Accept env2 later cl again = (Inr ev2, later) \<and> ev_MessageID ev2 = ev_MessageID ev \<and>
    ev_RoomID ev2 = ev_RoomID ev \<and> ev_RoomSeq ev2 = ev_RoomSeq ev \<and>
    ev_ClientMessageID ev2 = ev_ClientMessageID ev"
proof -
  let ?d = "snd (Accept env db cl req)"
  have spec: "accept_spec db cl req (Inr ev) ?d"
    using Accept_refines [OF assms(2), of db cl req] assms(3) by simp
  from accept_spec_Inr_row [OF spec] obtain m where m: "m \<in> set (messages ?d)"
    "same_key cl (req_ClientMessageID req) m" and ev: "ev_MessageID ev = uuid_text (m_message_id m)"
    "ev_ClientMessageID ev = m_client_message_id m" "ev_RoomID ev = m_room_id m"
    "ev_RoomSeq ev = m_room_seq m"
    by blast
  have "store_inv ?d" by (rule accept_spec_inv [OF spec assms(1)])
  from run_accepts_inv [OF assms(4) this] run_accepts_grows [OF assms(4) this] m(1)
  have "store_inv later" "m \<in> set (messages later)" unfolding assms(5) by auto
  then have "Accept env2 later cl again = (Inr (event_of_row m), later)"
    using Accept_stored [of later m cl again env2] Accept_Inr_guard [OF assms(3)] m(2) assms(6-8) by simp
  with ev show ?thesis by (simp add: event_of_row_def)
qed

theorem Accept_idempotent_witness:
  "\<exists>ev2. Accept sample_env sample_db ''alice'' (sample_request\<lparr>req_RoomID := ''other''\<rparr>) = (Inr ev2, sample_db) \<and>
    ev_MessageID ev2 = ev_MessageID sample_event \<and> ev_RoomID ev2 = ev_RoomID sample_event \<and>
    ev_RoomSeq ev2 = ev_RoomSeq sample_event \<and> ev_ClientMessageID ev2 = ev_ClientMessageID sample_event"
proof -
  have "SendRequest_Validate (sample_request\<lparr>req_RoomID := ''other''\<rparr>) = None" by code_simp
  then show ?thesis
    using Accept_idempotent [OF store_inv_empty sample_wf, of "''alice''" sample_request sample_event
        "[]" sample_db "sample_request\<lparr>req_RoomID := ''other''\<rparr>" sample_env]
    by (simp add: sample_accept wf_calls_def run_accepts_def) (simp add: sample_env_def)
qed

text \<open>A request that is answered with an error leaves the database as it was, unless the error is the
  report of a commit whose acknowledgement was lost.\<close>

lemma Accept_error_atomic:
  assumes "fst (Accept env db cl req) = Inl e"
  shows "snd (Accept env db cl req) = db \<or> e = CommitFailed \<and> outcome_of env CommitTx = BrokenAfter"
  using assms
  by (auto simp: Accept_def accept_tx_def accept_insert_def Let_def
      split: if_splits option.splits found.splits sum.splits outcome.splits)

theorem Accept_error_atomic_witness:
  "snd (Accept sample_env sample_db '' '' sample_request) = sample_db \<or>
    StoreClientIDRequired = CommitFailed \<and> outcome_of sample_env CommitTx = BrokenAfter"
proof (rule Accept_error_atomic)
  have "blank '' ''" by code_simp
  then show "fst (Accept sample_env sample_db '' '' sample_request) = Inl StoreClientIDRequired"
    by (simp add: Accept_def)
qed

text \<open>C7: when the acknowledgement of the commit was lost, the client's retry finds the message that was
  stored: it is answered with the number the room had next, and nothing is stored twice.\<close>

theorem Accept_retry_after_lost_ack:
  assumes "store_inv db" and "wf_env env" and "fst (Accept env db cl req) = Inl e"
    and "snd (Accept env db cl req) = db'" and "db' \<noteq> db" and "outcome_of env2 FindPool = Done"
  shows "\<exists>ev. Accept env2 db' cl req = (Inr ev, db') \<and> ev_RoomID ev = req_RoomID req \<and>
    ev_RoomSeq ev = last_seq db (req_RoomID req) + 1 \<and> length (messages db') = length (messages db) + 1"
proof -
  have "accept_spec db cl req (Inl e) db'"
    using Accept_refines [OF assms(2), of db cl req] assms(3,4) by simp
  then obtain m r where fr: "fresh_rows db cl req m r" and db': "db' = committed db (req_RoomID req) m r"
    using assms(5) by (cases rule: accept_spec.cases) auto
  have guard: "\<not> blank cl" "SendRequest_Validate req = None"
    using assms(3-5) by (auto simp: Accept_def split: if_splits option.splits)
  have "store_inv db'" unfolding db' by (rule store_inv_committed [OF assms(1) fr])
  moreover have "m \<in> set (messages db')" "same_key cl (req_ClientMessageID req) m"
    using fr db' by (auto simp: fresh_rows_def same_key_def)
  ultimately have "Accept env2 db' cl req = (Inr (event_of_row m), db')"
    using Accept_stored guard assms(6) by blast
  with fr db' show ?thesis by (simp add: event_of_row_def fresh_rows_def)
qed

text \<open>The sample environment with a commit whose acknowledgement is lost.\<close>

definition lossy_env :: accept_env where
  "lossy_env = sample_env\<lparr>outcome_of := (\<lambda>c. if c = CommitTx then BrokenAfter else Done)\<rparr>"

lemma lossy_accept: "Accept lossy_env empty_db ''alice'' sample_request = (Inl CommitFailed, sample_db)"
proof -
  have nonempty: "btrim_nonempty ''general''" "btrim_nonempty ''alice''" "btrim_nonempty ''k1''"
    by code_simp+
  show ?thesis
    using sample_valid sample_newMessageID sample_parse sample_marshal sample_check nonempty
    by (simp add: Accept_def accept_tx_def accept_insert_def findEvent_def allocate_seq_def run_sql_def
        last_seq_def empty_db_def sample_env_def sample_request_def insert_message_def insert_outbox_def
        Let_def Version_def sample_event_def sample_db_def committed_def sample_row_def sample_outbox_def
        lossy_env_def)
qed

theorem Accept_retry_after_lost_ack_witness:
  "\<exists>ev. Accept sample_env sample_db ''alice'' sample_request = (Inr ev, sample_db) \<and>
    ev_RoomID ev = ''general'' \<and> ev_RoomSeq ev = 1 \<and> length (messages sample_db) = 1"
proof -
  have "wf_env lossy_env" "sample_db \<noteq> empty_db" "outcome_of sample_env FindPool = Done"
    using sample_wf by (simp_all add: lossy_env_def wf_env_def sample_db_def committed_def empty_db_def
        sample_env_def)
  then show ?thesis
    using Accept_retry_after_lost_ack [of empty_db lossy_env "''alice''" sample_request CommitFailed
        sample_db sample_env]
    by (simp add: store_inv_empty lossy_accept) (simp add: sample_request_def last_seq_def empty_db_def)
qed

text \<open>C11: a message identifier made from 16 random bytes is the canonical text of a version 4 UUID: 36
  characters that the parser reads back, with the version and variant bits set.\<close>

theorem newMessageID_canonical:
  assumes "length v = 16" and "newMessageID (Some v) = Some s"
  shows "\<exists>u. parseMessageID s = Some u \<and> uuid_text u = s \<and> length s = 36 \<and>
    u ! 6 AND 0xF0 = 0x40 \<and> u ! 8 AND 0xC0 = 0x80 \<and> (\<forall>i < 16. i \<noteq> 6 \<and> i \<noteq> 8 \<longrightarrow> u ! i = v ! i)"
proof -
  define u where "u = v[6 := (v ! 6 AND 0x0f) OR 0x40, 8 := (v ! 8 AND 0x3f) OR 0x80]"
  have len: "length u = 16" and s: "s = uuid_text u"
    using assms by (auto simp: u_def newMessageID_def Let_def)
  have bits: "(b AND 0x0f OR 0x40) AND 0xF0 = 0x40" "(b AND 0x3f OR 0x80) AND 0xC0 = 0x80" for b :: "8 word"
    by (simp_all add: bit.conj_disj_distrib2 and.assoc)
  have "length s = 36" by (simp add: s uuid_text_def len)
  then show ?thesis
    using parse_uuid_text [OF len] s assms(1) by (auto simp: u_def bits)
qed

theorem newMessageID_canonical_witness:
  "\<exists>u. parseMessageID (uuid_text sample_id) = Some u \<and> uuid_text u = uuid_text sample_id \<and>
    length (uuid_text sample_id) = 36 \<and> u ! 6 AND 0xF0 = 0x40 \<and> u ! 8 AND 0xC0 = 0x80 \<and>
    (\<forall>i < 16. i \<noteq> 6 \<and> i \<noteq> 8 \<longrightarrow> u ! i = map of_nat [0..<16] ! i)"
  using newMessageID_canonical [of "map of_nat [0..<16]"] sample_newMessageID
  by (simp add: sample_env_def)

text \<open>C6: on a healthy database, a valid request under a new key is accepted: the answer is the event
  with the room's next number, and the message and its unpublished outbox row are in the database.
  The random identifier must be new, the clock sane, and PostgreSQL must take the two texts as
  \<^verbatim>\<open>jsonb\<close> and find the version in the event.\<close>

theorem Accept_succeeds:
  assumes valid: "\<not> blank cl" "SendRequest_Validate req = None"
    and healthy: "\<And>c. outcome_of env c = Done"
    and inv: "store_inv db" and new: "\<not> (\<exists>x \<in> set (messages db). same_key cl (req_ClientMessageID req) x)"
    and seq: "last_seq db (req_RoomID req) < int64_max"
    and id: "newMessageID (rand16 env) = Some (uuid_text u)" "length u = 16"
      "u \<notin> m_message_id ` set (messages db)"
    and event: "ev = \<lparr>ev_Version = Version, ev_MessageID = uuid_text u,
      ev_ClientMessageID = req_ClientMessageID req, ev_RoomID = req_RoomID req,
      ev_RoomSeq = last_seq db (req_RoomID req) + 1, ev_CreatedAt = now_utc env,
      ev_Payload = req_Payload req\<rparr>"
    and clock: "\<not> IsZero (now_utc env)" "marshal_Event ev = Some text"
    and jsonb: "jsonb_in env (req_Payload req) = Some p" "jsonb_in env text = Some t" "event_check t"
  shows "\<exists>m r. Accept env db cl req = (Inr ev, committed db (req_RoomID req) m r) \<and>
    event_of_row m = ev\<lparr>ev_CreatedAt := tstz env (now_utc env), ev_Payload := p\<rparr> \<and>
    o_event r = t \<and> o_published_at r = None \<and> o_message_id r = u"
proof -
  have seq1: "1 \<le> last_seq db (req_RoomID req) + 1" "last_seq db (req_RoomID req) + 1 \<le> int64_max"
    using inv seq by (auto simp: store_inv_def)
  have texts: "btrim_nonempty cl" "btrim_nonempty (req_ClientMessageID req)" "btrim_nonempty (req_RoomID req)"
    using valid by (auto simp: SendRequest_valid_iff intro: not_blank_btrim)
  have ev: "Event_Validate ev = None"
    using valid seq1 clock uuid_text_not_blank [of u] by (simp add: event Event_valid_iff SendRequest_valid_iff)
  have none: "find (same_key cl (req_ClientMessageID req)) (messages db) = None"
    using new by (auto simp: find_None_iff)
  define m where "m = \<lparr>m_message_id = u, m_client_id = cl, m_client_message_id = req_ClientMessageID req,
    m_room_id = req_RoomID req, m_room_seq = last_seq db (req_RoomID req) + 1,
    m_created_at = tstz env (now_utc env), m_payload = p\<rparr>"
  define r where "r = \<lparr>o_message_id = u, o_room_id = req_RoomID req,
    o_room_seq = last_seq db (req_RoomID req) + 1, o_event = t,
    o_created_at = tstz env (now_utc env), o_published_at = None\<rparr>"
  have "Accept env db cl req = (Inr ev, committed db (req_RoomID req) m r)"
    using valid texts healthy none seq1 id jsonb ev clock(2) new
      parse_uuid_text [OF id(2)] store_inv_next_free [OF inv, of "req_RoomID req"] store_inv_outbox_ids [OF inv]
    by (simp add: Accept_def accept_tx_def accept_insert_def findEvent_def allocate_seq_def Let_def event
        insert_message_def insert_outbox_def committed_def m_def r_def)
  moreover have "event_of_row m = ev\<lparr>ev_CreatedAt := tstz env (now_utc env), ev_Payload := p\<rparr>"
    "o_event r = t" "o_published_at r = None" "o_message_id r = u"
    by (simp_all add: m_def r_def event event_of_row_def)
  ultimately show ?thesis by blast
qed

theorem Accept_succeeds_witness:
  "\<exists>m r. Accept sample_env empty_db ''alice'' sample_request = (Inr sample_event, committed empty_db ''general'' m r) \<and>
    event_of_row m = sample_event \<and> o_event r = sample_text \<and> o_published_at r = None \<and> o_message_id r = sample_id"
proof -
  have ev: "sample_event = \<lparr>ev_Version = Version, ev_MessageID = uuid_text sample_id,
      ev_ClientMessageID = req_ClientMessageID sample_request, ev_RoomID = req_RoomID sample_request,
      ev_RoomSeq = last_seq empty_db (req_RoomID sample_request) + 1, ev_CreatedAt = now_utc sample_env,
      ev_Payload = req_Payload sample_request\<rparr>"
    by (simp add: sample_event_def sample_env_def sample_request_def Version_def last_seq_def empty_db_def)
  have "\<not> IsZero (now_utc sample_env)" by code_simp
  then show ?thesis
    using Accept_succeeds [OF sample_valid(2,1) _ store_inv_empty _ _ sample_newMessageID _ _ ev _ sample_marshal
        _ _ sample_check, of "req_Payload sample_request"]
    by (simp add: sample_env_def empty_db_def last_seq_def sample_id_def sample_event_def)
      (simp add: sample_request_def)
qed

end
