(* ===== verification/Relay_World.thy ===== *)
theory Relay_World
  imports Outbox_Relay Message_Props
begin

text \<open>
  The world the relay runs in: the database of the message store, the Kafka log, and a schedule that
  says, for each call of the relay, which requests the message store handles before it and whether
  the call fails, fails after it took effect, or finds the context cancelled. The calls are the
  statements of \<^verbatim>\<open>repository.go\<close>, \<^verbatim>\<open>producer.go\<close> and the timers of \<^verbatim>\<open>relay.go\<close> in this world.
\<close>

datatype fault = NoFault | Fail | FailAfter | Cancel

record relay_world =
  rw_db :: msgdb
  rw_log :: "kafka_record list"
  rw_sched :: "(accept_call list \<times> fault) list"
  rw_cancelled :: bool
  rw_now :: gotime

abbreviation rw_outbox :: "relay_world \<Rightarrow> outbox_row list" where
  "rw_outbox w \<equiv> message_outbox (rw_db w)"

text \<open>The next entry of the schedule: the requests are handled, then the call meets its fault.\<close>

definition tick :: "relay_world \<Rightarrow> fault \<times> relay_world" where
  "tick w =
     (case rw_sched w of
        [] \<Rightarrow> (NoFault, w)
      | (calls, f) # rest \<Rightarrow>
          (f, w\<lparr>rw_db := run_accepts calls (rw_db w), rw_sched := rest,
                rw_cancelled := rw_cancelled w \<or> f = Cancel\<rparr>))"

text \<open>\<^verbatim>\<open>Producer.Publish\<close>, over the client library's \<^verbatim>\<open>SendMessage\<close>.\<close>

definition producer_Publish ::
  "('w \<Rightarrow> bool) \<Rightarrow> (kafka_record \<Rightarrow> 'w \<Rightarrow> (int \<times> int) option \<times> 'w)
     \<Rightarrow> string \<Rightarrow> string \<Rightarrow> bytes \<Rightarrow> 'w \<Rightarrow> (relay_error + int \<times> int) \<times> 'w" where
  "producer_Publish ctx_err SendMessage topic roomID event w =
     (if ctx_err w then (Inl CtxErr, w)
      else case SendMessage \<lparr>k_topic = topic, k_key = roomID, k_value = event\<rparr> w of
        (None, w1) \<Rightarrow> (Inl SendFailed, w1)
      | (Some po, w1) \<Rightarrow> (Inr po, w1))"

definition world_send :: "kafka_record \<Rightarrow> relay_world \<Rightarrow> (int \<times> int) option \<times> relay_world" where
  "world_send k w =
     (case tick w of (f, w1) \<Rightarrow>
        (let sent = w1\<lparr>rw_log := rw_log w1 @ [k]\<rparr> in
         if f = Fail then (None, w1)
         else if f = FailAfter then (None, sent)
         else (Some (0, int (length (rw_log w1))), sent)))"

definition world_next_pending ::
  "(string \<Rightarrow> string \<Rightarrow> bool) \<Rightarrow> int \<Rightarrow> relay_world \<Rightarrow> (relay_error + Entry list) \<times> relay_world" where
  "world_next_pending coll limit w =
     (case tick w of (f, w1) \<Rightarrow>
        if f = Fail \<or> f = FailAfter \<or> rw_cancelled w1 then (Inl (RepoError QueryFailed), w1)
        else (Inr (NextPending coll (rw_outbox w1) limit), w1))"

definition world_mark_published :: "string \<Rightarrow> relay_world \<Rightarrow> relay_error option \<times> relay_world" where
  "world_mark_published messageID w =
     (case tick w of (f, w1) \<Rightarrow>
        if f = Fail \<or> rw_cancelled w1 then (Some (RepoError QueryFailed), w1)
        else case MarkPublished (rw_now w1) (rw_outbox w1) messageID of
          (err, rows) \<Rightarrow>
            (if f = FailAfter then Some (RepoError QueryFailed) else map_option RepoError err,
             w1\<lparr>rw_db := (rw_db w1)\<lparr>message_outbox := rows\<rparr>\<rparr>))"

text \<open>
  A timer against the cancelled context: \<open>FailAfter\<close> lets the timer win although the context is done.
\<close>

definition world_wait :: "int \<Rightarrow> relay_world \<Rightarrow> bool \<times> relay_world" where
  "world_wait d w = (case tick w of (f, w1) \<Rightarrow> (rw_cancelled w1 \<and> f \<noteq> FailAfter, w1))"

definition world_api :: "(string \<Rightarrow> string \<Rightarrow> bool) \<Rightarrow> relay_world relay_api" where
  "world_api coll =
     \<lparr>api_ctx_err = rw_cancelled, api_next_pending = world_next_pending coll,
      api_mark_published = world_mark_published,
      api_publish = producer_Publish rw_cancelled world_send, api_wait = world_wait\<rparr>"

definition start_world :: "msgdb \<Rightarrow> (accept_call list \<times> fault) list \<Rightarrow> relay_world" where
  "start_world db sched = \<lparr>rw_db = db, rw_log = [], rw_sched = sched, rw_cancelled = False,
                           rw_now = sample_time\<rparr>"

subsection \<open>The world keeps the contract\<close>

definition world_ok :: "relay_world \<Rightarrow> bool" where
  "world_ok w \<longleftrightarrow> store_inv (rw_db w) \<and> list_all (\<lambda>(calls, f). wf_calls calls) (rw_sched w)"

lemma distinct_room_pairs:
  "(\<And>r. distinct (room_seqs ms r)) \<Longrightarrow> distinct (map (\<lambda>m. (m_room_id m, m_room_seq m)) ms)"
proof (induction ms)
  case (Cons m ms)
  have "distinct (room_seqs ms r)" for r
    using Cons.prems [of r] by (simp add: room_seqs_def split: if_splits)
  moreover have "m_room_seq m \<notin> set (room_seqs ms (m_room_id m))"
    using Cons.prems [of "m_room_id m"] by (simp add: room_seqs_def)
  ultimately show ?case using Cons.IH by (auto simp: room_seqs_def)
qed simp

lemma store_inv_row_keys:
  assumes "store_inv db"
  shows "row_keys (message_outbox db)"
proof -
  have eq: "map (\<lambda>r. (o_message_id r, o_room_id r, o_room_seq r)) (message_outbox db)
    = map (\<lambda>m. (m_message_id m, m_room_id m, m_room_seq m)) (messages db)"
    using assms by (simp add: store_inv_def)
  have ids: "map o_message_id (message_outbox db) = map m_message_id (messages db)"
    using arg_cong [OF eq, of "map fst"] by (simp add: comp_def)
  have pairs: "map (\<lambda>r. (o_room_id r, o_room_seq r)) (message_outbox db)
    = map (\<lambda>m. (m_room_id m, m_room_seq m)) (messages db)"
    using arg_cong [OF eq, of "map snd"] by (simp add: comp_def)
  have "distinct (map (\<lambda>m. (m_room_id m, m_room_seq m)) (messages db))"
    using assms by (intro distinct_room_pairs) (simp add: store_inv_def)
  moreover have "list_all (\<lambda>r. length (o_message_id r) = 16) (message_outbox db)"
    using arg_cong [OF ids, of "list_all (\<lambda>u. length u = 16)"] assms
    by (simp add: store_inv_def list.pred_map comp_def)
  ultimately show ?thesis using assms ids pairs by (simp add: row_keys_def store_inv_def)
qed

lemma Accept_grows:
  assumes "wf_env env" and "store_inv db"
  shows "grows (message_outbox db) (message_outbox (snd (Accept env db cl req)))"
proof -
  have spec: "accept_spec db cl req (fst (Accept env db cl req)) (snd (Accept env db cl req))"
    by (rule Accept_refines [OF assms(1)])
  have keys: "row_keys (message_outbox (snd (Accept env db cl req)))"
    by (rule store_inv_row_keys [OF Accept_inv [OF assms]])
  have seq: "o_room_seq x \<le> last_seq db r" if "x \<in> set (message_outbox db)" "o_room_id x = r" for x r
    using store_inv_outbox_rows [OF assms(2)] store_inv_seq_le [OF assms(2)] that
    by (force simp: set_eq_iff image_iff)
  show ?thesis
    using spec keys seq by (cases rule: accept_spec.cases)
      (auto simp: grows_def fresh_rows_def pending_def intro!: zle_add1_eq_le [THEN iffD2])
qed


lemma run_accepts_outbox_grows:
  "\<lbrakk>wf_calls calls; store_inv db\<rbrakk> \<Longrightarrow> grows (message_outbox db) (message_outbox (run_accepts calls db))"
proof (induction calls arbitrary: db)
  case (Cons c calls)
  obtain env cl req where c: "c = (env, cl, req)" by (cases c)
  let ?d = "snd (Accept env db cl req)"
  have wf: "wf_env env" "wf_calls calls" using Cons.prems c by (auto simp: wf_calls_def)
  have "grows (message_outbox db) (message_outbox ?d)" "store_inv ?d"
    using Accept_grows Accept_inv wf Cons.prems by blast+
  with Cons.IH [OF wf(2)] grows_trans show ?case by (auto simp: run_accepts_def c)
qed (simp add: run_accepts_def grows_refl store_inv_row_keys)

lemma tick_ok:
  assumes "tick w = (f, w1)" and "world_ok w"
  shows "world_ok w1 \<and> grows (rw_outbox w) (rw_outbox w1) \<and> rw_log w1 = rw_log w"
  using assms run_accepts_outbox_grows run_accepts_inv
  by (auto simp: tick_def world_ok_def grows_refl store_inv_row_keys split: list.splits prod.splits)

lemma store_inv_mark:
  "store_inv db \<Longrightarrow> store_inv (db\<lparr>message_outbox := map (mark_row now u) (message_outbox db)\<rparr>)"
  by (simp add: store_inv_def last_seq_def comp_def)

lemma world_ok_mark:
  "world_ok w \<Longrightarrow> world_ok (w\<lparr>rw_db := (rw_db w)\<lparr>message_outbox := map (mark_row now u) (rw_outbox w)\<rparr>\<rparr>)"
  by (simp add: world_ok_def store_inv_mark)

lemma batch_ok_NextPending: "row_keys rows \<Longrightarrow> batch_ok rows (NextPending coll rows n)"
  by (auto simp: batch_ok_def NextPending_rooms_distinct elim: set_NextPending)

interpretation world: outbox_interface "world_api coll" rw_outbox rw_log world_ok
proof
  show "row_keys (rw_outbox w)" if "world_ok w" for w
    using that by (simp add: world_ok_def store_inv_row_keys)
  then have keys: "row_keys (rw_outbox w)" if "world_ok w" for w using that .
  fix w w' :: relay_world
  assume ok: "world_ok w"
  show "world_ok w' \<and> grows (rw_outbox w) (rw_outbox w') \<and> rw_log w' = rw_log w \<and>
      (\<forall>es. found = Inr es \<longrightarrow> batch_ok (rw_outbox w') es)"
    if "api_next_pending (world_api coll) n w = (found, w')" for n found
    using that tick_ok [OF _ ok] keys batch_ok_NextPending
    by (auto simp: world_api_def world_next_pending_def split: prod.splits if_splits)
  show "world_ok w' \<and> grows (rw_outbox w) (rw_outbox w') \<and> rw_log w' = rw_log w"
    if "api_wait (world_api coll) d w = (stop, w')" for d stop
    using that tick_ok [OF _ ok] by (auto simp: world_api_def world_wait_def split: prod.splits)
  show "world_ok w' \<and> grows (rw_outbox w) (rw_outbox w') \<and>
      (rw_log w' = rw_log w @ [\<lparr>k_topic = t, k_key = k, k_value = v\<rparr>] \<or>
       rw_log w' = rw_log w \<and> (\<exists>e. sent = Inl e))"
    if "api_publish (world_api coll) t k v w = (sent, w')" for t k v sent
  proof -
    obtain f w1 where "tick w = (f, w1)" by fastforce
    with tick_ok [OF this ok] that ok keys [OF ok] show ?thesis
      by (auto simp: world_api_def producer_Publish_def world_send_def Let_def world_ok_def grows_refl
          split: if_splits)
  qed
  show "world_ok w' \<and> rw_log w' = rw_log w \<and>
      (\<exists>mid. grows (rw_outbox w) mid \<and>
        (rw_outbox w' = mid \<or> (\<exists>now u. uuid_in i = Some u \<and> rw_outbox w' = map (mark_row now u) mid)))"
    if "api_mark_published (world_api coll) i w = (marked, w')" for i marked
  proof -
    obtain f w1 where t: "tick w = (f, w1)" by fastforce
    note w1 = tick_ok [OF t ok]
    show ?thesis
      using that t w1 world_ok_mark [OF w1 [THEN conjunct1]]
      by (auto simp: world_api_def world_mark_published_def MarkPublished_def Let_def
          split: if_splits option.splits intro!: exI [of _ "rw_outbox w1"])
  qed
qed


subsection \<open>What Kafka holds\<close>

lemma distinct_remdups_adj_sorted: "sorted xs \<Longrightarrow> distinct (remdups_adj xs)"
  for xs :: "'a::linorder list"
  by (induction xs rule: remdups_adj.induct) auto

lemma remdups_adj_sorted_upto:
  assumes "sorted xs" and "set xs = {1..p}"
  shows "remdups_adj xs = [1..p::int]"
proof (rule sorted_distinct_set_unique)
  show "distinct (remdups_adj xs)" using assms(1) by (rule distinct_remdups_adj_sorted)
qed (use assms in \<open>simp_all add: sorted_remdups_adj\<close>)

lemma outbox_seqs:
  assumes "store_inv db"
  shows "o_room_seq ` {q \<in> set (message_outbox db). o_room_id q = r} = {1..last_seq db r}"
proof -
  have "o_room_seq ` {q \<in> set (message_outbox db). o_room_id q = r}
    = {s. \<exists>i. (i, r, s) \<in> (\<lambda>q. (o_message_id q, o_room_id q, o_room_seq q)) ` set (message_outbox db)}"
    by force
  also have "\<dots> = {s. \<exists>i. (i, r, s) \<in> (\<lambda>m. (m_message_id m, m_room_id m, m_room_seq m)) ` set (messages db)}"
    by (simp add: store_inv_outbox_rows [OF assms])
  also have "\<dots> = set (room_seqs (messages db) r)" by (force simp: room_seqs_def)
  finally show ?thesis using assms by (simp add: store_inv_def)
qed

lemma relay_inv_in_order:
  assumes inv: "relay_inv (message_outbox db) log" and st: "store_inv db"
  shows "\<exists>p. 0 \<le> p \<and> p \<le> last_seq db r \<and> remdups_adj (room_log log r) = [1..p] \<and>
    (\<forall>q \<in> set (message_outbox db). o_room_id q = r \<longrightarrow>
       (\<not> pending q \<longrightarrow> o_room_seq q \<le> p) \<and> (o_room_seq q < p \<longrightarrow> \<not> pending q))"
proof -
  let ?L = "room_log log r" and ?Q = "{q \<in> set (message_outbox db). o_room_id q = r}"
  define p where "p = (if ?L = [] then 0 else Max (set ?L))"
  have sorted: "sorted ?L" and rows: "set ?L \<subseteq> o_room_seq ` ?Q"
    and pub: "\<And>q. \<lbrakk>q \<in> ?Q; \<not> pending q\<rbrakk> \<Longrightarrow> o_room_seq q \<in> set ?L"
    and pend: "\<And>q s. \<lbrakk>q \<in> ?Q; pending q; s \<in> set ?L\<rbrakk> \<Longrightarrow> s \<le> o_room_seq q"
    using inv unfolding relay_inv_def by (blast, force, blast, blast)
  have Q: "o_room_seq ` ?Q = {1..last_seq db r}" by (rule outbox_seqs [OF st])
  have le: "s \<le> p" if "s \<in> set ?L" for s using that by (auto simp: p_def)
  have pL: "p \<in> set ?L" if "?L \<noteq> []" using that by (simp add: p_def)
  have "t \<in> set ?L" if t: "1 \<le> t" "t \<le> p" for t
  proof -
    have ne: "?L \<noteq> []" using t by (auto simp: p_def)
    then have "p \<le> last_seq db r" using pL rows Q by auto
    then obtain q where q: "q \<in> ?Q" "o_room_seq q = t" using Q t by (metis (lifting) atLeastAtMost_iff imageE order_trans)
    show ?thesis
    proof (cases "pending q")
      case True
      then have "p = t" using pend [OF q(1) True pL [OF ne]] q t by simp
      then show ?thesis using pL [OF ne] by simp
    qed (use pub q in auto)
  qed
  then have "set ?L = {1..p}" using rows Q le by auto
  moreover have "0 \<le> p \<and> p \<le> last_seq db r"
  proof (cases "?L = []")
    case True
    then show ?thesis using st by (simp add: p_def store_inv_def)
  next
    case False
    then have "p \<in> {1..last_seq db r}" using pL rows Q by blast
    then show ?thesis by simp
  qed
  moreover have "(\<not> pending q \<longrightarrow> o_room_seq q \<le> p) \<and> (o_room_seq q < p \<longrightarrow> \<not> pending q)" if q: "q \<in> ?Q" for q
  proof -
    have "?L \<noteq> []" if "o_room_seq q < p" using that Q q by (force simp: p_def)
    then show ?thesis using pub [OF q] pend [OF q] le pL by force
  qed
  ultimately show ?thesis using remdups_adj_sorted_upto [OF sorted] by blast
qed

subsection \<open>Without faults the relay drains the outbox\<close>

definition quiet :: "relay_world \<Rightarrow> bool" where
  "quiet w \<longleftrightarrow> rw_sched w = [] \<and> \<not> rw_cancelled w"

definition npending :: "relay_world \<Rightarrow> nat" where
  "npending w = length (filter pending (rw_outbox w))"

text \<open>The records Kafka still lacks: one for each unpublished row, with the event's stored bytes.\<close>

definition pending_entries :: "relay_world \<Rightarrow> Entry multiset" where
  "pending_entries w = mset (map entry_of (filter pending (rw_outbox w)))"

definition pending_records :: "string \<Rightarrow> relay_world \<Rightarrow> kafka_record multiset" where
  "pending_records topic w = image_mset (record_of topic) (pending_entries w)"

lemma npending_entries: "npending w = size (pending_entries w)"
  unfolding npending_def pending_entries_def by (simp only: size_mset length_map)

lemma tick_quiet [simp]: "quiet w \<Longrightarrow> tick w = (NoFault, w)"
  by (simp add: quiet_def tick_def)

lemma publish_quiet:
  assumes "quiet w" "1 \<le> rc_MaxRetries c"
  shows "\<exists>po. publishWithRetry (world_api coll) c e w
    = (Inr po, w\<lparr>rw_log := rw_log w @ [record_of (rc_Topic c) e]\<rparr>)"
  using assms by (simp add: publishWithRetry_def publish_loop.simps world_api_def producer_Publish_def
      world_send_def record_of_def) (simp add: quiet_def)

lemma mset_filter_mark:
  "mset (map entry_of (filter pending (map (mark_row now u) rows)))
     + mset (map entry_of (filter (\<lambda>r. o_message_id r = u \<and> pending r) rows)) = mset (map entry_of (filter pending rows))"
  by (induction rows) auto

lemma one_row:
  assumes "row_keys rows" "q \<in> set rows" "pending q"
  shows "filter (\<lambda>r. o_message_id r = o_message_id q \<and> pending r) rows = [q]"
proof -
  have d: "distinct rows" and inj: "inj_on o_message_id (set rows)"
    using assms(1) by (auto simp: row_keys_def distinct_map)
  have set: "set (filter (\<lambda>r. o_message_id r = o_message_id q \<and> pending r) rows) = {q}"
    using assms(2,3) inj by (auto simp: inj_on_def)
  have "distinct (filter (\<lambda>r. o_message_id r = o_message_id q \<and> pending r) rows)" using d by simp
  then have "mset (filter (\<lambda>r. o_message_id r = o_message_id q \<and> pending r) rows) = {#q#}"
    by (simp only: mset_set_set [symmetric] set) simp
  then show ?thesis by (rule mset_single_iff [THEN iffD1])
qed

lemma mark_quiet:
  assumes "quiet w" "row_keys (rw_outbox w)" "q \<in> set (rw_outbox w)" "pending q"
  shows "world_mark_published (uuid_text (o_message_id q)) w
    = (None, w\<lparr>rw_db := (rw_db w)\<lparr>message_outbox := map (mark_row (rw_now w) (o_message_id q)) (rw_outbox w)\<rparr>\<rparr>)"
proof -
  have "length (o_message_id q) = 16" using assms(2,3) by (auto simp: row_keys_def list_all_iff)
  then have "uuid_in (uuid_text (o_message_id q)) = Some (o_message_id q)"
    by (simp add: uuid_in_def parse_uuid_text)
  then show ?thesis
    using assms one_row [OF assms(2-4)] by (simp add: world_mark_published_def MarkPublished_def) (simp add: quiet_def)
qed

lemma process_entries_quiet:
  assumes "quiet w" "1 \<le> rc_MaxRetries c" "row_keys (rw_outbox w)" "batch_ok (rw_outbox w) es"
    "\<forall>e \<in> set es. validateEntry e = None"
  shows "\<exists>w'. process_entries (world_api coll) c es errs w = (errs, w') \<and> quiet w' \<and>
    rw_log w' = rw_log w @ map (record_of (rc_Topic c)) es \<and> pending_entries w' + mset es = pending_entries w \<and>
    map entry_of (rw_outbox w') = map entry_of (rw_outbox w) \<and> row_keys (rw_outbox w')"
  using assms
proof (induction es arbitrary: w)
  case (Cons e es)
  from Cons.prems(4) obtain q where q: "q \<in> set (rw_outbox w)" "room_head (rw_outbox w) q" "e = entry_of q"
    by (auto simp: batch_ok_def)
  have pend: "pending q" using q(2) by (simp add: room_head_def)
  define w1 where "w1 = w\<lparr>rw_log := rw_log w @ [record_of (rc_Topic c) e]\<rparr>"
  define w2 where "w2 = w1\<lparr>rw_db := (rw_db w1)\<lparr>message_outbox :=
    map (mark_row (rw_now w1) (o_message_id q)) (rw_outbox w1)\<rparr>\<rparr>"
  obtain po where pub: "publishWithRetry (world_api coll) c e w = (Inr po, w1)"
    using publish_quiet [OF Cons.prems(1,2), of coll e] unfolding w1_def by blast
  have "quiet w1" "rw_outbox w1 = rw_outbox w" using Cons.prems(1) by (simp_all add: w1_def quiet_def)
  then have mark: "api_mark_published (world_api coll) (en_MessageID e) w1 = (None, w2)"
    using mark_quiet [of w1 q] Cons.prems(3) q pend by (simp add: w2_def world_api_def entry_of_def)
  have w2: "quiet w2" "row_keys (rw_outbox w2)" "batch_ok (rw_outbox w2) es"
    "map entry_of (rw_outbox w2) = map entry_of (rw_outbox w)"
    using Cons.prems batch_ok_mark [OF Cons.prems(4,3) q(1,3)] by (simp_all add: w2_def w1_def quiet_def)
  have n2: "pending_entries w2 + {#e#} = pending_entries w"
    using mset_filter_mark [of "rw_now w" "o_message_id q" "rw_outbox w"] one_row [OF Cons.prems(3) q(1) pend] q(3)
    by (simp add: pending_entries_def w2_def w1_def)
  from Cons.IH [OF w2(1) Cons.prems(2) w2(2,3)] Cons.prems(5) obtain w' where
    w': "process_entries (world_api coll) c es errs w2 = (errs, w')" "quiet w'"
      "rw_log w' = rw_log w2 @ map (record_of (rc_Topic c)) es" "pending_entries w' + mset es = pending_entries w2"
      "map entry_of (rw_outbox w') = map entry_of (rw_outbox w2)" "row_keys (rw_outbox w')"
    by auto
  have "process_entries (world_api coll) c (e # es) errs w = (errs, w')"
    using Cons.prems(1,5) pub mark w'(1) by (simp add: world_api_def quiet_def)
  moreover have "rw_log w' = rw_log w @ map (record_of (rc_Topic c)) (e # es)"
    using w'(3) by (simp add: w2_def w1_def)
  moreover have "pending_entries w' + mset (e # es) = pending_entries w"
    using w'(4) n2 by (simp flip: n2 w'(4))
  ultimately show ?case using w' w2(4) by auto
qed auto

lemma processBatch_quiet:
  assumes "quiet w" "1 \<le> rc_MaxRetries c" "1 \<le> rc_BatchSize c" "row_keys (rw_outbox w)"
    "\<forall>q \<in> set (rw_outbox w). validateEntry (entry_of q) = None"
  shows "\<exists>w'. processBatch (world_api coll) c w = ([], w') \<and> quiet w' \<and>
    rw_log w' = rw_log w @ map (record_of (rc_Topic c)) (NextPending coll (rw_outbox w) (rc_BatchSize c)) \<and>
    pending_entries w' + mset (NextPending coll (rw_outbox w) (rc_BatchSize c)) = pending_entries w \<and>
    map entry_of (rw_outbox w') = map entry_of (rw_outbox w) \<and> row_keys (rw_outbox w')"
proof -
  let ?es = "NextPending coll (rw_outbox w) (rc_BatchSize c)"
  have "\<forall>e \<in> set ?es. validateEntry e = None" using assms(5) by (auto elim: set_NextPending)
  from process_entries_quiet [OF assms(1,2,4) batch_ok_NextPending [OF assms(4)] this]
  show ?thesis using assms(1) by (simp add: processBatch_def world_api_def world_next_pending_def) (simp add: quiet_def)
qed

lemma relay_Run_quiet:
  assumes "quiet w" "1 \<le> rc_MaxRetries c" "1 \<le> rc_BatchSize c" "row_keys (rw_outbox w)"
    "\<forall>q \<in> set (rw_outbox w). validateEntry (entry_of q) = None" "npending w \<le> n"
  shows "\<exists>w' new. relay_Run n (world_api coll) c w = (False, w') \<and> npending w' = 0 \<and>
    rw_log w' = rw_log w @ new \<and> mset new = pending_records (rc_Topic c) w \<and>
    map entry_of (rw_outbox w') = map entry_of (rw_outbox w)"
  using assms
proof (induction n arbitrary: w)
  case (Suc n)
  let ?es = "NextPending coll (rw_outbox w) (rc_BatchSize c)"
  from processBatch_quiet [OF Suc.prems(1-5)] obtain w1 where
    w1: "processBatch (world_api coll) c w = ([], w1)" "quiet w1"
      "rw_log w1 = rw_log w @ map (record_of (rc_Topic c)) ?es" "pending_entries w1 + mset ?es = pending_entries w"
      "map entry_of (rw_outbox w1) = map entry_of (rw_outbox w)" "row_keys (rw_outbox w1)"
    by blast
  have "?es \<noteq> []" if "npending w \<noteq> 0"
  proof -
    from that obtain r where "r \<in> set (rw_outbox w)" "pending r"
      by (auto simp: npending_def filter_empty_conv)
    then show ?thesis using NextPending_nonempty Suc.prems(3) by blast
  qed
  then have "npending w = 0 \<or> 1 \<le> length ?es" by (cases ?es) auto
  moreover have "npending w1 + length ?es = npending w"
    using arg_cong [OF w1(4), of size] by (simp add: npending_entries)
  ultimately have "npending w1 \<le> n" using Suc.prems(6) by linarith
  moreover have "\<forall>q \<in> set (rw_outbox w1). validateEntry (entry_of q) = None"
    using arg_cong [OF w1(5), of set] Suc.prems(5) by (auto simp: image_def set_eq_iff) metis
  ultimately obtain w' new where run: "relay_Run n (world_api coll) c w1 = (False, w')" "npending w' = 0"
    "rw_log w' = rw_log w1 @ new" "mset new = pending_records (rc_Topic c) w1"
    "map entry_of (rw_outbox w') = map entry_of (rw_outbox w1)"
    using Suc.IH [OF w1(2) Suc.prems(2,3) w1(6)] by blast
  moreover have "mset (map (record_of (rc_Topic c)) ?es @ new) = pending_records (rc_Topic c) w"
    using run(4) by (simp add: pending_records_def flip: w1(4))
  moreover have "api_wait (world_api coll) d w1 = (False, w1)" for d
    using w1(2) by (simp add: world_api_def world_wait_def) (simp add: quiet_def)
  moreover have "\<not> api_ctx_err (world_api coll) w" using Suc.prems(1) by (simp add: world_api_def quiet_def)
  ultimately show ?case using w1 by (auto intro: exI [of _ "map (record_of (rc_Topic c)) ?es @ new"])
qed (simp add: pending_records_def npending_entries)

subsection \<open>Properties\<close>

text \<open>C2: whatever fails, whenever the context is cancelled, and whichever requests the message store handles
  between two calls of the relay, Kafka holds each room's messages in the order of their numbers:
  once adjacent repetitions are dropped, the numbers are 1, 2, ..., p without a gap. A row marked
  published is among them, and only the last of them may still be unmarked.\<close>

theorem relay_log_in_order:
  assumes "list_all (\<lambda>(calls, f). wf_calls calls) sched"
    and "w = snd (relay_Run n (world_api coll) c (start_world empty_db sched))"
  shows "\<exists>p. 0 \<le> p \<and> p \<le> last_seq (rw_db w) r \<and> remdups_adj (room_log (rw_log w) r) = [1..p] \<and>
    (\<forall>q \<in> set (rw_outbox w). o_room_id q = r \<longrightarrow>
       (\<not> pending q \<longrightarrow> o_room_seq q \<le> p) \<and> (o_room_seq q < p \<longrightarrow> \<not> pending q))"
proof -
  have "world_ok (start_world empty_db sched)"
    using assms(1) by (simp add: world_ok_def start_world_def store_inv_empty)
  moreover have "relay_inv (rw_outbox (start_world empty_db sched)) (rw_log (start_world empty_db sched))"
    by (simp add: start_world_def empty_db_def relay_inv_empty)
  ultimately have "world_ok w" "relay_inv (rw_outbox w) (rw_log w)"
    using world.relay_Run_inv assms(2) by blast+
  then show ?thesis by (intro relay_inv_in_order) (simp_all add: world_ok_def)
qed

definition sample_config :: relay_config where
  "sample_config = \<lparr>rc_Topic = ''messages'', rc_BatchSize = 100, rc_MaxRetries = 3,
                    rc_RetryBackoff = 200000000, rc_PollInterval = 1000000000\<rparr>"

text \<open>Three publications break, the second of them after Kafka stored the record.\<close>

definition sample_sched :: "(accept_call list \<times> fault) list" where
  "sample_sched = [([(sample_env, ''alice'', sample_request)], NoFault), ([], Fail), ([], NoFault),
                   ([], FailAfter), ([], NoFault), ([], Fail)]"

theorem relay_log_in_order_witness:
  "\<exists>p. 0 \<le> p \<and>
    p \<le> last_seq (rw_db (snd (relay_Run 2 (world_api (\<lambda>_ _. True)) sample_config
      (start_world empty_db sample_sched)))) ''general'' \<and>
    remdups_adj (room_log (rw_log (snd (relay_Run 2 (world_api (\<lambda>_ _. True)) sample_config
      (start_world empty_db sample_sched)))) ''general'') = [1..p]"
proof -
  have "list_all (\<lambda>(calls, f). wf_calls calls) sample_sched"
    by (simp add: sample_sched_def wf_calls_def sample_wf)
  from relay_log_in_order [OF this refl] show ?thesis by blast
qed

text \<open>C8: a publication makes at most \<^verbatim>\<open>MaxRetries\<close> attempts: Kafka gets at most that many copies of the
  record and nothing else, at least one copy when the publication succeeds, and the relay's own
  rows are not touched.\<close>

theorem publishWithRetry_bounded:
  assumes "publishWithRetry (world_api coll) c e w = (res, w')" and "world_ok w" and "1 \<le> rc_MaxRetries c"
  shows "\<exists>n. rw_log w' = rw_log w @ replicate n (record_of (rc_Topic c) e) \<and>
    int n \<le> rc_MaxRetries c \<and> ((\<exists>po. res = Inr po) \<longrightarrow> 1 \<le> n) \<and> grows (rw_outbox w) (rw_outbox w')"
  using world.publishWithRetry_effect [OF assms(1,2)] assms(3) by auto

theorem publishWithRetry_bounded_witness:
  "\<exists>n. rw_log (snd (publishWithRetry (world_api (\<lambda>_ _. True)) sample_config (entry_of sample_outbox)
      (start_world empty_db sample_sched)))
    = replicate n (record_of ''messages'' (entry_of sample_outbox)) \<and> int n \<le> 3"
proof -
  have "world_ok (start_world empty_db sample_sched)"
    by (simp add: world_ok_def start_world_def store_inv_empty sample_sched_def wf_calls_def sample_wf)
  moreover obtain res w' where "publishWithRetry (world_api (\<lambda>_ _. True)) sample_config
      (entry_of sample_outbox) (start_world empty_db sample_sched) = (res, w')" by fastforce
  moreover have "1 \<le> rc_MaxRetries sample_config" by (simp add: sample_config_def)
  ultimately show ?thesis
    using publishWithRetry_bounded [of "\<lambda>_ _. True" sample_config "entry_of sample_outbox"
        "start_world empty_db sample_sched" res w']
    by (auto simp: sample_config_def start_world_def)
qed

text \<open>C9: with the limits the configuration enforces (a backoff of at most five seconds and at most ten
  attempts), the delay after attempt k is the backoff times $2^{k-1}$, at most five seconds: the
  64-bit product never wraps around, and the delays are positive and never shrink.\<close>

theorem retry_delay_exponential:
  assumes "0 < rc_RetryBackoff c" and "rc_RetryBackoff c \<le> 5 * second_ns" and "1 \<le> attempt" and "attempt \<le> 10"
  shows "retry_delay c attempt = min (5 * second_ns) (rc_RetryBackoff c * 2 ^ nat (attempt - 1)) \<and>
    0 < retry_delay c attempt \<and> (2 \<le> attempt \<longrightarrow> retry_delay c (attempt - 1) \<le> retry_delay c attempt)"
proof -
  let ?b = "rc_RetryBackoff c"
  have pow: "1 \<le> (2::int) ^ k \<and> (2::int) ^ k \<le> 512" if "k \<le> 9" for k
    using that power_increasing [of k 9 "2::int"] by simp
  have exact: "retry_delay c a = min (5 * second_ns) (?b * 2 ^ nat (a - 1))" if "1 \<le> a" "a \<le> 10" for a
  proof -
    have p: "1 \<le> (2::int) ^ nat (a - 1)" "(2::int) ^ nat (a - 1) \<le> 512"
      using pow [of "nat (a - 1)"] that by auto
    have "?b * 2 ^ nat (a - 1) \<le> (5 * second_ns) * 512"
      using assms(1,2) p that by (intro mult_mono) auto
    moreover have "0 < ?b * 2 ^ nat (a - 1)" using assms(1) by simp
    moreover have "in_int64 x" if "0 < x" "x \<le> 5 * second_ns * 512" for x
      using that by (simp add: in_int64_def)
    ultimately have "in_int64 (2 ^ nat (a - 1))" "in_int64 (?b * 2 ^ nat (a - 1))"
      using p by simp_all
    then show ?thesis by (auto simp: retry_delay_def min_def Let_def)
  qed
  moreover have "retry_delay c (attempt - 1) \<le> retry_delay c attempt" if "2 \<le> attempt"
  proof -
    have "?b * 2 ^ nat (attempt - 1 - 1) \<le> ?b * 2 ^ nat (attempt - 1)"
      using assms(1) by (intro mult_left_mono power_increasing) auto
    then show ?thesis
      using exact [of attempt] exact [of "attempt - 1"] that assms(4) min.mono [OF order_refl] by simp
  qed
  moreover have "0 < ?b * 2 ^ nat (attempt - 1)" using assms(1) by simp
  ultimately show ?thesis using exact [of attempt] assms(3,4) by (simp add: min_def)
qed

theorem retry_delay_exponential_witness:
  "retry_delay sample_config 3 = 800000000 \<and> 0 < retry_delay sample_config 3 \<and>
    retry_delay sample_config 2 \<le> retry_delay sample_config 3"
  using retry_delay_exponential [of sample_config 3] by (simp add: sample_config_def)

text \<open>C5: when nothing fails, no request is handled meanwhile and every stored event is valid, as many cycles
  as there are unpublished rows publish all of them: what they append to Kafka's log is, up to order,
  the record of each unpublished row once, under the configured topic with the room as key and the
  stored bytes of the event as value. Afterwards every row is marked and the rows are otherwise as
  they were.\<close>

theorem relay_drains:
  assumes "relay_New c = Some c" and "world_ok w" and "quiet w"
    and "\<forall>q \<in> set (rw_outbox w). validateEntry (entry_of q) = None" and "npending w \<le> n"
  shows "\<exists>w' new. relay_Run n (world_api coll) c w = (False, w') \<and> npending w' = 0 \<and>
    rw_log w' = rw_log w @ new \<and> mset new = pending_records (rc_Topic c) w \<and>
    map entry_of (rw_outbox w') = map entry_of (rw_outbox w)"
  using relay_Run_quiet [of w c n coll] assms store_inv_row_keys
  by (auto simp: relay_New_def world_ok_def split: if_splits)


lemma sample_validateEntry: "validateEntry (entry_of sample_outbox) = None"
  using sample_valid(3) sample_unmarshal
  by (simp add: validateEntry_def entry_of_def sample_outbox_def) (simp add: sample_event_def)

lemma sample_store_inv: "store_inv sample_db"
  using Accept_inv [OF sample_wf store_inv_empty, of "''alice''" sample_request] by (simp add: sample_accept)

theorem relay_drains_witness:
  "\<exists>w'. relay_Run 1 (world_api (\<lambda>_ _. True)) sample_config (start_world sample_db []) = (False, w') \<and>
    npending w' = 0 \<and> rw_log w' = [record_of ''messages'' (entry_of sample_outbox)]"
proof -
  have "relay_New sample_config = Some sample_config" by (simp add: relay_New_def sample_config_def)
  moreover have "world_ok (start_world sample_db [])" "quiet (start_world sample_db [])"
    by (simp_all add: world_ok_def start_world_def sample_store_inv quiet_def)
  moreover have "rw_outbox (start_world sample_db []) = [sample_outbox]" "pending sample_outbox"
    by (simp_all add: start_world_def sample_db_def empty_db_def pending_def sample_outbox_def)
  ultimately show ?thesis
    using relay_drains [of sample_config "start_world sample_db []" 1 "\<lambda>_ _. True"]
    by (simp add: sample_validateEntry npending_def pending_records_def pending_entries_def del: relay_Run.simps)
       (auto simp: start_world_def sample_config_def)
qed

end
