(* ===== verification/Go_Duration.thy ===== *)
theory Go_Duration
  imports Go_Numbers
begin

text \<open>
  \<^verbatim>\<open>time.ParseDuration\<close>: a signed sum of decimal numbers with units. A fraction is converted with
  64-bit floating point arithmetic, which is a parameter: \<open>frac f unit scale\<close> is the integer part of
  \<^verbatim>\<open>float64(f) * (float64(unit) / scale)\<close>.
\<close>

definition units :: "(string \<times> nat) list" where
  "units = [(''ns'', 1), (''us'', 1000), ([CHR 0xC2, CHR 0xB5, CHR ''s''], 1000),
            ([CHR 0xCE, CHR 0xBC, CHR ''s''], 1000), (''ms'', 1000000), (''s'', 1000000000),
            (''m'', 60000000000), (''h'', 3600000000000)]"

text \<open>The digits at the head: their value (\<open>None\<close> when it exceeds $2^{63}$) and the rest.\<close>

fun leadingInt :: "string \<Rightarrow> nat \<Rightarrow> (nat \<times> string) option" where
  "leadingInt [] x = Some (x, [])"
| "leadingInt (c # cs) x =
     (if \<not> is_digit c then Some (x, c # cs)
      else if x > 2 ^ 63 div 10 then None
      else let y = x * 10 + (byte_val c - 48) in if y > 2 ^ 63 then None else leadingInt cs y)"

text \<open>The digits of a fraction; those that do not fit are skipped.\<close>

fun leadingFraction :: "string \<Rightarrow> nat \<Rightarrow> nat \<Rightarrow> bool \<Rightarrow> nat \<times> nat \<times> string" where
  "leadingFraction [] x scale overflow = (x, scale, [])"
| "leadingFraction (c # cs) x scale overflow =
     (if \<not> is_digit c then (x, scale, c # cs)
      else if overflow \<or> x > (2 ^ 63 - 1) div 10 then leadingFraction cs x scale True
      else let y = x * 10 + (byte_val c - 48) in
           if y > 2 ^ 63 then leadingFraction cs x scale True
           else leadingFraction cs y (scale * 10) False)"

definition unit_char :: "char \<Rightarrow> bool" where
  "unit_char c \<longleftrightarrow> c \<noteq> CHR ''.'' \<and> \<not> is_digit c"

lemma leadingInt_length: "leadingInt s x = Some (v, r) \<Longrightarrow> length r \<le> length s"
  by (induction s x rule: leadingInt.induct) (auto simp: Let_def split: if_splits)

lemma leadingFraction_length: "length (snd (snd (leadingFraction s x sc ov))) \<le> length s"
proof (induction s arbitrary: x sc ov)
  case (Cons c cs)
  then show ?case by (simp add: Let_def le_SucI)
qed simp

text \<open>One number with its unit: its value in nanoseconds and the rest.\<close>

definition parse_term :: "(nat \<Rightarrow> nat \<Rightarrow> nat \<Rightarrow> nat) \<Rightarrow> string \<Rightarrow> (nat \<times> string) option" where
  "parse_term frac s =
     (if s = [] \<or> \<not> (hd s = CHR ''.'' \<or> is_digit (hd s)) then None
      else case leadingInt s 0 of
        None \<Rightarrow> None
      | Some (v, s1) \<Rightarrow>
          (let dot = (s1 \<noteq> [] \<and> hd s1 = CHR ''.'');
               (f, scale, s2) = (if dot then leadingFraction (tl s1) 0 1 False else (0, 1, s1));
               pre = (length s1 \<noteq> length s); post = (dot \<and> length s2 \<noteq> length (tl s1));
               u = takeWhile unit_char s2; s3 = dropWhile unit_char s2
           in if \<not> pre \<and> \<not> post then None
              else if u = [] then None
              else case map_of units u of
                None \<Rightarrow> None
              | Some unit \<Rightarrow>
                  if v > 2 ^ 63 div unit then None
                  else let w = (if f > 0 then v * unit + frac f unit scale else v * unit) in
                       if f > 0 \<and> w > 2 ^ 63 then None else Some (w, s3)))"

lemma parse_term_length: "parse_term frac s = Some (w, r) \<Longrightarrow> length r < length s"
proof -
  assume a: "parse_term frac s = Some (w, r)"
  then obtain v s1 where s1: "leadingInt s 0 = Some (v, s1)"
    by (auto simp: parse_term_def split: if_splits option.splits)
  define s2 where "s2 = (if s1 \<noteq> [] \<and> hd s1 = CHR ''.'' then snd (snd (leadingFraction (tl s1) 0 1 False)) else s1)"
  have "takeWhile unit_char s2 \<noteq> [] \<and> r = dropWhile unit_char s2"
    using a s1 by (auto simp: parse_term_def s2_def Let_def split: if_splits option.splits prod.splits)
  then have "length r < length s2"
    by (metis length_append length_greater_0_conv less_add_same_cancel2 takeWhile_dropWhile_id)
  moreover have "length s2 \<le> length s1"
    using leadingFraction_length [of "tl s1" 0 1 False] by (cases s1) (auto simp: s2_def intro: le_SucI)
  ultimately show ?thesis using leadingInt_length [OF s1] by simp
qed

function parse_terms :: "(nat \<Rightarrow> nat \<Rightarrow> nat \<Rightarrow> nat) \<Rightarrow> string \<Rightarrow> nat \<Rightarrow> nat option" where
  "parse_terms frac s d =
     (if s = [] then Some d
      else case parse_term frac s of
        None \<Rightarrow> None
      | Some (v, r) \<Rightarrow> if d + v > 2 ^ 63 then None else parse_terms frac r (d + v))"
  by pat_completeness auto
termination
  by (relation "measure (\<lambda>(frac, s, d). length s)") (auto dest: parse_term_length)

declare parse_terms.simps [simp del]

definition ParseDuration :: "(nat \<Rightarrow> nat \<Rightarrow> nat \<Rightarrow> nat) \<Rightarrow> string \<Rightarrow> int option" where
  "ParseDuration frac s =
     (let neg = (s \<noteq> [] \<and> hd s = CHR ''-'');
          t = (if s \<noteq> [] \<and> (hd s = CHR ''-'' \<or> hd s = CHR ''+'') then tl s else s)
      in if t = ''0'' then Some 0
         else if t = [] then None
         else case parse_terms frac t 0 of
           None \<Rightarrow> None
         | Some d \<Rightarrow>
             if neg then Some (wrap64 (- int d)) else if d > 2 ^ 63 - 1 then None else Some (int d))"

lemma parse_terms_bound: "\<lbrakk>parse_terms frac s d = Some e; d \<le> 2 ^ 63\<rbrakk> \<Longrightarrow> e \<le> 2 ^ 63"
proof (induction frac s d rule: parse_terms.induct)
  case (1 frac s d)
  then show ?case
    by (auto simp: parse_terms.simps [of frac s d] split: if_splits option.splits)
qed

text \<open>A duration always fits in 64 bits.\<close>

lemma ParseDuration_int64:
  assumes "ParseDuration frac s = Some d"
  shows "in_int64 d"
proof -
  have "in_int64 (int n)" if "n \<le> 2 ^ 63 - 1" for n using that by (simp add: in_int64_def)
  moreover have "in_int64 0" by (simp add: in_int64_def)
  ultimately show ?thesis
    using assms by (auto simp: ParseDuration_def Let_def wrap64_in_int64 split: if_splits option.splits)
qed

end
