(* ===== verification/Ws_Hub.thy ===== *)
theory Ws_Hub
  imports Contracts
begin

text \<open>
  The hub of the message service, \<^verbatim>\<open>message_service/app/transport/ws/hub.go\<close>, with the send buffers of
  its connections (\<^verbatim>\<open>ws/client.go\<close>). A connection is a pointer; two connections of one client are
  different pointers with the same client identifier. The hub's maps are association lists in the
  order in which \<^verbatim>\<open>range\<close> visits them.
\<close>

subsection \<open>State and operations\<close>

type_synonym conn = nat
type_synonym room_clients = "(string \<times> conn) list"

record ClientConnection =
  cc_ClientID :: string
  cc_Ptr :: conn

record hub =
  hub_rooms :: "(string \<times> room_clients) list"
  hub_send :: "conn \<Rightarrow> bytes list"

definition sendCap :: nat where "sendCap = 256"

definition NewHub :: hub where
  "NewHub = \<lparr>hub_rooms = [], hub_send = (\<lambda>_. [])\<rparr>"

definition addClient :: "ClientConnection \<Rightarrow> room_clients \<Rightarrow> room_clients" where
  "addClient c cs = AList.update (cc_ClientID c) (cc_Ptr c) cs"

definition removeClient :: "string \<Rightarrow> room_clients \<Rightarrow> room_clients" where
  "removeClient clientID cs = AList.delete clientID cs"

definition isEmpty :: "room_clients \<Rightarrow> bool" where
  "isEmpty cs \<longleftrightarrow> length cs = 0"

definition clientIDs :: "room_clients \<Rightarrow> string list" where
  "clientIDs cs = map fst cs"

definition newRoom :: room_clients where
  "newRoom = []"

definition join_room :: "ClientConnection \<Rightarrow> string \<Rightarrow> (string \<times> room_clients) list \<Rightarrow> (string \<times> room_clients) list" where
  "join_room c roomId rooms =
     (let room = (case map_of rooms roomId of Some r \<Rightarrow> r | None \<Rightarrow> newRoom)
      in AList.update roomId (addClient c room) rooms)"

datatype hub_error =
    NilConnection | HubInvalidEvent contract_error | HubMarshalFailed | NoSuchRoom string
  | CtxDone | SendBlocked conn

definition Register :: "string list \<Rightarrow> ClientConnection option \<Rightarrow> hub \<Rightarrow> hub_error option \<times> hub" where
  "Register roomIDs conn h =
     (case conn of
        None \<Rightarrow> (Some NilConnection, h)
      | Some c \<Rightarrow> (None, h\<lparr>hub_rooms := fold (join_room c) roomIDs (hub_rooms h)\<rparr>))"

text \<open>Rooms left without clients are deleted while the map is visited.\<close>

fun leave_rooms :: "string \<Rightarrow> (string \<times> room_clients) list \<Rightarrow> (string \<times> room_clients) list" where
  "leave_rooms clientID [] = []"
| "leave_rooms clientID ((r, cs) # rooms) =
     (let cs' = removeClient clientID cs
      in if isEmpty cs' then leave_rooms clientID rooms else (r, cs') # leave_rooms clientID rooms)"

definition Unregister :: "string \<Rightarrow> hub \<Rightarrow> hub_error option \<times> hub" where
  "Unregister clientID h = (None, h\<lparr>hub_rooms := leave_rooms clientID (hub_rooms h)\<rparr>)"

text \<open>
  The send loop. \<open>stop n\<close>: the select at the \<open>n\<close>-th client takes the branch of the done context. A
  full buffer blocks the loop, which keeps the hub's read lock.
\<close>

fun send_clients ::
  "(nat \<Rightarrow> bool) \<Rightarrow> nat \<Rightarrow> bytes \<Rightarrow> room_clients \<Rightarrow> (conn \<Rightarrow> bytes list) \<Rightarrow> hub_error option \<times> (conn \<Rightarrow> bytes list)" where
  "send_clients stop n m [] q = (None, q)"
| "send_clients stop n m ((i, p) # cs) q =
     (if stop n then (Some CtxDone, q)
      else if length (q p) < sendCap then send_clients stop (Suc n) m cs (q(p := q p @ [m]))
      else (Some (SendBlocked p), q))"

definition Dispatch :: "(nat \<Rightarrow> bool) \<Rightarrow> Event \<Rightarrow> hub \<Rightarrow> hub_error option \<times> hub" where
  "Dispatch stop m h =
     (case Event_Validate m of
        Some e \<Rightarrow> (Some (HubInvalidEvent e), h)
      | None \<Rightarrow>
          (case marshal_Event m of
             None \<Rightarrow> (Some HubMarshalFailed, h)
           | Some serialized \<Rightarrow>
               (case map_of (hub_rooms h) (ev_RoomID m) of
                  None \<Rightarrow> (Some (NoSuchRoom (ev_RoomID m)), h)
                | Some cs \<Rightarrow>
                    (case send_clients stop 0 serialized cs (hub_send h) of
                       (err, q) \<Rightarrow> (err, h\<lparr>hub_send := q\<rparr>)))))"

definition allClients :: "hub \<Rightarrow> string list" where
  "allClients h = concat (map (clientIDs \<circ> snd) (hub_rooms h))"

declare Register_def [hub_simps] Unregister_def [hub_simps] Dispatch_def [hub_simps]

subsection \<open>The hub as a map\<close>

text \<open>Which connection a client has in a room.\<close>

definition hub_view :: "hub \<Rightarrow> string \<Rightarrow> string \<Rightarrow> conn option" where
  "hub_view h r c = (case map_of (hub_rooms h) r of None \<Rightarrow> None | Some cs \<Rightarrow> map_of cs c)"

definition hub_inv :: "hub \<Rightarrow> bool" where
  "hub_inv h \<longleftrightarrow> distinct (map fst (hub_rooms h)) \<and>
     (\<forall>(r, cs) \<in> set (hub_rooms h). cs \<noteq> [] \<and> distinct (map fst cs))"

definition rooms_view :: "(string \<times> room_clients) list \<Rightarrow> string \<Rightarrow> string \<Rightarrow> conn option" where
  "rooms_view rooms r c = (case map_of rooms r of None \<Rightarrow> None | Some cs \<Rightarrow> map_of cs c)"

definition rooms_inv :: "(string \<times> room_clients) list \<Rightarrow> bool" where
  "rooms_inv rooms \<longleftrightarrow> distinct (map fst rooms) \<and> (\<forall>(r, cs) \<in> set rooms. cs \<noteq> [] \<and> distinct (map fst cs))"

lemma hub_view_rooms: "hub_view h = rooms_view (hub_rooms h)"
  by (simp add: hub_view_def rooms_view_def fun_eq_iff)

lemma hub_inv_rooms: "hub_inv h = rooms_inv (hub_rooms h)"
  by (simp add: hub_inv_def rooms_inv_def)

lemma rooms_inv_lookup: "\<lbrakk>rooms_inv rooms; map_of rooms r = Some cs\<rbrakk> \<Longrightarrow> cs \<noteq> [] \<and> distinct (map fst cs)"
  by (auto simp: rooms_inv_def dest!: map_of_SomeD)

lemma join_room_inv:
  assumes "rooms_inv rooms"
  shows "rooms_inv (join_room c r rooms)"
proof -
  define room where "room = (case map_of rooms r of Some cs \<Rightarrow> cs | None \<Rightarrow> newRoom)"
  have "distinct (map fst room)"
    using rooms_inv_lookup [OF assms] by (auto simp: room_def newRoom_def split: option.splits)
  then have "addClient c room \<noteq> [] \<and> distinct (map fst (addClient c room))"
    by (simp add: addClient_def)
  moreover have "join_room c r rooms = AList.update r (addClient c room) rooms"
    by (simp add: join_room_def room_def)
  ultimately show ?thesis
    using assms unfolding rooms_inv_def by (fastforce dest: set_alist_update)
qed

lemma join_room_view:
  "rooms_view (join_room c r rooms) r' i =
     (if r' = r \<and> i = cc_ClientID c then Some (cc_Ptr c) else rooms_view rooms r' i)"
  by (auto simp: rooms_view_def join_room_def addClient_def newRoom_def Let_def update_conv'
      split: option.splits)

lemma fold_join_inv: "rooms_inv rooms \<Longrightarrow> rooms_inv (fold (join_room c) rs rooms)"
  by (induction rs arbitrary: rooms) (auto simp: join_room_inv)

lemma fold_join_view:
  "rooms_view (fold (join_room c) rs rooms) r i =
     (if r \<in> set rs \<and> i = cc_ClientID c then Some (cc_Ptr c) else rooms_view rooms r i)"
  by (induction rs arbitrary: rooms) (auto simp: join_room_view)

lemma leave_rooms_keys: "fst ` set (leave_rooms c rooms) \<subseteq> fst ` set rooms"
  by (induction c rooms rule: leave_rooms.induct) (auto simp: Let_def)

lemma leave_rooms_inv: "rooms_inv rooms \<Longrightarrow> rooms_inv (leave_rooms c rooms)"
proof (induction c rooms rule: leave_rooms.induct)
  case (2 c r cs rooms)
  then have "rooms_inv (leave_rooms c rooms)" by (auto simp: rooms_inv_def Let_def)
  moreover have "r \<notin> fst ` set (leave_rooms c rooms)"
    using 2(3) leave_rooms_keys [of c rooms] by (auto simp: rooms_inv_def)
  moreover have "distinct (map fst (AList.delete c cs))" using 2(3) by (auto simp: rooms_inv_def)
  ultimately show ?case by (auto simp: rooms_inv_def Let_def removeClient_def isEmpty_def)
qed simp

lemma leave_rooms_view:
  "distinct (map fst rooms) \<Longrightarrow>
     rooms_view (leave_rooms c rooms) r i = (if i = c then None else rooms_view rooms r i)"
proof (induction c rooms rule: leave_rooms.induct)
  case (2 c r' cs rooms)
  have del: "map_of (removeClient c cs) i = (if i = c then None else map_of cs i)"
    by (simp add: removeClient_def delete_conv')
  have out: "map_of (leave_rooms c rooms) r' = None"
    using 2(3) leave_rooms_keys [of c rooms] by (auto simp: map_of_eq_None_iff)
  have IH: "rooms_view (leave_rooms c rooms) r i = (if i = c then None else rooms_view rooms r i)"
    using 2 by (cases "isEmpty (removeClient c cs)") auto
  show ?case
  proof (cases "isEmpty (removeClient c cs)")
    case True
    then have "map_of cs i = None" if "i \<noteq> c" using del that by (simp add: isEmpty_def)
    with True IH out show ?thesis by (auto simp: rooms_view_def)
  next
    case False
    with IH del show ?thesis by (auto simp: rooms_view_def Let_def)
  qed
qed (simp add: rooms_view_def)

lemma Register_inv: "hub_inv h \<Longrightarrow> hub_inv (snd (Register rs c h))"
  by (auto simp: Register_def hub_inv_rooms fold_join_inv split: option.splits)

lemma Unregister_inv: "hub_inv h \<Longrightarrow> hub_inv (snd (Unregister c h))"
  by (simp add: Unregister_def hub_inv_rooms leave_rooms_inv)

lemma hub_rooms_Dispatch [simp]: "hub_rooms (snd (Dispatch stop m h)) = hub_rooms h"
  by (auto simp: Dispatch_def split: option.splits prod.splits)

lemma Dispatch_inv: "hub_inv h \<Longrightarrow> hub_inv (snd (Dispatch stop m h))"
  by (simp add: hub_inv_rooms)

subsection \<open>Delivery\<close>

definition room_conns :: "hub \<Rightarrow> string \<Rightarrow> conn set" where
  "room_conns h r = {p. \<exists>c. hub_view h r c = Some p}"

lemma send_clients_done:
  "\<lbrakk>send_clients stop n m cs q = (None, q'); distinct (map snd cs)\<rbrakk> \<Longrightarrow>
     q' p = (if p \<in> snd ` set cs then q p @ [m] else q p)"
proof (induction cs arbitrary: n q)
  case (Cons ip cs)
  obtain i p' where ip: "ip = (i, p')" by fastforce
  with Cons.prems have rest: "send_clients stop (Suc n) m cs (q(p' := q p' @ [m])) = (None, q')"
    by (simp split: if_splits)
  have "p' \<notin> snd ` set cs" "distinct (map snd cs)" using Cons.prems ip by auto
  with Cons.IH [OF rest] ip show ?case by auto
qed simp

lemma send_clients_cap:
  "\<forall>p. length (q p) \<le> sendCap \<Longrightarrow> length (snd (send_clients stop n m cs q) p) \<le> sendCap"
proof (induction cs arbitrary: n q)
  case (Cons ip cs)
  then show ?case by (cases ip) auto
qed simp

lemma send_clients_ok:
  "\<lbrakk>\<forall>n. \<not> stop n; \<forall>p \<in> snd ` set cs. length (q p) < sendCap; distinct (map snd cs)\<rbrakk> \<Longrightarrow>
     fst (send_clients stop n m cs q) = None"
proof (induction cs arbitrary: n q)
  case (Cons ip cs)
  obtain i p' where ip: "ip = (i, p')" by fastforce
  have "\<forall>p \<in> snd ` set cs. length ((q(p' := q p' @ [m])) p) < sendCap" using Cons.prems ip by auto
  moreover have "distinct (map snd cs)" using Cons.prems(3) by simp
  ultimately have "fst (send_clients stop (Suc n) m cs (q(p' := q p' @ [m]))) = None"
    by (rule Cons.IH [OF Cons.prems(1)])
  moreover have "\<not> stop n" "length (q p') < sendCap" using Cons.prems ip by auto
  ultimately show ?case by (simp add: ip)
qed simp

lemma send_clients_error:
  "\<lbrakk>send_clients stop n m cs q = (Some e, q'); \<forall>n. \<not> stop n\<rbrakk> \<Longrightarrow>
     \<exists>p \<in> snd ` set cs. e = SendBlocked p \<and> sendCap \<le> length (q' p)"
proof (induction cs arbitrary: n q)
  case (Cons ip cs)
  obtain i p where ip: "ip = (i, p)" by fastforce
  show ?case
  proof (cases "length (q p) < sendCap")
    case True
    then have "send_clients stop (Suc n) m cs (q(p := q p @ [m])) = (Some e, q')"
      using Cons.prems(1) Cons.prems(2) [rule_format, of n] ip by simp
    from Cons.IH [OF this Cons.prems(2)] show ?thesis by auto
  next
    case False
    with Cons.prems(1) Cons.prems(2) [rule_format, of n] ip show ?thesis by simp
  qed
qed simp

text \<open>A connection belongs to one client.\<close>

definition hub_owned :: "(conn \<Rightarrow> string) \<Rightarrow> hub \<Rightarrow> bool" where
  "hub_owned own h \<longleftrightarrow> (\<forall>r c p. hub_view h r c = Some p \<longrightarrow> own p = c)"

lemma owned_distinct:
  assumes "hub_inv h" "hub_owned own h" "map_of (hub_rooms h) r = Some cs"
  shows "distinct (map snd cs)" and "snd ` set cs = room_conns h r"
proof -
  have d: "distinct (map fst cs)"
    using rooms_inv_lookup assms(1,3) by (auto simp: hub_inv_rooms)
  have v: "hub_view h r c = map_of cs c" for c using assms(3) by (simp add: hub_view_def)
  have own: "own p = c" if "(c, p) \<in> set cs" for c p
  proof -
    have "map_of cs c = Some p" using d that by simp
    with assms(2) v show ?thesis unfolding hub_owned_def by metis
  qed
  have "inj_on snd (set cs)"
    using own d by (auto simp: inj_on_def) (metis)
  then show "distinct (map snd cs)" using d by (auto simp: distinct_map)
  show "snd ` set cs = room_conns h r" using d v by (force simp: room_conns_def)
qed

lemma Register_owned:
  "\<lbrakk>hub_owned own h; own (cc_Ptr c) = cc_ClientID c\<rbrakk> \<Longrightarrow> hub_owned own (snd (Register rs (Some c) h))"
  by (auto simp: hub_owned_def Register_def hub_view_rooms fold_join_view)

lemma Unregister_owned: "\<lbrakk>hub_owned own h; hub_inv h\<rbrakk> \<Longrightarrow> hub_owned own (snd (Unregister c h))"
  by (auto simp: hub_owned_def Unregister_def hub_view_rooms hub_inv_rooms rooms_inv_def leave_rooms_view)

subsection \<open>The dispatcher's contract\<close>

text \<open>
  What a consumer of events relies on: a dispatch that reports no error put the event's text at the
  end of the buffer of every connection of the event's room, once, and touched no other buffer.
\<close>

locale message_dispatcher =
  fixes dispatch :: "Event \<Rightarrow> 'h \<Rightarrow> 'e option \<times> 'h" and conns :: "'h \<Rightarrow> string \<Rightarrow> conn set"
    and buffer :: "'h \<Rightarrow> conn \<Rightarrow> bytes list" and good :: "'h \<Rightarrow> bool"
  assumes dispatch_good: "good h \<Longrightarrow> good (snd (dispatch m h))"
  and dispatch_conns: "conns (snd (dispatch m h)) = conns h"
  and dispatch_delivers: "\<lbrakk>dispatch m h = (None, h'); good h\<rbrakk> \<Longrightarrow>
    \<exists>body. marshal_Event m = Some body \<and> Event_Validate m = None \<and>
      (\<forall>p. buffer h' p = (if p \<in> conns h (ev_RoomID m) then buffer h p @ [body] else buffer h p))"

lemma Dispatch_delivers:
  assumes "Dispatch stop m h = (None, h')" and "hub_inv h" and "hub_owned own h"
  shows "\<exists>body. marshal_Event m = Some body \<and> Event_Validate m = None \<and>
    (\<forall>p. hub_send h' p = (if p \<in> room_conns h (ev_RoomID m) then hub_send h p @ [body] else hub_send h p))"
proof -
  from assms(1) obtain body cs q where parts: "Event_Validate m = None" "marshal_Event m = Some body"
    "map_of (hub_rooms h) (ev_RoomID m) = Some cs"
    and q: "send_clients stop 0 body cs (hub_send h) = (None, q)" "h' = h\<lparr>hub_send := q\<rparr>"
    by (auto simp: Dispatch_def split: option.splits prod.splits)
  note d = owned_distinct [OF assms(2,3) parts(3)]
  from send_clients_done [OF q(1) d(1)] d(2) q(2) parts show ?thesis by simp
qed

interpretation hub: message_dispatcher "Dispatch stop" room_conns hub_send
  "\<lambda>h. hub_inv h \<and> hub_owned own h"
proof (unfold_locales, goal_cases)
  case (1 h m)
  then show ?case by (simp add: Dispatch_inv hub_owned_def hub_view_def)
next
  case (2 m h)
  show ?case by (simp add: room_conns_def hub_view_def fun_eq_iff)
next
  case (3 m h h')
  then show ?case using Dispatch_delivers by blast
qed

text \<open>
  A dispatcher whose context is not cancelled: with room in the buffers of the receivers a dispatch does not
  wait, and when it reports an error it has put nothing into any buffer, for the event is invalid, has no text
  or is for a room without connections.
\<close>

locale room_dispatcher = message_dispatcher +
  fixes cap :: nat and waits :: "'a \<Rightarrow> bool"
  assumes dispatch_skips: "\<lbrakk>dispatch m h = (Some e, h'); good h;
      Event_Validate m = None \<and> marshal_Event m \<noteq> None \<longrightarrow> (\<forall>p \<in> conns h (ev_RoomID m). length (buffer h p) < cap)\<rbrakk> \<Longrightarrow>
    \<not> waits e \<and> buffer h' = buffer h \<and>
      (Event_Validate m \<noteq> None \<or> marshal_Event m = None \<or> conns h (ev_RoomID m) = {})"

definition hub_blocked :: "hub_error \<Rightarrow> bool" where
  "hub_blocked e = (case e of SendBlocked p \<Rightarrow> True | _ \<Rightarrow> False)"

lemma Dispatch_skips:
  assumes "Dispatch (\<lambda>_. False) m h = (Some e, h')" and "hub_inv h" and "hub_owned own h"
    and "Event_Validate m = None \<and> marshal_Event m \<noteq> None \<longrightarrow>
      (\<forall>p \<in> room_conns h (ev_RoomID m). length (hub_send h p) < sendCap)"
  shows "\<not> hub_blocked e \<and> hub_send h' = hub_send h \<and>
    (Event_Validate m \<noteq> None \<or> marshal_Event m = None \<or> room_conns h (ev_RoomID m) = {})"
proof (cases "Event_Validate m = None \<and> marshal_Event m \<noteq> None")
  case True
  then obtain body where body: "Event_Validate m = None" "marshal_Event m = Some body" by blast
  show ?thesis
  proof (cases "map_of (hub_rooms h) (ev_RoomID m)")
    case None
    with assms(1) body show ?thesis by (auto simp: Dispatch_def hub_blocked_def room_conns_def hub_view_def)
  next
    case (Some cs)
    note d = owned_distinct [OF assms(2,3) Some]
    have "fst (send_clients (\<lambda>_. False) 0 body cs (hub_send h)) = None"
      using assms(4) True d by (intro send_clients_ok) auto
    with assms(1) body Some show ?thesis by (auto simp: Dispatch_def split: prod.splits)
  qed
qed (use assms(1) in \<open>auto simp: Dispatch_def hub_blocked_def split: option.splits\<close>)

interpretation hub_room: room_dispatcher "Dispatch (\<lambda>_. False)" room_conns hub_send
  "\<lambda>h. hub_inv h \<and> hub_owned own h" sendCap hub_blocked
  by unfold_locales (use Dispatch_skips in blast)

end
