(* ===== verification/Redis_Api.thy ===== *)
theory Redis_Api
  imports Go_Strings
begin

text \<open>
  What the services use of Redis: the commands of the presence service's transactions, and the two
  reads. \<open>redis_interface\<close> is the contract: how a transaction that succeeds changes each hash field
  and each set, and what the reads return. The concrete store below (values with deadlines, wrong
  types, transactions refused as a whole for a malformed command, calls that break) provides it.
\<close>

subsection \<open>Commands\<close>

datatype redis_cmd =
    HSet string string string
  | HExpire string int string
  | HDel string string
  | Del string
  | SAdd string "string list"
  | Expire string int

datatype redis_error = WrongType | ExecAbort | NetError

record 'r redis_api =
  r_exec :: "redis_cmd list \<Rightarrow> 'r \<Rightarrow> redis_error option \<times> 'r"
  r_smembers :: "string \<Rightarrow> 'r \<Rightarrow> (redis_error + string list) \<times> 'r"
  r_hgetall :: "string \<Rightarrow> 'r \<Rightarrow> (redis_error + (string \<times> string) list) \<times> 'r"

text \<open>
  The effect of a command on one hash field (its value and deadline, in milliseconds) and on one set.
\<close>

type_synonym fieldval = "(string \<times> int option) option"

fun cmd_field :: "int \<Rightarrow> string \<Rightarrow> string \<Rightarrow> redis_cmd \<Rightarrow> fieldval \<Rightarrow> fieldval" where
  "cmd_field now k f (HSet k' f' v) x = (if k' = k \<and> f' = f then Some (v, None) else x)"
| "cmd_field now k f (HExpire k' s f') x =
     (if k' = k \<and> f' = f then map_option (\<lambda>(v, d). (v, Some (now + 1000 * s))) x else x)"
| "cmd_field now k f (HDel k' f') x = (if k' = k \<and> f' = f then None else x)"
| "cmd_field now k f (Del k') x = (if k' = k then None else x)"
| "cmd_field now k f (SAdd k' ms) x = x"
| "cmd_field now k f (Expire k' s) x = x"

fun cmd_members :: "string \<Rightarrow> redis_cmd \<Rightarrow> string set \<Rightarrow> string set" where
  "cmd_members k (SAdd k' ms) x = (if k' = k then x \<union> set ms else x)"
| "cmd_members k (Del k') x = (if k' = k then {} else x)"
| "cmd_members k (HSet k' f v) x = x"
| "cmd_members k (HExpire k' s f) x = x"
| "cmd_members k (HDel k' f) x = x"
| "cmd_members k (Expire k' s) x = x"

definition cmds_field :: "int \<Rightarrow> string \<Rightarrow> string \<Rightarrow> redis_cmd list \<Rightarrow> fieldval \<Rightarrow> fieldval" where
  "cmds_field now k f cs x = fold (cmd_field now k f) cs x"

definition cmds_members :: "string \<Rightarrow> redis_cmd list \<Rightarrow> string set \<Rightarrow> string set" where
  "cmds_members k cs x = fold (cmd_members k) cs x"

lemma cmds_simps [simp]:
  "cmds_field now k f [] x = x" "cmds_field now k f (c # cs) x = cmds_field now k f cs (cmd_field now k f c x)"
  "cmds_field now k f (cs @ ds) x = cmds_field now k f ds (cmds_field now k f cs x)"
  "cmds_members k [] y = y" "cmds_members k (c # cs) y = cmds_members k cs (cmd_members k c y)"
  "cmds_members k (cs @ ds) y = cmds_members k ds (cmds_members k cs y)"
  by (simp_all add: cmds_field_def cmds_members_def)

subsection \<open>The contract\<close>

definition positive_ttl :: "redis_cmd \<Rightarrow> bool" where
  "positive_ttl c = (case c of HExpire k s f \<Rightarrow> 0 < s | Expire k s \<Rightarrow> 0 < s | _ \<Rightarrow> True)"

locale redis_interface =
  fixes api :: "'r redis_api" and field :: "'r \<Rightarrow> string \<Rightarrow> string \<Rightarrow> fieldval"
    and members :: "'r \<Rightarrow> string \<Rightarrow> string set" and now :: "'r \<Rightarrow> int" and ok :: "'r \<Rightarrow> bool"
  assumes exec_ok: "\<lbrakk>r_exec api cs w = (err, w'); ok w; list_all positive_ttl cs\<rbrakk> \<Longrightarrow> ok w' \<and> now w' = now w"
  and exec_field: "\<lbrakk>r_exec api cs w = (None, w'); ok w; list_all positive_ttl cs\<rbrakk>
    \<Longrightarrow> field w' k f = cmds_field (now w) k f cs (field w k f)"
  and exec_members: "\<lbrakk>r_exec api cs w = (None, w'); ok w; list_all positive_ttl cs\<rbrakk>
    \<Longrightarrow> members w' k = cmds_members k cs (members w k)"
  and smembers: "\<lbrakk>r_smembers api k w = (Inr xs, w'); ok w\<rbrakk> \<Longrightarrow> set xs = members w k"
  and smembers_frame: "\<lbrakk>r_smembers api k w = (found, w'); ok w\<rbrakk>
    \<Longrightarrow> ok w' \<and> field w' = field w \<and> members w' = members w \<and> now w' = now w"
  and hgetall: "\<lbrakk>r_hgetall api k w = (Inr fs, w'); ok w\<rbrakk>
    \<Longrightarrow> map_of fs = (\<lambda>f. map_option fst (field w k f)) \<and> distinct (map fst fs)"
  and hgetall_frame: "\<lbrakk>r_hgetall api k w = (got, w'); ok w\<rbrakk>
    \<Longrightarrow> ok w' \<and> field w' = field w \<and> members w' = members w \<and> now w' = now w"

subsection \<open>A store with deadlines\<close>

datatype redis_value = RHash "(string \<times> string \<times> int option) list" | RSet "string list"

record redis_db =
  rd_keys :: "string \<Rightarrow> (redis_value \<times> int option) option"
  rd_now :: int

definition alive :: "int \<Rightarrow> int option \<Rightarrow> bool" where
  "alive now d = (case d of None \<Rightarrow> True | Some t \<Rightarrow> now < t)"

text \<open>What a key holds now: a key past its deadline is gone, and so is a field past its own.\<close>

definition live_fields :: "int \<Rightarrow> (string \<times> string \<times> int option) list \<Rightarrow> (string \<times> string \<times> int option) list" where
  "live_fields now fs = filter (\<lambda>p. alive now (snd (snd p))) fs"

type_synonym redis_entry = "(redis_value \<times> int option) option"

definition redis_get :: "redis_db \<Rightarrow> string \<Rightarrow> redis_entry" where
  "redis_get db k =
     (case rd_keys db k of
        None \<Rightarrow> None
      | Some (v, d) \<Rightarrow>
          if \<not> alive (rd_now db) d then None
          else case v of
            RSet ms \<Rightarrow> Some (RSet ms, d)
          | RHash fs \<Rightarrow>
              (let ls = live_fields (rd_now db) fs in if ls = [] then None else Some (RHash ls, d)))"

definition redis_put :: "string \<Rightarrow> redis_entry \<Rightarrow> redis_db \<Rightarrow> redis_db" where
  "redis_put k v db = db\<lparr>rd_keys := (rd_keys db)(k := v)\<rparr>"

fun cmd_key :: "redis_cmd \<Rightarrow> string" where
  "cmd_key (HSet k f v) = k"
| "cmd_key (HExpire k s f) = k"
| "cmd_key (HDel k f) = k"
| "cmd_key (Del k) = k"
| "cmd_key (SAdd k ms) = k"
| "cmd_key (Expire k s) = k"

text \<open>A command on what its key holds: the error, and what the key holds afterwards.\<close>

fun apply_cmd :: "int \<Rightarrow> redis_cmd \<Rightarrow> redis_entry \<Rightarrow> redis_error option \<times> redis_entry" where
  "apply_cmd now (Del k) x = (None, None)"
| "apply_cmd now (Expire k s) None = (None, None)"
| "apply_cmd now (Expire k s) (Some (v, d)) = (None, Some (v, Some (now + 1000 * s)))"
| "apply_cmd now (HSet k f v) None = (None, Some (RHash [(f, v, None)], None))"
| "apply_cmd now (HSet k f v) (Some (RHash fs, d)) = (None, Some (RHash (AList.update f (v, None) fs), d))"
| "apply_cmd now (HSet k f v) (Some (RSet ms, d)) = (Some WrongType, Some (RSet ms, d))"
| "apply_cmd now (HExpire k s f) None = (None, None)"
| "apply_cmd now (HExpire k s f) (Some (RHash fs, d)) =
     (None, Some (RHash (case map_of fs f of None \<Rightarrow> fs
        | Some (v, t) \<Rightarrow> AList.update f (v, Some (now + 1000 * s)) fs), d))"
| "apply_cmd now (HExpire k s f) (Some (RSet ms, d)) = (Some WrongType, Some (RSet ms, d))"
| "apply_cmd now (HDel k f) None = (None, None)"
| "apply_cmd now (HDel k f) (Some (RHash fs, d)) =
     (None, if AList.delete f fs = [] then None else Some (RHash (AList.delete f fs), d))"
| "apply_cmd now (HDel k f) (Some (RSet ms, d)) = (Some WrongType, Some (RSet ms, d))"
| "apply_cmd now (SAdd k ms) None = (None, Some (RSet (remdups ms), None))"
| "apply_cmd now (SAdd k ms) (Some (RSet xs, d)) = (None, Some (RSet (remdups (xs @ ms)), d))"
| "apply_cmd now (SAdd k ms) (Some (RHash fs, d)) = (Some WrongType, Some (RHash fs, d))"

definition run_cmd :: "redis_cmd \<Rightarrow> redis_db \<Rightarrow> redis_error option \<times> redis_db" where
  "run_cmd c db =
     (case apply_cmd (rd_now db) c (redis_get db (cmd_key c)) of
        (e, v) \<Rightarrow> (e, redis_put (cmd_key c) v db))"

text \<open>
  A transaction runs every command, also after one that failed, and reports the first error. A
  command with too few arguments is refused when it is queued, and the transaction with it.
\<close>

fun run_cmds :: "redis_cmd list \<Rightarrow> redis_db \<Rightarrow> redis_error option \<times> redis_db" where
  "run_cmds [] db = (None, db)"
| "run_cmds (c # cs) db =
     (case run_cmd c db of (e, db1) \<Rightarrow>
        (case run_cmds cs db1 of (e', db2) \<Rightarrow> (if e = None then e' else e, db2)))"

definition malformed :: "redis_cmd \<Rightarrow> bool" where
  "malformed c = (case c of SAdd k ms \<Rightarrow> ms = [] | _ \<Rightarrow> False)"

definition run_tx :: "redis_cmd list \<Rightarrow> redis_db \<Rightarrow> redis_error option \<times> redis_db" where
  "run_tx cs db = (if list_ex malformed cs then (Some ExecAbort, db) else run_cmds cs db)"

datatype net = NetOk | NetFail | NetFailAfter

record redis_world =
  rw_store :: redis_db
  rw_net :: "net list"

definition net_tick :: "redis_world \<Rightarrow> net \<times> redis_world" where
  "net_tick w = (case rw_net w of [] \<Rightarrow> (NetOk, w) | n # ns \<Rightarrow> (n, w\<lparr>rw_net := ns\<rparr>))"

definition store_exec :: "redis_cmd list \<Rightarrow> redis_world \<Rightarrow> redis_error option \<times> redis_world" where
  "store_exec cs w =
     (case net_tick w of (n, w1) \<Rightarrow>
        (case run_tx cs (rw_store w1) of (e, db) \<Rightarrow>
           if n = NetFail then (Some NetError, w1)
           else (if n = NetFailAfter then Some NetError else e, w1\<lparr>rw_store := db\<rparr>)))"

definition store_smembers :: "string \<Rightarrow> redis_world \<Rightarrow> (redis_error + string list) \<times> redis_world" where
  "store_smembers k w =
     (case net_tick w of (n, w1) \<Rightarrow>
        (if n \<noteq> NetOk then Inl NetError
         else case redis_get (rw_store w1) k of
           None \<Rightarrow> Inr []
         | Some (RSet ms, d) \<Rightarrow> Inr ms
         | Some (RHash fs, d) \<Rightarrow> Inl WrongType, w1))"

definition store_hgetall :: "string \<Rightarrow> redis_world \<Rightarrow> (redis_error + (string \<times> string) list) \<times> redis_world" where
  "store_hgetall k w =
     (case net_tick w of (n, w1) \<Rightarrow>
        (if n \<noteq> NetOk then Inl NetError
         else case redis_get (rw_store w1) k of
           None \<Rightarrow> Inr []
         | Some (RHash fs, d) \<Rightarrow> Inr (map (\<lambda>(f, v, t). (f, v)) fs)
         | Some (RSet ms, d) \<Rightarrow> Inl WrongType, w1))"

definition store_api :: "redis_world redis_api" where
  "store_api = \<lparr>r_exec = store_exec, r_smembers = store_smembers, r_hgetall = store_hgetall\<rparr>"

subsection \<open>The store keeps the contract\<close>

definition field_of :: "redis_entry \<Rightarrow> string \<Rightarrow> fieldval" where
  "field_of x f = (case x of Some (RHash fs, d) \<Rightarrow> map_of fs f | _ \<Rightarrow> None)"

definition members_of :: "redis_entry \<Rightarrow> string set" where
  "members_of x = (case x of Some (RSet ms, d) \<Rightarrow> set ms | _ \<Rightarrow> {})"

text \<open>An entry without anything past its deadline, and a hash with distinct fields.\<close>

definition good_entry :: "int \<Rightarrow> redis_entry \<Rightarrow> bool" where
  "good_entry now x =
     (case x of
        None \<Rightarrow> True
      | Some (RSet ms, d) \<Rightarrow> alive now d
      | Some (RHash fs, d) \<Rightarrow>
          alive now d \<and> fs \<noteq> [] \<and> distinct (map fst fs) \<and> (\<forall>p \<in> set fs. alive now (snd (snd p))))"

definition db_ok :: "redis_db \<Rightarrow> bool" where
  "db_ok db \<longleftrightarrow> (\<forall>k. good_entry (rd_now db) (redis_get db k))"

lemma alive_simps [simp]: "alive now None" "alive now (Some t) \<longleftrightarrow> now < t"
  by (simp_all add: alive_def)

lemma redis_get_put:
  assumes "good_entry (rd_now db) x"
  shows "redis_get (redis_put k x db) k' = (if k' = k then x else redis_get db k')"
proof (cases "k' = k")
  case True
  have "live_fields (rd_now db) fs = fs \<and> fs \<noteq> []" if "x = Some (RHash fs, d)" for fs d
    using assms that by (simp add: good_entry_def live_fields_def)
  with True assms show ?thesis
    by (auto simp: redis_get_def redis_put_def good_entry_def split: option.splits redis_value.splits)
qed (auto simp: redis_get_def redis_put_def split: option.split redis_value.split)

lemma set_alist_delete: "p \<in> set (AList.delete k xs) \<Longrightarrow> p \<in> set xs"
  by (simp add: alist_delete_eq_filter)

lemma apply_cmd_good:
  "\<lbrakk>good_entry now x; positive_ttl c; apply_cmd now c x = (e, y)\<rbrakk> \<Longrightarrow> good_entry now y"
  by (cases "(now, c, x)" rule: apply_cmd.cases)
    (auto simp: good_entry_def positive_ttl_def split: option.splits redis_value.splits if_splits
      dest!: set_alist_update set_alist_delete)

lemma delete_Nil_map_of: "\<lbrakk>AList.delete k xs = []; k' \<noteq> k\<rbrakk> \<Longrightarrow> map_of xs k' = None"
  using delete_conv' [of k xs] by (auto dest: fun_cong [of _ _ k'])

lemma apply_cmd_field:
  "\<lbrakk>good_entry now x; positive_ttl c; apply_cmd now c x = (None, y)\<rbrakk>
     \<Longrightarrow> field_of y f = cmd_field now (cmd_key c) f c (field_of x f)"
  by (cases "(now, c, x)" rule: apply_cmd.cases)
    (auto simp: field_of_def update_conv' delete_conv' good_entry_def
      delete_Nil_map_of split: option.splits if_splits redis_value.splits)

lemma apply_cmd_members:
  "apply_cmd now c x = (None, y) \<Longrightarrow> members_of y = cmd_members (cmd_key c) c (members_of x)"
  by (cases "(now, c, x)" rule: apply_cmd.cases)
    (auto simp: members_of_def split: option.splits if_splits redis_value.splits)

lemma cmd_other_key:
  "k \<noteq> cmd_key c \<Longrightarrow> cmd_field now k f c x = x" "k \<noteq> cmd_key c \<Longrightarrow> cmd_members k c y = y"
  by (cases c; simp)+

lemma run_cmd_effect:
  assumes "run_cmd c db = (e, db')" and "db_ok db" and "positive_ttl c"
  shows "db_ok db' \<and> rd_now db' = rd_now db \<and>
    (e = None \<longrightarrow> (\<forall>k f. field_of (redis_get db' k) f = cmd_field (rd_now db) k f c (field_of (redis_get db k) f)) \<and>
      (\<forall>k. members_of (redis_get db' k) = cmd_members k c (members_of (redis_get db k))))"
proof -
  let ?k = "cmd_key c"
  obtain v where v: "apply_cmd (rd_now db) c (redis_get db ?k) = (e, v)" and db': "db' = redis_put ?k v db"
    using assms(1) by (auto simp: run_cmd_def split: prod.splits)
  have g: "good_entry (rd_now db) (redis_get db ?k)" using assms(2) by (simp add: db_ok_def)
  then have gv: "good_entry (rd_now db) v" using apply_cmd_good assms(3) v by blast
  have get: "redis_get db' k = (if k = ?k then v else redis_get db k)" for k
    unfolding db' by (rule redis_get_put [OF gv])
  have now: "rd_now db' = rd_now db" by (simp add: db' redis_put_def)
  have "db_ok db'" using assms(2) gv by (simp add: db_ok_def get now)
  moreover have "field_of (redis_get db' k) f = cmd_field (rd_now db) k f c (field_of (redis_get db k) f)"
    if "e = None" for k f
    using apply_cmd_field [OF g assms(3)] v that by (simp add: get cmd_other_key)
  moreover have "members_of (redis_get db' k) = cmd_members k c (members_of (redis_get db k))"
    if "e = None" for k
    using apply_cmd_members v that by (simp add: get cmd_other_key)
  ultimately show ?thesis using now by blast
qed

lemma run_cmds_effect:
  "\<lbrakk>run_cmds cs db = (e, db'); db_ok db; list_all positive_ttl cs\<rbrakk> \<Longrightarrow>
     db_ok db' \<and> rd_now db' = rd_now db \<and>
    (e = None \<longrightarrow> (\<forall>k f. field_of (redis_get db' k) f = cmds_field (rd_now db) k f cs (field_of (redis_get db k) f)) \<and>
      (\<forall>k. members_of (redis_get db' k) = cmds_members k cs (members_of (redis_get db k))))"
proof (induction cs arbitrary: db e)
  case (Cons c cs)
  obtain e1 db1 where c: "run_cmd c db = (e1, db1)" by fastforce
  obtain e2 where cs: "run_cmds cs db1 = (e2, db')" and e: "e = (if e1 = None then e2 else e1)"
    using Cons.prems(1) c by (auto split: prod.splits)
  have p: "positive_ttl c" "list_all positive_ttl cs" using Cons.prems(3) by auto
  note 1 = run_cmd_effect [OF c Cons.prems(2) p(1)]
  note 2 = Cons.IH [OF cs _ p(2)]
  show ?case using 1 2 e by (auto split: if_splits)
qed simp

lemma net_tick_store: "net_tick w = (n, w1) \<Longrightarrow> rw_store w1 = rw_store w"
  by (auto simp: net_tick_def split: list.splits)

lemma store_exec_effect:
  assumes "store_exec cs w = (e, w')" and ok: "db_ok (rw_store w)" "list_all positive_ttl cs"
  shows "db_ok (rw_store w') \<and> rd_now (rw_store w') = rd_now (rw_store w) \<and>
    (e = None \<longrightarrow> run_cmds cs (rw_store w) = (None, rw_store w'))"
proof -
  obtain n w1 where n: "net_tick w = (n, w1)" by fastforce
  obtain e' db where tx: "run_tx cs (rw_store w) = (e', db)" by fastforce
  have eff: "db_ok db \<and> rd_now db = rd_now (rw_store w)"
    using tx ok run_cmds_effect [OF _ ok] by (auto simp: run_tx_def split: if_splits)
  have w': "rw_store w' = rw_store w \<and> e \<noteq> None \<or> rw_store w' = db \<and> (e = None \<longrightarrow> e' = None)"
    using assms(1) n tx net_tick_store [OF n] by (auto simp: store_exec_def split: if_splits)
  then show ?thesis using eff ok tx by (auto simp: run_tx_def split: if_splits)
qed

lemma store_reads:
  "snd (store_smembers k w) = snd (net_tick w)" "snd (store_hgetall k w) = snd (net_tick w)"
  by (simp_all add: store_smembers_def store_hgetall_def split: prod.splits)

lemma net_tick_snd [simp]: "rw_store (snd (net_tick w)) = rw_store w"
  by (simp add: net_tick_def split: list.splits)

lemma hgetall_fields:
  assumes "good_entry now (Some (RHash fs, d))"
  shows "map_of (map (\<lambda>(f, v, t). (f, v)) fs) = (\<lambda>f. map_option fst (map_of fs f)) \<and>
    distinct (map fst (map (\<lambda>(f, v, t). (f, v)) fs))"
proof -
  have "map fst (map (\<lambda>(f, v, t). (f, v)) fs) = map fst fs" by (induction fs) auto
  moreover have "map_of (map (\<lambda>(f, v, t). (f, v)) fs) = (\<lambda>f. map_option fst (map_of fs f))"
    by (induction fs) auto
  ultimately show ?thesis using assms by (simp add: good_entry_def del: map_map)
qed

interpretation store: redis_interface store_api "\<lambda>w k f. field_of (redis_get (rw_store w) k) f"
  "\<lambda>w k. members_of (redis_get (rw_store w) k)" "\<lambda>w. rd_now (rw_store w)" "\<lambda>w. db_ok (rw_store w)"
proof (unfold_locales, goal_cases)
  case (1 cs w err w')
  then show ?case using store_exec_effect [of cs w err w'] by (simp add: store_api_def)
next
  case (2 cs w w' k f)
  then show ?case
    using store_exec_effect [of cs w None w'] run_cmds_effect [of cs "rw_store w" None "rw_store w'"]
    by (simp add: store_api_def)
next
  case (3 cs w w' k)
  then show ?case
    using store_exec_effect [of cs w None w'] run_cmds_effect [of cs "rw_store w" None "rw_store w'"]
    by (simp add: store_api_def)
next
  case (4 k w xs w')
  obtain n w1 where n: "net_tick w = (n, w1)" by fastforce
  with 4(1) net_tick_store [OF n] show ?case
    by (auto simp: store_api_def store_smembers_def members_of_def split: if_splits
        option.splits redis_value.splits)
next
  case (5 k w found w')
  then show ?case using store_reads(1) [of k w] by (auto simp: store_api_def)
next
  case (6 k w fs w')
  obtain n w1 where n: "net_tick w = (n, w1)" by fastforce
  note st = net_tick_store [OF n]
  have good: "good_entry (rd_now (rw_store w)) (redis_get (rw_store w) k)" using 6(2) by (simp add: db_ok_def)
  show ?case
  proof (cases "redis_get (rw_store w) k")
    case None
    with 6 n st show ?thesis by (auto simp: store_api_def store_hgetall_def field_of_def split: if_splits)
  next
    case (Some vd)
    then obtain hs d where "redis_get (rw_store w) k = Some (RHash hs, d)"
      "fs = map (\<lambda>(f, v, t). (f, v)) hs"
      using 6(1) n st by (cases vd; cases "fst vd") (auto simp: store_api_def store_hgetall_def split: if_splits)
    with hgetall_fields good show ?thesis by (simp add: field_of_def)
  qed
next
  case (7 k w got w')
  then show ?case using store_reads(2) [of k w] by (auto simp: store_api_def)
qed

end
