(* ===== verification/Presence.thy ===== *)
theory Presence
  imports Redis_Api Contracts
begin

text \<open>
  The presence service, \<^verbatim>\<open>presence_service/app/grpc.go\<close>: which instance holds a connection of which
  client to which room. A room is a hash from client keys to instance names, a client key is a set
  of rooms, and everything lives for \<open>connTTL\<close> unless a ping renews it.
\<close>

subsection \<open>The handlers\<close>

definition connTTL :: int where "connTTL = 60"

definition clientKey :: "string \<Rightarrow> string \<Rightarrow> string" where
  "clientKey clientID instanceName = clientID @ ''|'' @ instanceName"

definition roomKey :: "string \<Rightarrow> string" where
  "roomKey roomID = ''room:'' @ roomID"

definition saveRooms :: "string \<Rightarrow> string \<Rightarrow> string list \<Rightarrow> redis_cmd list" where
  "saveRooms clientID instanceName roomsId =
     concat (map (\<lambda>r. [HSet (roomKey r) (clientKey clientID instanceName) instanceName,
                        HExpire (roomKey r) connTTL (clientKey clientID instanceName)]) roomsId)"

definition saveClient :: "string \<Rightarrow> string \<Rightarrow> string list \<Rightarrow> redis_cmd list" where
  "saveClient clientID instanceName roomsId =
     (let ck = clientKey clientID instanceName in [Del ck, SAdd ck roomsId, Expire ck connTTL])"

record ConnectUserRequest =
  cr_RoomsId :: "string list"
  cr_InstanceName :: string
  cr_ClientId :: string

record DisconnectUserRequest =
  dr_ClientId :: string
  dr_InstanceName :: string

record PingConnectionRequest =
  pr_InstanceName :: string
  pr_ClientId :: string

text \<open>A \<^verbatim>\<open>ConnectionResponse\<close> is successful exactly when there is no error.\<close>

definition Connect :: "'r redis_api \<Rightarrow> ConnectUserRequest \<Rightarrow> 'r \<Rightarrow> redis_error option \<times> 'r" where
  "Connect api req w =
     r_exec api (saveRooms (cr_ClientId req) (cr_InstanceName req) (cr_RoomsId req)
                 @ saveClient (cr_ClientId req) (cr_InstanceName req) (cr_RoomsId req)) w"

definition Disconnect :: "'r redis_api \<Rightarrow> DisconnectUserRequest \<Rightarrow> 'r \<Rightarrow> redis_error option \<times> 'r" where
  "Disconnect api req w =
     (let ck = clientKey (dr_ClientId req) (dr_InstanceName req) in
      case r_smembers api ck w of
        (Inl e, w1) \<Rightarrow> (Some e, w1)
      | (Inr roomsId, w1) \<Rightarrow>
          if roomsId = [] then (None, w1)
          else r_exec api (Del ck # map (\<lambda>r. HDel (roomKey r) ck) roomsId) w1)"

text \<open>\<^verbatim>\<open>Ping\<close> drops the error of the read: no rooms are renewed then.\<close>

definition Ping :: "'r redis_api \<Rightarrow> PingConnectionRequest \<Rightarrow> 'r \<Rightarrow> redis_error option \<times> 'r" where
  "Ping api req w =
     (let ck = clientKey (pr_ClientId req) (pr_InstanceName req) in
      case r_smembers api ck w of
        (found, w1) \<Rightarrow>
          r_exec api (saveRooms (pr_ClientId req) (pr_InstanceName req)
                        (case found of Inl e \<Rightarrow> [] | Inr roomsId \<Rightarrow> roomsId) @ [Expire ck connTTL]) w1)"

text \<open>The instance names of a room, each once, in the order the hash is visited.\<close>

fun first_seen :: "string list \<Rightarrow> string list \<Rightarrow> string list" where
  "first_seen seen [] = []"
| "first_seen seen (i # is) =
     (if i \<in> set seen then first_seen seen is else i # first_seen (i # seen) is)"

definition IsConnected :: "'r redis_api \<Rightarrow> string \<Rightarrow> 'r \<Rightarrow> (redis_error + string list) \<times> 'r" where
  "IsConnected api roomID w =
     (case r_hgetall api (roomKey roomID) w of
        (Inl e, w1) \<Rightarrow> (Inl e, w1)
      | (Inr fs, w1) \<Rightarrow> (Inr (first_seen [] (map snd fs)), w1))"

subsection \<open>Keys\<close>

lemma roomKey_inj [simp]: "roomKey r = roomKey s \<longleftrightarrow> r = s"
  by (simp add: roomKey_def)

text \<open>A client key is never a room key unless the client's identifier starts with \<^verbatim>\<open>room:\<close>.\<close>

lemma clientKey_not_roomKey:
  assumes "\<not> HasPrefix c ''room:''"
  shows "clientKey c i \<noteq> roomKey r"
proof
  assume eq: "clientKey c i = roomKey r"
  then have p: "c @ ''|'' @ i = ''room:'' @ r" by (simp add: clientKey_def roomKey_def)
  show False
  proof (cases "length c < 5")
    case True
    have "(''room:'' @ r) ! n \<noteq> CHR ''|''" if "n < 5" for n
      using that by (auto simp: less_Suc_eq numeral_eq_Suc)
    moreover have "(c @ ''|'' @ i) ! length c = CHR ''|''" by (simp add: nth_append)
    ultimately show False using True p by metis
  next
    case False
    then have "take 5 c = ''room:''" using arg_cong [OF p, of "take 5"] by simp
    then show False using assms by (simp add: HasPrefix_def numeral_eq_Suc)
  qed
qed

text \<open>Client keys of identifiers without a bar are distinct.\<close>

lemma clientKey_inj:
  assumes "CHR ''|'' \<notin> set c" "CHR ''|'' \<notin> set d" "clientKey c i = clientKey d j"
  shows "c = d \<and> i = j"
proof -
  have "takeWhile (\<lambda>x. x \<noteq> CHR ''|'') (clientKey a k) = a" if "CHR ''|'' \<notin> set a" for a k
    using that by (auto simp: clientKey_def takeWhile_append)
  with assms have "c = d" by metis
  with assms(3) show ?thesis by (simp add: clientKey_def)
qed

lemma set_first_seen: "set (first_seen seen is) = set is - set seen"
  by (induction seen "is" rule: first_seen.induct) auto

lemma distinct_first_seen: "distinct (first_seen seen is)"
  by (induction seen "is" rule: first_seen.induct) (auto simp: set_first_seen)

subsection \<open>Effects of the commands\<close>

lemma positive_saveRooms [simp]: "list_all positive_ttl (saveRooms c i rs)"
  by (induction rs) (simp_all add: saveRooms_def positive_ttl_def connTTL_def)

lemma positive_saveClient [simp]: "list_all positive_ttl (saveClient c i rs)"
  by (simp add: saveClient_def Let_def positive_ttl_def connTTL_def)

lemma positive_removals [simp]: "list_all positive_ttl (map (\<lambda>r. HDel (roomKey r) ck) rs)"
  by (induction rs) (simp_all add: positive_ttl_def)

lemma saveRooms_Cons:
  "saveRooms c i (r # rs) = HSet (roomKey r) (clientKey c i) i
     # HExpire (roomKey r) connTTL (clientKey c i) # saveRooms c i rs"
  by (simp add: saveRooms_def)

lemma saveRooms_Nil [simp]: "saveRooms c i [] = []"
  by (simp add: saveRooms_def)

lemma saveRooms_field:
  "cmds_field now (roomKey r) f (saveRooms c i rs) x =
     (if r \<in> set rs \<and> f = clientKey c i then Some (i, Some (now + 1000 * connTTL)) else x)"
  by (induction rs arbitrary: x) (auto simp: saveRooms_Cons)

lemma saveRooms_members [simp]: "cmds_members k (saveRooms c i rs) x = x"
  by (induction rs) (auto simp: saveRooms_Cons)

lemma saveClient_members: "cmds_members (clientKey c i) (saveClient c i rs) x = set rs"
  by (simp add: saveClient_def Let_def)

lemma saveClient_field:
  "\<not> HasPrefix c ''room:'' \<Longrightarrow> cmds_field now (roomKey r) f (saveClient c i rs) x = x"
  by (simp add: saveClient_def Let_def clientKey_not_roomKey)

lemma removals_field:
  "cmds_field now (roomKey r) f (map (\<lambda>r. HDel (roomKey r) ck) rs) x = (if r \<in> set rs \<and> f = ck then None else x)"
  by (induction rs arbitrary: x) auto

lemma removals_members [simp]: "cmds_members k (map (\<lambda>r. HDel (roomKey r) ck) rs) x = x"
  by (induction rs) auto

subsection \<open>What the handlers do, over the contract\<close>

context redis_interface
begin

lemma Connect_effect:
  assumes "Connect api req w = (None, w')" and "ok w" and "\<not> HasPrefix (cr_ClientId req) ''room:''"
  defines "ck \<equiv> clientKey (cr_ClientId req) (cr_InstanceName req)"
  shows "ok w'" and "now w' = now w" and "members w' ck = set (cr_RoomsId req)"
    and "field w' (roomKey r) f =
      (if r \<in> set (cr_RoomsId req) \<and> f = ck then Some (cr_InstanceName req, Some (now w + 1000 * connTTL))
       else field w (roomKey r) f)"
  using exec_ok [OF assms(1) [unfolded Connect_def] assms(2)]
    exec_members [OF assms(1) [unfolded Connect_def] assms(2)]
    exec_field [OF assms(1) [unfolded Connect_def] assms(2)] assms(3)
  by (simp_all add: ck_def saveClient_members saveClient_field saveRooms_field)

lemma Disconnect_effect:
  assumes "Disconnect api req w = (None, w')" and "ok w" and "\<not> HasPrefix (dr_ClientId req) ''room:''"
  defines "ck \<equiv> clientKey (dr_ClientId req) (dr_InstanceName req)"
  shows "ok w' \<and> now w' = now w \<and> members w' ck = {} \<and>
    field w' (roomKey r) f = (if r \<in> members w ck \<and> f = ck then None else field w (roomKey r) f)"
proof -
  obtain found w1 where sm: "r_smembers api ck w = (found, w1)" by fastforce
  note w1 = smembers_frame [OF sm assms(2)]
  from assms(1) sm obtain xs where xs: "found = Inr xs" by (cases found) (auto simp: Disconnect_def ck_def)
  have set: "set xs = members w ck" using smembers sm assms(2) xs by blast
  show ?thesis
  proof (cases "xs = []")
    case True
    then have "w' = w1" using assms(1) sm xs by (simp add: Disconnect_def ck_def)
    with w1 True set show ?thesis by auto
  next
    case False
    let ?cs = "Del ck # map (\<lambda>r. HDel (roomKey r) ck) xs"
    have ex: "r_exec api ?cs w1 = (None, w')" using False assms(1) sm xs by (simp add: Disconnect_def ck_def Let_def)
    have pos: "list_all positive_ttl ?cs" using positive_removals by (simp add: positive_ttl_def)
    have w1ok: "ok w1" using w1 by simp
    have "ck \<noteq> roomKey r" using assms(3) by (simp add: ck_def clientKey_not_roomKey)
    then show ?thesis
      using exec_ok [OF ex w1ok pos] exec_members [OF ex w1ok pos, of ck] exec_field [OF ex w1ok pos, of "roomKey r" f] w1 set
      by (simp add: removals_field)
  qed
qed

lemma Ping_effect:
  assumes "Ping api req w = (None, w')" and "ok w"
  defines "ck \<equiv> clientKey (pr_ClientId req) (pr_InstanceName req)"
  shows "ok w' \<and> now w' = now w \<and> members w' = members w \<and>
    ((\<forall>r f. field w' (roomKey r) f =
        (if r \<in> members w ck \<and> f = ck then Some (pr_InstanceName req, Some (now w + 1000 * connTTL))
         else field w (roomKey r) f)) \<or>
     (\<forall>r. field w' (roomKey r) = field w (roomKey r)) \<and> (\<exists>e. fst (r_smembers api ck w) = Inl e))"
proof -
  obtain found w1 where sm: "r_smembers api ck w = (found, w1)" by fastforce
  note w1 = smembers_frame [OF sm assms(2)]
  define rs where "rs = (case found of Inl e \<Rightarrow> [] | Inr roomsId \<Rightarrow> roomsId)"
  let ?cs = "saveRooms (pr_ClientId req) (pr_InstanceName req) rs @ [Expire ck connTTL]"
  have ex: "r_exec api ?cs w1 = (None, w')" using assms(1) sm by (simp add: Ping_def ck_def rs_def Let_def)
  have pos: "list_all positive_ttl ?cs" by (simp add: positive_ttl_def connTTL_def)
  have w1ok: "ok w1" using w1 by simp
  have fld: "field w' (roomKey r) f =
      (if r \<in> set rs \<and> f = ck then Some (pr_InstanceName req, Some (now w + 1000 * connTTL))
       else field w (roomKey r) f)" for r f
    using exec_field [OF ex w1ok pos] w1 by (simp add: saveRooms_field ck_def)
  have mem: "members w' = members w"
    using exec_members [OF ex w1ok pos] w1 by auto
  show ?thesis
  proof (cases found)
    case (Inl e)
    then have "field w' (roomKey r) = field w (roomKey r)" for r using fld by (auto simp: rs_def)
    with Inl exec_ok [OF ex w1ok pos] w1 mem sm show ?thesis by simp
  next
    case (Inr xs)
    then have "set rs = members w ck" using smembers [of ck w xs w1] sm assms(2) by (simp add: rs_def)
    with exec_ok [OF ex w1ok pos] w1 mem fld show ?thesis by simp
  qed
qed

lemma IsConnected_effect:
  assumes "IsConnected api r w = (Inr names, w')" and "ok w"
  shows "distinct names \<and> set names = {i. \<exists>f d. field w (roomKey r) f = Some (i, d)}"
proof -
  obtain fs where fs: "r_hgetall api (roomKey r) w = (Inr fs, w')" and n: "names = first_seen [] (map snd fs)"
    using assms(1) by (auto simp: IsConnected_def split: prod.splits sum.splits)
  note h = hgetall [OF fs assms(2)]
  have "i \<in> snd ` set fs \<longleftrightarrow> (\<exists>f. map_of fs f = Some i)" for i
    using h [THEN conjunct2] by (force simp: map_of_eq_Some_iff)
  then have "set names = {i. \<exists>f. map_of fs f = Some i}" unfolding n set_first_seen by auto
  then have "set names = {i. \<exists>f d. field w (roomKey r) f = Some (i, d)}" using h by simp
  then show ?thesis by (simp add: n distinct_first_seen)
qed

end

end
