(* ===== verification/Ws_Handler.thy ===== *)
theory Ws_Handler
  imports Ws_Hub Presence Message_Store
begin

text \<open>
  The WebSocket endpoint of the message service, \<^verbatim>\<open>message_service/app/transport/ws/ws.go\<close>, and the
  write pump of a connection (\<^verbatim>\<open>ws/client.go\<close>). The presence client and the ingest handler are the
  operations of a \<open>ws_service\<close>; the gorilla connection is the list of what its reads return, with the
  actions of the other goroutines before each of them.
\<close>

subsection \<open>Constants and parameters\<close>

text \<open>Durations are nanoseconds.\<close>

definition writeTimeout :: int where "writeTimeout = 10 * 1000000000"
definition pongWait :: int where "pongWait = 60 * 1000000000"
definition pingPeriod :: int where "pingPeriod = pongWait * 9 div 10"
definition maxMessageBytes :: nat where "maxMessageBytes = 2 ^ 20"

text \<open>The result of a remote call: \<^const>\<open>Inl\<close> when the call fails, otherwise the response's success flag.\<close>

record ('e, 'w) ws_service =
  ws_Connect :: "ConnectUserRequest \<Rightarrow> 'w \<Rightarrow> (unit + bool) \<times> 'w"
  ws_Disconnect :: "DisconnectUserRequest \<Rightarrow> 'w \<Rightarrow> (unit + bool) \<times> 'w"
  ws_Ping :: "PingConnectionRequest \<Rightarrow> 'w \<Rightarrow> (unit + bool) \<times> 'w"
  ws_HandleIncoming :: "string \<Rightarrow> SendRequest \<Rightarrow> 'w \<Rightarrow> ('e + Event) \<times> 'w"

record 'w ws_state =
  st_hub :: hub
  st_world :: 'w
  st_closed :: "conn set"

datatype ws_error =
    HubRequired | DialRequired | IngestRequired | ClientIDParam | RoomIDsParam
  | UpgradeFailed | ConnectFailed | ConnectRejected
  | FrameMarshalFailed | FrameInvalid contract_error | FrameCtxDone | FrameBlocked

definition NewWs :: "hub option \<Rightarrow> string \<Rightarrow> 'i option \<Rightarrow> ws_error + (hub \<times> string \<times> 'i)" where
  "NewWs h serviceDial i =
     (case h of
        None \<Rightarrow> Inl HubRequired
      | Some hub \<Rightarrow>
          if length serviceDial = 0 then Inl DialRequired
          else case i of None \<Rightarrow> Inl IngestRequired | Some ingest \<Rightarrow> Inr (hub, serviceDial, ingest))"

text \<open>\<^verbatim>\<open>url.Values.Get\<close>: the first value of the key, or the empty string.\<close>

definition url_Get :: "(string \<times> string list) list \<Rightarrow> string \<Rightarrow> string" where
  "url_Get vs k = (case map_of vs k of Some (v # _) \<Rightarrow> v | _ \<Rightarrow> [])"

definition getParams :: "(string \<times> string list) list \<Rightarrow> ws_error + string \<times> string list" where
  "getParams url =
     (let clientID = url_Get url ''client_id''; roomParam = url_Get url ''room_ids'' in
      if clientID = [] then Inl ClientIDParam
      else if roomParam = [] then Inl RoomIDsParam
      else Inr (clientID, Split (CHR '','') roomParam))"

subsection \<open>Answers\<close>

datatype frame = Accepted AcceptedAck | Rejected RejectedAck

fun marshal_frame :: "frame \<Rightarrow> bytes option" where
  "marshal_frame (Accepted a) = marshal_AcceptedAck a"
| "marshal_frame (Rejected r) = marshal_RejectedAck r"

definition NewClientConnection :: "string \<Rightarrow> conn \<Rightarrow> ClientConnection" where
  "NewClientConnection clientID p = \<lparr>cc_ClientID = clientID, cc_Ptr = p\<rparr>"

text \<open>
  \<open>stopped\<close>: the select takes the branch of the done context. A handler that finds the buffer full waits;
  \<open>FrameBlocked\<close> is that state, not an error of the code.
\<close>

definition enqueue :: "bool \<Rightarrow> ClientConnection \<Rightarrow> frame \<Rightarrow> hub \<Rightarrow> ws_error option \<times> hub" where
  "enqueue stopped client f h =
     (case marshal_frame f of
        None \<Rightarrow> (Some FrameMarshalFailed, h)
      | Some serialized \<Rightarrow>
          if stopped then (Some FrameCtxDone, h)
          else if length (hub_send h (cc_Ptr client)) < sendCap
          then (None, h\<lparr>hub_send := (hub_send h)(cc_Ptr client := hub_send h (cc_Ptr client) @ [serialized])\<rparr>)
          else (Some FrameBlocked, h))"

definition rejection :: "string \<Rightarrow> string \<Rightarrow> RejectedAck" where
  "rejection clientMessageID errorCode =
     \<lparr>rej_Type = RejectedFrameType, rej_Version = Version, rej_ClientMessageID = clientMessageID,
      rej_ErrorCode = errorCode\<rparr>"

definition enqueueRejected :: "bool \<Rightarrow> ClientConnection \<Rightarrow> string \<Rightarrow> string \<Rightarrow> hub \<Rightarrow> ws_error option \<times> hub" where
  "enqueueRejected stopped client clientMessageID errorCode h =
     (case RejectedAck_Validate (rejection clientMessageID errorCode) of
        Some e \<Rightarrow> (Some (FrameInvalid e), h)
      | None \<Rightarrow> enqueue stopped client (Rejected (rejection clientMessageID errorCode)) h)"

definition handleMessage ::
  "('e, 'w) ws_service \<Rightarrow> bool \<Rightarrow> bytes \<Rightarrow> string \<Rightarrow> ClientConnection \<Rightarrow> hub \<Rightarrow> 'w
     \<Rightarrow> ws_error option \<times> hub \<times> 'w" where
  "handleMessage api stopped data clientID client h w =
     (case unmarshal_SendRequest data of
        None \<Rightarrow> (case enqueueRejected stopped client [] InvalidRequestErrorCode h of (e, h1) \<Rightarrow> (e, h1, w))
      | Some request \<Rightarrow>
     (case SendRequest_Validate request of
        Some _ \<Rightarrow> (case enqueueRejected stopped client (req_ClientMessageID request) InvalidRequestErrorCode h of
          (e, h1) \<Rightarrow> (e, h1, w))
      | None \<Rightarrow>
     (case ws_HandleIncoming api clientID request w of
        (Inl _, w1) \<Rightarrow> (case enqueueRejected stopped client (req_ClientMessageID request) NotAcceptedErrorCode h of
          (e, h1) \<Rightarrow> (e, h1, w1))
      | (Inr event, w1) \<Rightarrow>
          (let ack = ack_of event in
           case AcceptedAck_Validate ack of
             Some _ \<Rightarrow> (case enqueueRejected stopped client (req_ClientMessageID request) NotAcceptedErrorCode h of
               (e, h1) \<Rightarrow> (e, h1, w1))
           | None \<Rightarrow> (case enqueue stopped client (Accepted ack) h of (e, h1) \<Rightarrow> (e, h1, w1))))))"

subsection \<open>Connections\<close>

definition close_conn :: "conn \<Rightarrow> 'w ws_state \<Rightarrow> 'w ws_state" where
  "close_conn p st = st\<lparr>st_closed := insert p (st_closed st)\<rparr>"

definition configureConnection ::
  "('e, 'w) ws_service \<Rightarrow> string \<Rightarrow> bool \<Rightarrow> conn \<Rightarrow> string \<Rightarrow> string list \<Rightarrow> 'w ws_state \<Rightarrow> ws_error option \<times> 'w ws_state" where
  "configureConnection api serviceDial upgraded p clientId roomIds st =
     (if \<not> upgraded then (Some UpgradeFailed, st)
      else case ws_Connect api \<lparr>cr_RoomsId = roomIds, cr_InstanceName = serviceDial, cr_ClientId = clientId\<rparr> (st_world st) of
        (Inl _, w1) \<Rightarrow> (Some ConnectFailed, close_conn p (st\<lparr>st_world := w1\<rparr>))
      | (Inr False, w1) \<Rightarrow> (Some ConnectRejected, close_conn p (st\<lparr>st_world := w1\<rparr>))
      | (Inr True, w1) \<Rightarrow> (None, st\<lparr>st_world := w1\<rparr>))"

text \<open>The disconnect request names no instance: its \<^verbatim>\<open>InstanceName\<close> is the empty string.\<close>

definition disconnect :: "('e, 'w) ws_service \<Rightarrow> string \<Rightarrow> conn \<Rightarrow> 'w ws_state \<Rightarrow> 'w ws_state" where
  "disconnect api clientId p st =
     (let st1 = close_conn p (st\<lparr>st_hub := snd (Unregister clientId (st_hub st))\<rparr>)
      in st1\<lparr>st_world := snd (ws_Disconnect api \<lparr>dr_ClientId = clientId, dr_InstanceName = []\<rparr> (st_world st1))\<rparr>)"

text \<open>
  The ping loop, for the ticks before the context is done: what the other goroutines do before the tick,
  and whether the control frame can be written.
\<close>

fun runPing ::
  "('e, 'w) ws_service \<Rightarrow> string \<Rightarrow> conn \<Rightarrow> string \<Rightarrow> (('w ws_state \<Rightarrow> 'w ws_state) \<times> bool) list
     \<Rightarrow> 'w ws_state \<Rightarrow> 'w ws_state" where
  "runPing api serviceDial p clientId [] st = st"
| "runPing api serviceDial p clientId ((others, written) # ticks) st =
     (let st1 = others st in
      if \<not> written then close_conn p st1
      else case ws_Ping api \<lparr>pr_InstanceName = serviceDial, pr_ClientId = clientId\<rparr> (st_world st1) of
        (Inr True, w1) \<Rightarrow> runPing api serviceDial p clientId ticks (st1\<lparr>st_world := w1\<rparr>)
      | (_, w1) \<Rightarrow> close_conn p (st1\<lparr>st_world := w1\<rparr>))"

text \<open>One read of the connection; message types 1 and 2 are text and binary messages.\<close>

datatype ws_read = ReadMessage int bytes | ReadError

definition is_data_type :: "int \<Rightarrow> bool" where
  "is_data_type t \<longleftrightarrow> t = 1 \<or> t = 2"

text \<open>
  The reads of a connection, each with what the other goroutines do before it. The flag says whether the
  loop has returned; it has not when its reads are used up or a handler waits.
\<close>

fun read_loop ::
  "('e, 'w) ws_service \<Rightarrow> string \<Rightarrow> ClientConnection \<Rightarrow> (('w ws_state \<Rightarrow> 'w ws_state) \<times> bool \<times> ws_read) list
     \<Rightarrow> 'w ws_state \<Rightarrow> bool \<times> 'w ws_state" where
  "read_loop api clientID client [] st = (False, st)"
| "read_loop api clientID client ((others, stopped, ReadError) # reads) st = (True, others st)"
| "read_loop api clientID client ((others, stopped, ReadMessage msgType data) # reads) st =
     (let st1 = others st in
      if \<not> is_data_type msgType then read_loop api clientID client reads st1
      else case handleMessage api stopped data clientID client (st_hub st1) (st_world st1) of
        (e, h, w) \<Rightarrow>
          if e = Some FrameBlocked then (False, st1\<lparr>st_hub := h, st_world := w\<rparr>)
          else read_loop api clientID client reads (st1\<lparr>st_hub := h, st_world := w\<rparr>))"

datatype serve_result = BadRequest ws_error | RegisterRefused hub_error | Served | StillServing

definition ServeWS ::
  "('e, 'w) ws_service \<Rightarrow> string \<Rightarrow> (string \<times> string list) list \<Rightarrow> bool \<Rightarrow> conn
     \<Rightarrow> (('w ws_state \<Rightarrow> 'w ws_state) \<times> bool \<times> ws_read) list \<Rightarrow> 'w ws_state \<Rightarrow> serve_result \<times> 'w ws_state" where
  "ServeWS api serviceDial query upgraded p reads st =
     (case getParams query of
        Inl e \<Rightarrow> (BadRequest e, st)
      | Inr (clientID, roomIDs) \<Rightarrow>
     (case configureConnection api serviceDial upgraded p clientID roomIDs st of
        (Some e, st1) \<Rightarrow> (BadRequest e, st1)
      | (None, st1) \<Rightarrow>
          (let client = NewClientConnection clientID p in
           case Register roomIDs (Some client) (st_hub st1) of
             (Some e, h) \<Rightarrow> (RegisterRefused e, disconnect api clientID p (st1\<lparr>st_hub := h\<rparr>))
           | (None, h) \<Rightarrow>
               (case read_loop api clientID client reads (st1\<lparr>st_hub := h\<rparr>) of
                  (True, st2) \<Rightarrow> (Served, disconnect api clientID p st2)
                | (False, st2) \<Rightarrow> (StillServing, st2)))))"

text \<open>
  The write pump over the buffer of its connection: \<open>pump_step\<close> takes the oldest frame and writes it.
  The result is what was written and whether the pump goes on.
\<close>

definition pump_step :: "bool \<Rightarrow> conn \<Rightarrow> hub \<Rightarrow> bytes list \<times> bool \<times> hub" where
  "pump_step written p h =
     (case hub_send h p of
        [] \<Rightarrow> ([], True, h)
      | msg # msgs \<Rightarrow>
          (if written then [msg] else [], written, h\<lparr>hub_send := (hub_send h)(p := msgs)\<rparr>))"

fun WritePump :: "bool list \<Rightarrow> conn \<Rightarrow> hub \<Rightarrow> bytes list \<times> hub" where
  "WritePump [] p h = ([], h)"
| "WritePump (written # rest) p h =
     (case pump_step written p h of
        (out, go_on, h1) \<Rightarrow>
          if go_on then (case WritePump rest p h1 of (out', h2) \<Rightarrow> (out @ out', h2)) else (out, h1))"

subsection \<open>Exactly one answer\<close>

lemma rejection_valid:
  "errorCode = InvalidRequestErrorCode \<or> errorCode = NotAcceptedErrorCode \<Longrightarrow>
     RejectedAck_Validate (rejection cm errorCode) = None"
proof -
  have "\<not> blank InvalidRequestErrorCode" "\<not> blank NotAcceptedErrorCode" by code_simp+
  then show "errorCode = InvalidRequestErrorCode \<or> errorCode = NotAcceptedErrorCode \<Longrightarrow> ?thesis"
    by (auto simp: RejectedAck_Validate_def rejection_def)
qed

text \<open>The frame that answers a message, and the world after it.\<close>

definition answer :: "('e, 'w) ws_service \<Rightarrow> bytes \<Rightarrow> string \<Rightarrow> 'w \<Rightarrow> frame \<times> 'w" where
  "answer api data clientID w =
     (case unmarshal_SendRequest data of
        None \<Rightarrow> (Rejected (rejection [] InvalidRequestErrorCode), w)
      | Some request \<Rightarrow>
          if SendRequest_Validate request \<noteq> None
          then (Rejected (rejection (req_ClientMessageID request) InvalidRequestErrorCode), w)
          else case ws_HandleIncoming api clientID request w of
            (Inl _, w1) \<Rightarrow> (Rejected (rejection (req_ClientMessageID request) NotAcceptedErrorCode), w1)
          | (Inr event, w1) \<Rightarrow>
              (if AcceptedAck_Validate (ack_of event) = None then Accepted (ack_of event)
               else Rejected (rejection (req_ClientMessageID request) NotAcceptedErrorCode), w1))"

lemma handleMessage_answer:
  "handleMessage api stopped data clientID client h w =
     (case answer api data clientID w of (f, w1) \<Rightarrow> (case enqueue stopped client f h of (e, h1) \<Rightarrow> (e, h1, w1)))"
  by (auto simp: handleMessage_def answer_def enqueueRejected_def rejection_valid Let_def
      split: option.split sum.split prod.split)

lemma enqueue_rooms [simp]: "hub_rooms (snd (enqueue stopped client f h)) = hub_rooms h"
  by (auto simp: enqueue_def split: option.split)

lemma enqueue_cap:
  "\<forall>p. length (hub_send h p) \<le> sendCap \<Longrightarrow> length (hub_send (snd (enqueue stopped client f h)) p) \<le> sendCap"
  by (auto simp: enqueue_def split: option.split)

lemma enqueue_other [simp]:
  "p \<noteq> cc_Ptr client \<Longrightarrow> hub_send (snd (enqueue stopped client f h)) p = hub_send h p"
  by (auto simp: enqueue_def split: option.split)

lemma handleMessage_inv: "handleMessage api stopped data c client h w = (e, h', w') \<Longrightarrow> hub_inv h' = hub_inv h"
proof -
  assume m: "handleMessage api stopped data c client h w = (e, h', w')"
  obtain f w1 where "answer api data c w = (f, w1)" by fastforce
  with m have "enqueue stopped client f h = (e, h')" by (auto simp: handleMessage_answer split: prod.splits)
  then have "hub_rooms h' = hub_rooms h" by (metis enqueue_rooms snd_conv)
  then show ?thesis by (simp add: hub_inv_rooms)
qed

lemma read_loop_inv:
  "\<lbrakk>read_loop api c client reads st = (ret, st'); hub_inv (st_hub st);
    \<forall>(others, stopped, r) \<in> set reads. \<forall>s. hub_inv (st_hub s) \<longrightarrow> hub_inv (st_hub (others s))\<rbrakk> \<Longrightarrow> hub_inv (st_hub st')"
proof (induction api c client reads st rule: read_loop.induct)
  case (3 api c client others stopped t data reads st)
  obtain e h w where m: "handleMessage api stopped data c client (st_hub (others st)) (st_world (others st)) = (e, h, w)"
    using prod_cases3 by blast
  have inv: "hub_inv (st_hub (others st))" using 3 by simp
  have "hub_inv h" using handleMessage_inv [OF m] inv by simp
  with 3 m inv show ?case by (auto simp: Let_def split: if_splits)
qed auto

end
