(* ===== verification/Envelope.thy ===== *)
theory Envelope
  imports Contracts
begin

text \<open>
  The envelope in which the delivery service sends an event to an instance over Redis:
  \<^verbatim>\<open>Message\<close> of \<^verbatim>\<open>delivery_service/app/messageService.go\<close> on the sending side and \<^verbatim>\<open>redisMessage\<close> of
  \<^verbatim>\<open>message_service/infra/redis/consumer.go\<close> on the receiving side, two structs with the same JSON
  text. A byte slice is the base64 text of its bytes (\<^const>\<open>None\<close> is the nil slice, written as
  \<^verbatim>\<open>null\<close>), a string map an object with sorted keys (\<^const>\<open>None\<close> is the nil map).
\<close>

subsection \<open>Base64\<close>

definition b64_char :: "nat \<Rightarrow> char" where
  "b64_char n =
     (if n < 26 then char_of (n + 65) else if n < 52 then char_of (n + 71)
      else if n < 62 then char_of (n - 4) else if n = 62 then CHR ''+'' else CHR ''/'')"

definition b64_val :: "char \<Rightarrow> nat option" where
  "b64_val c =
     (let n = byte_val c in
      if 65 \<le> n \<and> n \<le> 90 then Some (n - 65)
      else if 97 \<le> n \<and> n \<le> 122 then Some (n - 71)
      else if 48 \<le> n \<and> n \<le> 57 then Some (n + 4)
      else if c = CHR ''+'' then Some 62
      else if c = CHR ''/'' then Some 63
      else None)"

fun b64_encode :: "bytes \<Rightarrow> string" where
  "b64_encode [] = []"
| "b64_encode [x] =
     (let a = byte_val x in
      [b64_char (a div 4), b64_char (a mod 4 * 16), CHR ''='', CHR ''=''])"
| "b64_encode [x, y] =
     (let a = byte_val x; b = byte_val y in
      [b64_char (a div 4), b64_char (a mod 4 * 16 + b div 16), b64_char (b mod 16 * 4), CHR ''=''])"
| "b64_encode (x # y # z # s) =
     (let a = byte_val x; b = byte_val y; c = byte_val z in
      b64_char (a div 4) # b64_char (a mod 4 * 16 + b div 16)
        # b64_char (b mod 16 * 4 + c div 64) # b64_char (c mod 64) # b64_encode s)"

text \<open>Four characters at a time; padding only in the last group.\<close>

fun b64_groups :: "string \<Rightarrow> bytes option" where
  "b64_groups [] = Some []"
| "b64_groups (p # q # r # s # rest) =
     (case (b64_val p, b64_val q) of
        (Some a, Some b) \<Rightarrow>
          (if r = CHR ''='' then
             (if s = CHR ''='' \<and> rest = [] then Some [char_of (a * 4 + b div 16)] else None)
           else case b64_val r of
             None \<Rightarrow> None
           | Some c \<Rightarrow>
               if s = CHR ''='' then
                 (if rest = [] then Some [char_of (a * 4 + b div 16), char_of (b mod 16 * 16 + c div 4)]
                  else None)
               else case b64_val s of
                 None \<Rightarrow> None
               | Some d \<Rightarrow>
                   map_option (\<lambda>t. char_of (a * 4 + b div 16) # char_of (b mod 16 * 16 + c div 4)
                                     # char_of (c mod 4 * 64 + d) # t) (b64_groups rest))
      | _ \<Rightarrow> None)"
| "b64_groups [p] = None"
| "b64_groups [p, q] = None"
| "b64_groups [p, q, r] = None"

text \<open>Line breaks are skipped.\<close>

definition b64_decode :: "string \<Rightarrow> bytes option" where
  "b64_decode s = b64_groups (filter (\<lambda>c. c \<noteq> CHR 0x0A \<and> c \<noteq> CHR 0x0D) s)"

lemma b64_val_char: "n < 64 \<Longrightarrow> b64_val (b64_char n) = Some n"
  by (auto simp: b64_char_def b64_val_def Let_def)

lemma b64_char_byte:
  "n < 64 \<Longrightarrow> byte_val (b64_char n) \<noteq> 61 \<and> 32 < byte_val (b64_char n) \<and> byte_val (b64_char n) < 128"
  by (auto simp: b64_char_def)

lemma b64_char_plain:
  assumes "n < 64"
  shows "b64_char n \<noteq> CHR ''='' \<and> b64_char n \<noteq> CHR 0x0A \<and> b64_char n \<noteq> CHR 0x0D \<and> byte_val (b64_char n) < 128"
  using b64_char_byte [OF assms] by (auto dest: arg_cong [of _ _ byte_val])

lemma byte_val_less: "byte_val c < 256"
  by simp

lemma byte_div: "b < 256 \<Longrightarrow> b div 16 div 16 = (0::nat)" "b < 256 \<Longrightarrow> b div 16 mod 16 = (b div 16 :: nat)"
  "c < 256 \<Longrightarrow> c div 64 div 4 = (0::nat)" "c < 256 \<Longrightarrow> c div 64 mod 4 = (c div 64 :: nat)"
  by (auto simp: less_mult_imp_div_less)

lemma byte_parts:
  "a < 256 \<Longrightarrow> a div 4 < (64::nat)" "a mod 4 * 16 < (64::nat)"
  "b < 256 \<Longrightarrow> a mod 4 * 16 + b div 16 < (64::nat)" "b mod 16 * 4 < (64::nat)"
  "c < 256 \<Longrightarrow> b mod 16 * 4 + c div 64 < (64::nat)" "c mod 64 < (64::nat)"
proof -
  have m: "a mod 4 < 4" "b mod 16 < 16" "c mod 64 < 64" by simp_all
  have d: "x div k < j" if "x < j * k" for x j k :: nat using that by (rule less_mult_imp_div_less)
  show "a mod 4 * 16 < 64" "b mod 16 * 4 < 64" "c mod 64 < 64" using m by linarith+
  show "a div 4 < 64" if "a < 256" using d [of a 64 4] that by simp
  show "a mod 4 * 16 + b div 16 < 64" if "b < 256" using d [of b 16 16] that m by linarith
  show "b mod 16 * 4 + c div 64 < 64" if "c < 256" using d [of c 4 64] that m by linarith
qed

lemma b64_groups_encode: "b64_groups (b64_encode s) = Some s"
proof (induction s rule: b64_encode.induct)
  case (4 x y z s)
  then show ?case
    by (simp add: Let_def b64_val_char b64_char_plain byte_parts byte_div byte_val_less)
qed (simp_all add: Let_def b64_val_char b64_char_plain byte_parts byte_div byte_val_less)

lemma b64_encode_plain: "c \<in> set (b64_encode s) \<Longrightarrow> c \<noteq> CHR 0x0A \<and> c \<noteq> CHR 0x0D \<and> byte_val c < 128"
proof (induction s rule: b64_encode.induct)
  case (4 x y z s)
  then show ?case by (auto simp: Let_def b64_char_plain byte_parts byte_val_less)
qed (auto simp: Let_def b64_char_plain byte_parts byte_val_less)

theorem b64_decode_encode: "b64_decode (b64_encode s) = Some s"
proof -
  have "filter (\<lambda>c. c \<noteq> CHR 0x0A \<and> c \<noteq> CHR 0x0D) (b64_encode s) = b64_encode s"
    using b64_encode_plain by (auto simp: filter_id_conv)
  then show ?thesis by (simp add: b64_decode_def b64_groups_encode)
qed

subsection \<open>The envelope\<close>

record Message =
  em_Key :: "bytes option"
  em_Value :: "bytes option"
  em_Headers :: "(string \<times> string) list option"
  em_Timestamp :: gotime

definition slice :: "bytes option \<Rightarrow> bytes" where
  "slice b = (case b of None \<Rightarrow> [] | Some x \<Rightarrow> x)"

definition marshal_bytes :: "bytes option \<Rightarrow> string" where
  "marshal_bytes b = (case b of None \<Rightarrow> ''null'' | Some x \<Rightarrow> quote (b64_encode x))"

text \<open>Byte-wise order of strings, in which \<^verbatim>\<open>json.Marshal\<close> writes the keys of a map.\<close>

fun bytes_le :: "string \<Rightarrow> string \<Rightarrow> bool" where
  "bytes_le [] t = True"
| "bytes_le (c # s) [] = False"
| "bytes_le (c # s) (d # t) = (byte_val c < byte_val d \<or> c = d \<and> bytes_le s t)"

definition marshal_headers :: "(string \<times> string) list option \<Rightarrow> string" where
  "marshal_headers hs =
     (case hs of
        None \<Rightarrow> ''null''
      | Some ms \<Rightarrow> object (map (\<lambda>(k, v). member k (quote v)) (sort_by (\<lambda>a b. bytes_le (fst a) (fst b)) ms)))"

definition marshal_Message :: "Message \<Rightarrow> bytes option" where
  "marshal_Message m =
     (case marshal_time (em_Timestamp m) of
        None \<Rightarrow> None
      | Some t \<Rightarrow>
          Some (object [member ''Key'' (marshal_bytes (em_Key m)), member ''Value'' (marshal_bytes (em_Value m)),
                        member ''Headers'' (marshal_headers (em_Headers m)), member ''Timestamp'' t]))"

definition decode_bytes :: "bytes option \<Rightarrow> string \<Rightarrow> bytes option option" where
  "decode_bytes old v =
     (if is_null v then Some None
      else if v \<noteq> [] \<and> hd v = CHR 0x22 then map_option Some (b64_decode (unquote (butlast (tl v))))
      else None)"

text \<open>A member of a string map; \<^verbatim>\<open>null\<close> gives the empty string.\<close>

fun decode_headers_from :: "(string \<times> string) list \<Rightarrow> (string \<times> string) list \<Rightarrow> (string \<times> string) list option" where
  "decode_headers_from acc [] = Some acc"
| "decode_headers_from acc ((k, v) # ms) =
     (case decode_string [] v of
        None \<Rightarrow> None
      | Some x \<Rightarrow> decode_headers_from (AList.update k x acc) ms)"

definition decode_headers ::
  "(string \<times> string) list option \<Rightarrow> string \<Rightarrow> (string \<times> string) list option option" where
  "decode_headers old v =
     (case parse_document v of
        Some Null \<Rightarrow> Some None
      | Some (Object ms) \<Rightarrow>
          map_option Some (decode_headers_from (case old of None \<Rightarrow> [] | Some h \<Rightarrow> h) ms)
      | _ \<Rightarrow> None)"

definition decode_Message :: "(string \<times> string) list \<Rightarrow> Message option" where
  "decode_Message ms =
     Option.bind (field decode_bytes None ''Key'' ms) (\<lambda>k.
     Option.bind (field decode_bytes None ''Value'' ms) (\<lambda>v.
     Option.bind (field decode_headers None ''Headers'' ms) (\<lambda>h.
     Option.bind (field decode_time zero_time ''Timestamp'' ms) (\<lambda>t.
       Some \<lparr>em_Key = k, em_Value = v, em_Headers = h, em_Timestamp = t\<rparr>))))"

definition unmarshal_redisMessage :: "bytes \<Rightarrow> Message option" where
  "unmarshal_redisMessage =
     unmarshal decode_Message \<lparr>em_Key = None, em_Value = None, em_Headers = None, em_Timestamp = zero_time\<rparr>"

end
