(* ===== verification/Presence_Props.thy ===== *)
theory Presence_Props
  imports Presence
begin

text \<open>
  The properties of the presence service on the concrete store: its keys keep their types under any
  history of requests, so that a healthy store never refuses a connection; who is connected, for how
  long, and what a disconnect removes.
\<close>

subsection \<open>Types of the keys\<close>

text \<open>Room keys hold hashes without a deadline of their own; all other keys hold sets.\<close>

definition entry_wf :: "string \<Rightarrow> redis_entry \<Rightarrow> bool" where
  "entry_wf k x =
     (case x of
        None \<Rightarrow> True
      | Some (RHash fs, d) \<Rightarrow> HasPrefix k ''room:'' \<and> distinct (map fst fs) \<and> d = None
      | Some (RSet ms, d) \<Rightarrow> \<not> HasPrefix k ''room:'')"

definition presence_inv :: "redis_db \<Rightarrow> bool" where
  "presence_inv db \<longleftrightarrow> (\<forall>k. entry_wf k (rd_keys db k))"

definition cmd_wf :: "redis_cmd \<Rightarrow> bool" where
  "cmd_wf c =
     (case c of
        HSet k f v \<Rightarrow> HasPrefix k ''room:'' | HExpire k s f \<Rightarrow> HasPrefix k ''room:''
      | HDel k f \<Rightarrow> HasPrefix k ''room:'' | Del k \<Rightarrow> \<not> HasPrefix k ''room:''
      | SAdd k ms \<Rightarrow> \<not> HasPrefix k ''room:'' | Expire k s \<Rightarrow> \<not> HasPrefix k ''room:'')"

lemma entry_wf_get: "presence_inv db \<Longrightarrow> entry_wf k (redis_get db k)"
  unfolding presence_inv_def
  by (drule spec [of _ k]) (auto simp: redis_get_def entry_wf_def live_fields_def Let_def
      split: option.splits redis_value.splits if_splits)

lemma presence_inv_ok: "presence_inv db \<Longrightarrow> db_ok db"
  unfolding db_ok_def
proof
  fix k
  assume "presence_inv db"
  then have "entry_wf k (rd_keys db k)" by (simp add: presence_inv_def)
  then show "good_entry (rd_now db) (redis_get db k)"
    by (auto simp: redis_get_def good_entry_def entry_wf_def live_fields_def Let_def
        split: option.splits redis_value.splits if_splits)
qed

lemma apply_cmd_wf:
  "\<lbrakk>entry_wf (cmd_key c) x; cmd_wf c; apply_cmd now c x = (e, y)\<rbrakk> \<Longrightarrow> e = None \<and> entry_wf (cmd_key c) y"
  by (cases "(now, c, x)" rule: apply_cmd.cases)
    (auto simp: entry_wf_def cmd_wf_def split: option.splits redis_value.splits if_splits)

lemma run_cmds_wf:
  "\<lbrakk>run_cmds cs db = (e, db'); presence_inv db; list_all cmd_wf cs\<rbrakk> \<Longrightarrow> e = None \<and> presence_inv db'"
proof (induction cs arbitrary: db e)
  case (Cons c cs)
  obtain v e1 where v: "apply_cmd (rd_now db) c (redis_get db (cmd_key c)) = (e1, v)" by fastforce
  then have 1: "e1 = None" "entry_wf (cmd_key c) v"
    using apply_cmd_wf [OF entry_wf_get [OF Cons.prems(2)] _ v] Cons.prems(3) by auto
  then have inv1: "presence_inv (redis_put (cmd_key c) v db)"
    using Cons.prems(2) by (simp add: presence_inv_def redis_put_def)
  obtain e2 where cs: "run_cmds cs (redis_put (cmd_key c) v db) = (e2, db')" and "e = e2"
    using Cons.prems(1) v 1 by (auto simp: run_cmd_def split: prod.splits)
  with Cons.IH [OF cs inv1] Cons.prems(3) show ?case by simp
qed simp

lemma roomKey_prefix [simp]: "HasPrefix (roomKey r) ''room:''"
  unfolding roomKey_def by (rule HasPrefix_append)

lemma clientKey_prefix: "HasPrefix (clientKey c i) ''room:'' \<Longrightarrow> HasPrefix c ''room:''"
  using clientKey_not_roomKey [of c i] by (auto simp: HasPrefix_iff roomKey_def)

lemma saveRooms_wf [simp]: "list_all cmd_wf (saveRooms c i rs)"
  by (induction rs) (simp_all add: saveRooms_Cons cmd_wf_def)

lemma saveClient_wf: "\<not> HasPrefix c ''room:'' \<Longrightarrow> list_all cmd_wf (saveClient c i rs)"
  by (auto simp: saveClient_def Let_def cmd_wf_def dest: clientKey_prefix)

lemma removals_wf: "list_all cmd_wf (map (\<lambda>r. HDel (roomKey r) ck) rs)"
  by (induction rs) (simp_all add: cmd_wf_def)

subsection \<open>Histories of requests\<close>

datatype presence_op =
    OpConnect ConnectUserRequest
  | OpDisconnect DisconnectUserRequest
  | OpPing PingConnectionRequest
  | OpTime nat

definition at_time :: "int \<Rightarrow> redis_world \<Rightarrow> redis_world" where
  "at_time t w = w\<lparr>rw_store := (rw_store w)\<lparr>rd_now := t\<rparr>\<rparr>"

fun presence_step :: "presence_op \<Rightarrow> redis_world \<Rightarrow> redis_world" where
  "presence_step (OpConnect req) w = snd (Connect store_api req w)"
| "presence_step (OpDisconnect req) w = snd (Disconnect store_api req w)"
| "presence_step (OpPing req) w = snd (Ping store_api req w)"
| "presence_step (OpTime ms) w = at_time (rd_now (rw_store w) + int ms) w"

fun op_wf :: "presence_op \<Rightarrow> bool" where
  "op_wf (OpConnect req) = (\<not> HasPrefix (cr_ClientId req) ''room:'')"
| "op_wf (OpDisconnect req) = (\<not> HasPrefix (dr_ClientId req) ''room:'')"
| "op_wf (OpPing req) = (\<not> HasPrefix (pr_ClientId req) ''room:'')"
| "op_wf (OpTime ms) = True"

lemma store_exec_inv:
  assumes "presence_inv (rw_store w)" "list_all cmd_wf cs"
  shows "presence_inv (rw_store (snd (store_exec cs w)))"
proof -
  obtain n w1 where n: "net_tick w = (n, w1)" by fastforce
  obtain e db where tx: "run_tx cs (rw_store w) = (e, db)" by fastforce
  have "presence_inv db"
    using tx assms run_cmds_wf [of cs "rw_store w" e db] by (auto simp: run_tx_def split: if_splits)
  with n tx assms net_tick_store [OF n] show ?thesis by (simp add: store_exec_def)
qed

lemma store_reads_store [simp]:
  "rw_store (snd (store_smembers k w)) = rw_store w" "rw_store (snd (store_hgetall k w)) = rw_store w"
  by (simp_all add: store_reads)

lemma presence_step_inv:
  assumes "presence_inv (rw_store w)" "op_wf p"
  shows "presence_inv (rw_store (presence_step p w))"
proof (cases p)
  case (OpConnect req)
  with assms show ?thesis
    by (simp add: Connect_def store_api_def store_exec_inv saveClient_wf)
next
  case (OpDisconnect req)
  let ?ck = "clientKey (dr_ClientId req) (dr_InstanceName req)"
  obtain found w1 where sm: "store_smembers ?ck w = (found, w1)" by fastforce
  then have st: "rw_store w1 = rw_store w" using store_reads_store(1) [of ?ck w] by simp
  have wf: "list_all cmd_wf (Del ?ck # map (\<lambda>r. HDel (roomKey r) ?ck) rs)" for rs
    using assms(2) OpDisconnect removals_wf clientKey_prefix by (auto simp: cmd_wf_def)
  show ?thesis
    using OpDisconnect sm st assms(1) store_exec_inv [OF _ wf, of w1]
    by (cases found) (auto simp: Disconnect_def store_api_def Let_def)
next
  case (OpPing req)
  let ?ck = "clientKey (pr_ClientId req) (pr_InstanceName req)"
  obtain found w1 where sm: "store_smembers ?ck w = (found, w1)" by fastforce
  then have st: "rw_store w1 = rw_store w" using store_reads_store(1) [of ?ck w] by simp
  have wf: "list_all cmd_wf (saveRooms (pr_ClientId req) (pr_InstanceName req) rs @ [Expire ?ck connTTL])" for rs
    using assms(2) OpPing clientKey_prefix by (auto simp: cmd_wf_def)
  show ?thesis
    using OpPing sm st assms(1) store_exec_inv [OF _ wf, of w1]
    by (simp add: Ping_def store_api_def Let_def)
qed (use assms in \<open>simp add: at_time_def presence_inv_def\<close>)

definition run_presence :: "presence_op list \<Rightarrow> redis_world \<Rightarrow> redis_world" where
  "run_presence ops w = fold presence_step ops w"

lemma run_presence_inv:
  "\<lbrakk>presence_inv (rw_store w); list_all op_wf ops\<rbrakk> \<Longrightarrow> presence_inv (rw_store (run_presence ops w))"
  by (induction ops arbitrary: w) (simp_all add: run_presence_def presence_step_inv)

definition empty_redis :: "net list \<Rightarrow> redis_world" where
  "empty_redis faults = \<lparr>rw_store = \<lparr>rd_keys = (\<lambda>_. None), rd_now = 0\<rparr>, rw_net = faults\<rparr>"

lemma presence_inv_empty [simp]: "presence_inv (rw_store (empty_redis faults))"
  by (simp add: empty_redis_def presence_inv_def entry_wf_def)

subsection \<open>Time\<close>

lemma map_of_live:
  "distinct (map fst fs) \<Longrightarrow> map_of (live_fields now fs) f =
     (case map_of fs f of Some (v, d) \<Rightarrow> if alive now d then Some (v, d) else None | None \<Rightarrow> None)"
proof (induction fs)
  case (Cons p fs)
  have "map_of (live_fields now fs) (fst p) = None"
    using Cons.prems by (auto simp: map_of_eq_None_iff live_fields_def)
  with Cons show ?case by (cases p) (auto simp: live_fields_def)
qed (simp add: live_fields_def)

lemma entry_wf_room:
  assumes "entry_wf (roomKey r) x"
  obtains "x = None" | fs where "x = Some (RHash fs, None)" "distinct (map fst fs)"
proof (cases x)
  case (Some vd)
  with assms that show thesis by (cases vd; cases "fst vd") (auto simp: entry_wf_def)
qed (use that in blast)

text \<open>A room's field later on: the field now, unless its deadline has passed.\<close>

lemma room_field_later:
  assumes "presence_inv db" and "rd_now db \<le> t"
  shows "field_of (redis_get (db\<lparr>rd_now := t\<rparr>) (roomKey r)) f =
    (case field_of (redis_get db (roomKey r)) f of
       Some (v, d) \<Rightarrow> if alive t d then Some (v, d) else None | None \<Rightarrow> None)"
proof -
  have "entry_wf (roomKey r) (rd_keys db (roomKey r))" using assms(1) by (simp add: presence_inv_def)
  then show ?thesis
  proof (cases rule: entry_wf_room)
    case 1
    then show ?thesis by (simp add: redis_get_def field_of_def)
  next
    case fs: (2 fs)
    have fld: "field_of (redis_get (db\<lparr>rd_now := s\<rparr>) (roomKey r)) f = map_of (live_fields s fs) f" for s
      using fs by (simp add: redis_get_def field_of_def Let_def)
    have "alive (rd_now db) d" if "alive t d" for d
      using that assms(2) by (auto simp: alive_def split: option.splits)
    then show ?thesis
      using fld [of t] fld [of "rd_now db"] by (auto simp: map_of_live fs(2) split: option.splits)
  qed
qed

subsection \<open>Properties\<close>

lemma store_exec_healthy:
  assumes "presence_inv (rw_store w)" "rw_net w = []" "list_all cmd_wf cs" "\<not> list_ex malformed cs"
  shows "\<exists>w1. store_exec cs w = (None, w1) \<and> rw_net w1 = []"
proof -
  obtain e db where "run_cmds cs (rw_store w) = (e, db)" by fastforce
  with run_cmds_wf [OF this assms(1,3)] assms show ?thesis
    by (auto simp: store_exec_def net_tick_def run_tx_def)
qed

lemma saveRooms_not_malformed: "\<not> list_ex malformed (saveRooms c i rs)"
  by (induction rs) (simp_all add: saveRooms_Cons malformed_def)

lemma IsConnected_healthy:
  assumes "presence_inv (rw_store w)" "rw_net w = []"
  shows "\<exists>names. IsConnected store_api r w = (Inr names, w) \<and>
    (\<forall>i. i \<in> set names \<longleftrightarrow> (\<exists>f d. field_of (redis_get (rw_store w) (roomKey r)) f = Some (i, d))) \<and> distinct names"
proof -
  have "entry_wf (roomKey r) (redis_get (rw_store w) (roomKey r))" by (rule entry_wf_get [OF assms(1)])
  then have "\<exists>names. IsConnected store_api r w = (Inr names, w)"
    using assms(2) by (cases rule: entry_wf_room)
      (auto simp: IsConnected_def store_api_def store_hgetall_def net_tick_def)
  then obtain names where n: "IsConnected store_api r w = (Inr names, w)" by blast
  with store.IsConnected_effect [OF n presence_inv_ok [OF assms(1)]] show ?thesis by simp
qed

text \<open>On a healthy network a connect and a ping are accepted.\<close>

lemma Connect_healthy:
  assumes "presence_inv (rw_store w)" and "rw_net w = []"
    and "\<not> HasPrefix (cr_ClientId req) ''room:''" and "cr_RoomsId req \<noteq> []"
  obtains w1 where "Connect store_api req w = (None, w1)" and "rw_net w1 = []" and "presence_inv (rw_store w1)"
proof -
  let ?cs = "saveRooms (cr_ClientId req) (cr_InstanceName req) (cr_RoomsId req)
    @ saveClient (cr_ClientId req) (cr_InstanceName req) (cr_RoomsId req)"
  have wf: "list_all cmd_wf ?cs" using saveClient_wf [OF assms(3)] by simp
  have "\<not> list_ex malformed ?cs"
    using saveRooms_not_malformed assms(4) by (simp add: saveClient_def Let_def malformed_def)
  with store_exec_healthy [OF assms(1,2) wf] obtain w1 where
    ex: "store_exec ?cs w = (None, w1)" and "rw_net w1 = []" by blast
  moreover have "presence_inv (rw_store w1)" using store_exec_inv [OF assms(1) wf] ex by simp
  ultimately show thesis using that by (simp add: Connect_def store_api_def)
qed

lemma smembers_healthy:
  assumes "presence_inv (rw_store w)" and "rw_net w = []" and "\<not> HasPrefix k ''room:''"
  obtains xs where "store_smembers k w = (Inr xs, w)"
proof -
  have "entry_wf k (redis_get (rw_store w) k)" by (rule entry_wf_get [OF assms(1)])
  with assms(2,3) have "\<exists>xs. store_smembers k w = (Inr xs, w)"
    by (cases "redis_get (rw_store w) k"; cases "fst (the (redis_get (rw_store w) k))")
      (auto simp: store_smembers_def net_tick_def entry_wf_def)
  with that show thesis by blast
qed

lemma Ping_healthy:
  assumes "presence_inv (rw_store w)" and "rw_net w = []" and "\<not> HasPrefix (pr_ClientId req) ''room:''"
  defines "ck \<equiv> clientKey (pr_ClientId req) (pr_InstanceName req)"
  obtains w1 cs where "Ping store_api req w = (None, w1)" and "rw_net w1 = []" and "presence_inv (rw_store w1)"
    and "run_cmds (cs @ [Expire ck connTTL]) (rw_store w) = (None, rw_store w1)"
    and "members_of (redis_get (rw_store w1) ck) = members_of (redis_get (rw_store w) ck)"
    and "\<forall>r f. field_of (redis_get (rw_store w1) (roomKey r)) f =
      (if r \<in> members_of (redis_get (rw_store w) ck) \<and> f = ck
       then Some (pr_InstanceName req, Some (rd_now (rw_store w) + 60000))
       else field_of (redis_get (rw_store w) (roomKey r)) f)"
proof -
  have nk: "\<not> HasPrefix ck ''room:''" using assms(3) clientKey_prefix unfolding ck_def by blast
  obtain xs where sm: "store_smembers ck w = (Inr xs, w)" by (rule smembers_healthy [OF assms(1,2) nk])
  let ?cs = "saveRooms (pr_ClientId req) (pr_InstanceName req) xs @ [Expire ck connTTL]"
  have wf: "list_all cmd_wf ?cs" "\<not> list_ex malformed ?cs"
    using nk saveRooms_not_malformed by (simp_all add: cmd_wf_def malformed_def)
  from store_exec_healthy [OF assms(1,2) this] obtain w1 where ex: "store_exec ?cs w = (None, w1)" and net: "rw_net w1 = []"
    by blast
  have pos: "list_all positive_ttl ?cs" by (simp add: positive_ttl_def connTTL_def)
  have ping: "Ping store_api req w = (None, w1)" using sm ex by (simp add: Ping_def store_api_def Let_def ck_def)
  have "\<not> (\<exists>e. fst (r_smembers store_api ck w) = Inl e)" using sm by (simp add: store_api_def)
  with store.Ping_effect [OF ping presence_inv_ok [OF assms(1)]] have eff:
    "members_of (redis_get (rw_store w1) ck) = members_of (redis_get (rw_store w) ck)"
    "\<forall>r f. field_of (redis_get (rw_store w1) (roomKey r)) f =
      (if r \<in> members_of (redis_get (rw_store w) ck) \<and> f = ck
       then Some (pr_InstanceName req, Some (rd_now (rw_store w) + 60000))
       else field_of (redis_get (rw_store w) (roomKey r)) f)"
    by (auto simp: connTTL_def ck_def dest: fun_cong)
  have "presence_inv (rw_store w1)" using store_exec_inv [OF assms(1) wf(1)] ex by simp
  then show thesis
    using that [OF ping net _ _ eff] store_exec_effect [OF ex presence_inv_ok [OF assms(1)] pos] by blast
qed

text \<open>After any history of requests, time and network faults, as soon as the network is healthy a
  client that connects with at least one room is accepted, and for the next 60 seconds every
  lookup of one of its rooms names its instance.\<close>

lemma presence_connect_visible:
  assumes "list_all op_wf ops" and "w = run_presence ops (empty_redis faults)" and "rw_net w = []"
    and "\<not> HasPrefix (cr_ClientId req) ''room:''" and "cr_RoomsId req \<noteq> []"
  shows "\<exists>w1. Connect store_api req w = (None, w1) \<and>
    (\<forall>r \<in> set (cr_RoomsId req). \<forall>t. rd_now (rw_store w) \<le> t \<and> t < rd_now (rw_store w) + 60000 \<longrightarrow>
       (\<exists>names. fst (IsConnected store_api r (at_time t w1)) = Inr names \<and> cr_InstanceName req \<in> set names))"
proof -
  have inv: "presence_inv (rw_store w)" using assms(1,2) by (simp add: run_presence_inv)
  let ?ck = "clientKey (cr_ClientId req) (cr_InstanceName req)"
  obtain w1 where con: "Connect store_api req w = (None, w1)" and net: "rw_net w1 = []"
    and inv1: "presence_inv (rw_store w1)"
    by (rule Connect_healthy [OF inv assms(3-5)])
  note eff = store.Connect_effect [OF con presence_inv_ok [OF inv] assms(4)]
  have "\<exists>names. fst (IsConnected store_api r (at_time t w1)) = Inr names \<and> cr_InstanceName req \<in> set names"
    if r: "r \<in> set (cr_RoomsId req)" and t: "rd_now (rw_store w) \<le> t" "t < rd_now (rw_store w) + 60000" for r t
  proof -
    have "field_of (redis_get (rw_store (at_time t w1)) (roomKey r)) ?ck
        = Some (cr_InstanceName req, Some (rd_now (rw_store w) + 60000))"
      using room_field_later [OF inv1, of t r ?ck] eff(2) eff(4) [of r ?ck] r t by (simp add: at_time_def connTTL_def)
    moreover have "presence_inv (rw_store (at_time t w1))" "rw_net (at_time t w1) = []"
      using inv1 net by (simp_all add: at_time_def presence_inv_def)
    ultimately show ?thesis using IsConnected_healthy [of "at_time t w1" r] by fastforce
  qed
  with con show ?thesis by blast
qed

definition sample_connect :: ConnectUserRequest where
  "sample_connect = \<lparr>cr_RoomsId = [''general'', ''random''], cr_InstanceName = ''ws1'', cr_ClientId = ''alice''\<rparr>"

lemma sample_not_room: "\<not> HasPrefix ''alice'' ''room:''"
  by (simp add: HasPrefix_def)

lemma sample_connect_ok:
  "\<exists>w1. Connect store_api sample_connect (empty_redis []) = (None, w1)"
proof -
  have "fst (Connect store_api sample_connect (empty_redis [])) = None" by code_simp
  then show ?thesis by (metis prod.collapse)
qed

lemma sample_disconnect_ok:
  assumes "Connect store_api sample_connect (empty_redis []) = (None, w1)"
  shows "\<exists>w2. Disconnect store_api \<lparr>dr_ClientId = ''alice'', dr_InstanceName = ''ws1''\<rparr> w1 = (None, w2)"
proof -
  have "fst (Disconnect store_api \<lparr>dr_ClientId = ''alice'', dr_InstanceName = ''ws1''\<rparr>
      (snd (Connect store_api sample_connect (empty_redis [])))) = None" by code_simp
  with assms show ?thesis by (metis prod.collapse snd_conv)
qed

theorem presence_connect_visible_witness:
  "\<exists>w1. Connect store_api sample_connect (empty_redis []) = (None, w1) \<and>
    (\<exists>names. fst (IsConnected store_api ''random'' (at_time 59999 w1)) = Inr names \<and> ''ws1'' \<in> set names)"
  using presence_connect_visible [of "[]" "empty_redis []" "[]" sample_connect] sample_not_room
  by (force simp: run_presence_def sample_connect_def empty_redis_def)

text \<open>A connection that is not renewed is gone after 60 seconds: whatever the history before, no lookup
  of one of its rooms finds the client's entry any more.\<close>

lemma presence_expires:
  assumes "list_all op_wf ops" and "w = run_presence ops (empty_redis faults)"
    and "Connect store_api req w = (None, w1)" and "\<not> HasPrefix (cr_ClientId req) ''room:''"
    and "r \<in> set (cr_RoomsId req)" and "rd_now (rw_store w) + 60000 \<le> t"
  shows "field_of (redis_get (rw_store (at_time t w1)) (roomKey r))
    (clientKey (cr_ClientId req) (cr_InstanceName req)) = None"
proof -
  have inv: "presence_inv (rw_store w)" using assms(1,2) by (simp add: run_presence_inv)
  note eff = store.Connect_effect [OF assms(3) presence_inv_ok [OF inv] assms(4)]
  have "presence_inv (rw_store w1)"
    using presence_step_inv [OF inv, of "OpConnect req"] assms(3,4) by simp
  from room_field_later [OF this, of t r "clientKey (cr_ClientId req) (cr_InstanceName req)"] eff assms(5,6)
  show ?thesis by (simp add: at_time_def connTTL_def)
qed

theorem presence_expires_witness:
  "field_of (redis_get (rw_store (at_time 60000 (snd (Connect store_api sample_connect (empty_redis [])))))
     (roomKey ''general'')) (clientKey ''alice'' ''ws1'') = None"
proof -
  obtain w1 where "Connect store_api sample_connect (empty_redis []) = (None, w1)"
    using sample_connect_ok by blast
  with presence_expires [of "[]" "empty_redis []" "[]" sample_connect w1 "''general''" 60000] sample_not_room
  show ?thesis by (simp add: run_presence_def) (simp add: sample_connect_def empty_redis_def)
qed

text \<open>A disconnect undoes the connect of the same client and instance: every field of every room is as
  it was before the connect, except that the client has none in the rooms it had asked for.\<close>

lemma presence_disconnect_undoes:
  assumes "list_all op_wf ops" and "w = run_presence ops (empty_redis faults)"
    and "Connect store_api req w = (None, w1)" and "\<not> HasPrefix (cr_ClientId req) ''room:''"
    and "Disconnect store_api \<lparr>dr_ClientId = cr_ClientId req, dr_InstanceName = cr_InstanceName req\<rparr> w1 = (None, w2)"
  shows "field_of (redis_get (rw_store w2) (roomKey r)) f =
    (if r \<in> set (cr_RoomsId req) \<and> f = clientKey (cr_ClientId req) (cr_InstanceName req) then None
     else field_of (redis_get (rw_store w) (roomKey r)) f)"
proof -
  have inv: "presence_inv (rw_store w)" using assms(1,2) by (simp add: run_presence_inv)
  note eff = store.Connect_effect [OF assms(3) presence_inv_ok [OF inv] assms(4)]
  from store.Disconnect_effect [OF assms(5) eff(1), of r f] assms(4) eff(3,4) show ?thesis by auto
qed

theorem presence_disconnect_undoes_witness:
  "field_of (redis_get (rw_store (snd (Disconnect store_api \<lparr>dr_ClientId = ''alice'', dr_InstanceName = ''ws1''\<rparr>
     (snd (Connect store_api sample_connect (empty_redis [])))))) (roomKey ''general'')) (clientKey ''alice'' ''ws1'') = None"
proof -
  obtain w1 where c: "Connect store_api sample_connect (empty_redis []) = (None, w1)"
    using sample_connect_ok by blast
  obtain w2 where d: "Disconnect store_api \<lparr>dr_ClientId = ''alice'', dr_InstanceName = ''ws1''\<rparr> w1 = (None, w2)"
    using sample_disconnect_ok c by blast
  have f: "cr_ClientId sample_connect = ''alice''" "cr_InstanceName sample_connect = ''ws1''"
    "cr_RoomsId sample_connect = [''general'', ''random'']" by (simp_all add: sample_connect_def)
  show ?thesis
    using presence_disconnect_undoes [of "[]" "empty_redis []" "[]" sample_connect w1 w2 "''general''"
        "clientKey ''alice'' ''ws1''"] c d sample_not_room by (simp add: f run_presence_def)
qed

text \<open>The disconnect request that the WebSocket service sends carries no instance name. It succeeds and
  removes nothing: every field the client has in a room stays until its deadline.\<close>

lemma presence_disconnect_without_instance:
  assumes "presence_inv (rw_store w)" and "\<not> HasPrefix c ''room:''"
    and "members_of (redis_get (rw_store w) (clientKey c [])) = {}" and "rw_net w = []"
  shows "Disconnect store_api \<lparr>dr_ClientId = c, dr_InstanceName = []\<rparr> w = (None, w)"
proof -
  let ?x = "redis_get (rw_store w) (clientKey c [])"
  have "entry_wf (clientKey c []) ?x" by (rule entry_wf_get [OF assms(1)])
  moreover have "\<not> HasPrefix (clientKey c []) ''room:''" using assms(2) clientKey_prefix by blast
  ultimately have "store_smembers (clientKey c []) w = (Inr [], w)"
    using assms(3,4) by (auto simp: store_smembers_def net_tick_def entry_wf_def members_of_def
        split: option.splits redis_value.splits)
  then show ?thesis by (simp add: Disconnect_def store_api_def)
qed

theorem presence_disconnect_without_instance_witness:
  "Disconnect store_api \<lparr>dr_ClientId = ''alice'', dr_InstanceName = []\<rparr>
     (snd (Connect store_api sample_connect (empty_redis [])))
   = (None, snd (Connect store_api sample_connect (empty_redis [])))"
proof (rule presence_disconnect_without_instance)
  show "presence_inv (rw_store (snd (Connect store_api sample_connect (empty_redis []))))"
    using presence_step_inv [of "empty_redis []" "OpConnect sample_connect"] sample_not_room
    by (simp add: sample_connect_def)
  show "members_of (redis_get (rw_store (snd (Connect store_api sample_connect (empty_redis []))))
      (clientKey ''alice'' [])) = {}"
    by code_simp
  show "rw_net (snd (Connect store_api sample_connect (empty_redis []))) = []" by code_simp
qed (rule sample_not_room)

text \<open>A connect that names no room is refused as a whole and changes nothing.\<close>

lemma presence_connect_no_rooms:
  assumes "cr_RoomsId req = []"
  shows "\<exists>e. fst (Connect store_api req w) = Some e \<and> rw_store (snd (Connect store_api req w)) = rw_store w"
proof -
  obtain n w1 where n: "net_tick w = (n, w1)" by fastforce
  have "run_tx (saveRooms c i [] @ saveClient c i []) db = (Some ExecAbort, db)" for c i db
    by (simp add: run_tx_def saveClient_def Let_def malformed_def)
  with n net_tick_store [OF n] assms show ?thesis by (simp add: Connect_def store_api_def store_exec_def)
qed

theorem presence_connect_no_rooms_witness:
  "\<exists>e. fst (Connect store_api (sample_connect\<lparr>cr_RoomsId := []\<rparr>) (empty_redis [])) = Some e \<and>
    rw_store (snd (Connect store_api (sample_connect\<lparr>cr_RoomsId := []\<rparr>) (empty_redis []))) = rw_store (empty_redis [])"
  by (rule presence_connect_no_rooms) simp

text \<open>A ping that succeeds on a healthy network renews the client's entry in every room of its set for
  another 60 seconds, and leaves every other entry as it was.\<close>

lemma presence_ping_renews:
  assumes "presence_inv (rw_store w)" and "rw_net w = []" and "\<not> HasPrefix (pr_ClientId req) ''room:''"
  shows "\<exists>w1. Ping store_api req w = (None, w1) \<and>
    (\<forall>r f. field_of (redis_get (rw_store w1) (roomKey r)) f =
      (if r \<in> members_of (redis_get (rw_store w) (clientKey (pr_ClientId req) (pr_InstanceName req))) \<and>
          f = clientKey (pr_ClientId req) (pr_InstanceName req)
       then Some (pr_InstanceName req, Some (rd_now (rw_store w) + 60000))
       else field_of (redis_get (rw_store w) (roomKey r)) f))"
proof -
  obtain w1 where "Ping store_api req w = (None, w1)" and
    "\<forall>r f. field_of (redis_get (rw_store w1) (roomKey r)) f =
      (if r \<in> members_of (redis_get (rw_store w) (clientKey (pr_ClientId req) (pr_InstanceName req))) \<and>
          f = clientKey (pr_ClientId req) (pr_InstanceName req)
       then Some (pr_InstanceName req, Some (rd_now (rw_store w) + 60000))
       else field_of (redis_get (rw_store w) (roomKey r)) f)"
    by (rule Ping_healthy [OF assms])
  then show ?thesis by blast
qed

theorem presence_ping_renews_witness:
  "\<exists>w1. Ping store_api \<lparr>pr_InstanceName = ''ws1'', pr_ClientId = ''alice''\<rparr>
      (at_time 50000 (snd (Connect store_api sample_connect (empty_redis [])))) = (None, w1) \<and>
    field_of (redis_get (rw_store w1) (roomKey ''general'')) (clientKey ''alice'' ''ws1'') = Some (''ws1'', Some 110000)"
proof -
  let ?w = "at_time 50000 (snd (Connect store_api sample_connect (empty_redis [])))"
  have "presence_inv (rw_store (presence_step (OpConnect sample_connect) (empty_redis [])))"
    using sample_not_room by (intro presence_step_inv) (simp_all add: sample_connect_def)
  then have "presence_inv (rw_store ?w)" by (simp add: at_time_def presence_inv_def)
  moreover have "rw_net ?w = []" "rd_now (rw_store ?w) = 50000" by code_simp+
  moreover have "''general'' \<in> members_of (redis_get (rw_store ?w) (clientKey ''alice'' ''ws1''))" by code_simp
  ultimately show ?thesis
    using presence_ping_renews [of ?w "\<lparr>pr_InstanceName = ''ws1'', pr_ClientId = ''alice''\<rparr>"] sample_not_room
    by auto
qed

end
