(* ===== verification/Ws_Instance.thy ===== *)
theory Ws_Instance
  imports Ws_Handler Redis_Consumer Presence_Props
begin

text \<open>
  One instance of the message service as a state machine: connections are opened and closed, frames are
  read, events arrive from Redis, write pumps drain the buffers, pings go out, and the database and Redis
  change under the hands of the other services, all interleaved. The history of the frames put into each
  buffer is kept beside the state of the code.
\<close>

subsection \<open>The services of an instance\<close>

record ms_world =
  mw_db :: msgdb
  mw_redis :: redis_world

text \<open>A presence handler answers an error exactly when its response is unsuccessful.\<close>

definition rpc :: "(redis_world \<Rightarrow> redis_error option \<times> redis_world) \<Rightarrow> ms_world \<Rightarrow> (unit + bool) \<times> ms_world" where
  "rpc call w =
     (case call (mw_redis w) of
        (Some e, rw) \<Rightarrow> (Inl (), w\<lparr>mw_redis := rw\<rparr>)
      | (None, rw) \<Rightarrow> (Inr True, w\<lparr>mw_redis := rw\<rparr>))"

definition ingest :: "accept_env \<Rightarrow> string \<Rightarrow> SendRequest \<Rightarrow> ms_world \<Rightarrow> (store_error + Event) \<times> ms_world" where
  "ingest env clientID request w =
     (case HandleIncoming env (mw_db w) clientID request of (res, db) \<Rightarrow> (res, w\<lparr>mw_db := db\<rparr>))"

definition ms_service :: "accept_env \<Rightarrow> (store_error, ms_world) ws_service" where
  "ms_service env =
     \<lparr>ws_Connect = (\<lambda>req. rpc (Connect store_api req)), ws_Disconnect = (\<lambda>req. rpc (Disconnect store_api req)),
      ws_Ping = (\<lambda>req. rpc (Ping store_api req)), ws_HandleIncoming = ingest env\<rparr>"

subsection \<open>The machine\<close>

record inst =
  in_st :: "ms_world ws_state"
  in_open :: "conn set"
  in_owner :: "conn \<Rightarrow> string option"
  in_wire :: "conn \<Rightarrow> bytes list"
  in_broken :: "conn set"
  in_log :: "conn \<Rightarrow> bytes list"
  in_pending :: "(bytes \<times> room_clients) option"
  in_stopped :: bool

abbreviation in_hub :: "inst \<Rightarrow> hub" where "in_hub s \<equiv> st_hub (in_st s)"

text \<open>
  \<open>in_pending\<close> is the dispatch under way in the goroutine of the Redis consumer: the event's text and the
  clients it is still to be sent to. While there is one, the hub's read lock is held, so that no connection
  can be registered or unregistered. The clients are served in any order, as the code ranges over a map.
  \<open>in_stopped\<close> says that the consumer's context has been cancelled, after which the dispatch may be given up
  at any client (\<^verbatim>\<open>case <-ctx.Done()\<close>). A handler waits while the buffer of its connection is full, and so does
  the dispatch at a client with a full buffer; the write pump of a broken connection is gone.
\<close>

text \<open>The state with a hub whose buffers have grown, and the history extended by what they have gained.\<close>

definition with_hub :: "hub \<Rightarrow> inst \<Rightarrow> inst" where
  "with_hub h s = s\<lparr>in_st := (in_st s)\<lparr>st_hub := h\<rparr>,
     in_log := (\<lambda>p. in_log s p @ drop (length (hub_send (in_hub s) p)) (hub_send h p))\<rparr>"

definition with_world :: "ms_world \<Rightarrow> inst \<Rightarrow> inst" where
  "with_world w s = s\<lparr>in_st := (in_st s)\<lparr>st_world := w\<rparr>\<rparr>"

definition append_send :: "conn \<Rightarrow> bytes \<Rightarrow> hub \<Rightarrow> hub" where
  "append_send p m h = h\<lparr>hub_send := (hub_send h)(p := hub_send h p @ [m])\<rparr>"

inductive inst_step :: "string \<Rightarrow> inst \<Rightarrow> inst \<Rightarrow> bool" for dial where
  Opened: "\<lbrakk>in_pending s = None; getParams q = Inr (c, rs); in_owner s p = None;
      configureConnection (ms_service env) dial upgraded p c rs (in_st s) = (None, st1);
      Register rs (Some (NewClientConnection c p)) (st_hub st1) = (None, h)\<rbrakk> \<Longrightarrow>
    inst_step dial s (s\<lparr>in_st := st1\<lparr>st_hub := h\<rparr>, in_open := insert p (in_open s), in_owner := (in_owner s)(p \<mapsto> c)\<rparr>)"
| Refused: "\<lbrakk>getParams q = Inr (c, rs); in_owner s p = None;
      configureConnection (ms_service env) dial upgraded p c rs (in_st s) = (Some e, st1)\<rbrakk> \<Longrightarrow>
    inst_step dial s (s\<lparr>in_st := st1\<rparr>)"
| FrameRead: "\<lbrakk>p \<in> in_open s; in_owner s p = Some c;
      handleMessage (ms_service env) stopped data c (NewClientConnection c p) (in_hub s) (st_world (in_st s)) = (e, h, w);
      e \<noteq> Some FrameBlocked\<rbrakk> \<Longrightarrow>
    inst_step dial s (with_world w (with_hub h s))"
| Received: "\<lbrakk>in_pending s = None; decode_payload payload = Inr event; Event_Validate event = None;
      marshal_Event event = Some body; map_of (hub_rooms (in_hub s)) (ev_RoomID event) = Some cs\<rbrakk> \<Longrightarrow>
    inst_step dial s (s\<lparr>in_pending := Some (body, cs)\<rparr>)"
| Sent: "\<lbrakk>in_pending s = Some (body, cs); (i, p) \<in> set cs; length (hub_send (in_hub s) p) < sendCap\<rbrakk> \<Longrightarrow>
    inst_step dial s ((with_hub (append_send p body (in_hub s)) s)\<lparr>in_pending := Some (body, remove1 (i, p) cs)\<rparr>)"
| Abandoned: "\<lbrakk>in_pending s = Some (body, cs); cs \<noteq> []; in_stopped s\<rbrakk> \<Longrightarrow>
    inst_step dial s (s\<lparr>in_pending := None\<rparr>)"
| Dispatched: "in_pending s = Some (body, []) \<Longrightarrow> inst_step dial s (s\<lparr>in_pending := None\<rparr>)"
| Pumped: "\<lbrakk>in_owner s p = Some c; p \<notin> in_broken s; pump_step written p (in_hub s) = (out, go_on, h)\<rbrakk> \<Longrightarrow>
    inst_step dial s (s\<lparr>in_st := (in_st s)\<lparr>st_hub := h\<rparr>, in_wire := (in_wire s)(p := in_wire s p @ out),
      in_broken := (if go_on then in_broken s else insert p (in_broken s))\<rparr>)"
| Pinged: "\<lbrakk>p \<in> in_open s; in_owner s p = Some c\<rbrakk> \<Longrightarrow>
    inst_step dial s (s\<lparr>in_st := runPing (ms_service env) dial p c [(id, written)] (in_st s)\<rparr>)"
| Closed: "\<lbrakk>in_pending s = None; p \<in> in_open s; in_owner s p = Some c\<rbrakk> \<Longrightarrow>
    inst_step dial s (s\<lparr>in_st := disconnect (ms_service env) c p (in_st s), in_open := in_open s - {p}\<rparr>)"
| Stopping: "inst_step dial s (s\<lparr>in_stopped := True\<rparr>)"
| Elsewhere: "inst_step dial s (with_world w s)"

inductive inst_reachable :: "string \<Rightarrow> ms_world \<Rightarrow> inst \<Rightarrow> bool" for dial w0 where
  Start: "inst_reachable dial w0 \<lparr>in_st = \<lparr>st_hub = NewHub, st_world = w0, st_closed = {}\<rparr>, in_open = {},
    in_owner = (\<lambda>_. None), in_wire = (\<lambda>_. []), in_broken = {}, in_log = (\<lambda>_. []), in_pending = None,
    in_stopped = False\<rparr>"
| Step: "\<lbrakk>inst_reachable dial w0 s; inst_step dial s s'\<rbrakk> \<Longrightarrow> inst_reachable dial w0 s'"

subsection \<open>The invariant\<close>

definition inst_inv :: "inst \<Rightarrow> bool" where
  "inst_inv s \<longleftrightarrow> hub_inv (in_hub s) \<and>
     (\<forall>r c p. hub_view (in_hub s) r c = Some p \<longrightarrow> in_owner s p = Some c \<and> p \<in> in_open s) \<and>
     (\<forall>p. length (hub_send (in_hub s) p) \<le> sendCap) \<and>
     (\<forall>p. p \<notin> in_broken s \<longrightarrow> in_log s p = in_wire s p @ hub_send (in_hub s) p)"

text \<open>Operations that only append to buffers.\<close>

definition extends :: "hub \<Rightarrow> hub \<Rightarrow> bool" where
  "extends h h' \<longleftrightarrow> hub_rooms h' = hub_rooms h \<and> (\<forall>p. \<exists>more. hub_send h' p = hub_send h p @ more) \<and>
     ((\<forall>p. length (hub_send h p) \<le> sendCap) \<longrightarrow> (\<forall>p. length (hub_send h' p) \<le> sendCap))"

lemma extends_refl [simp]: "extends h h"
  by (simp add: extends_def)

lemma append_send_extends: "length (hub_send h p) < sendCap \<Longrightarrow> extends h (append_send p m h)"
  by (auto simp: extends_def append_send_def)

lemma enqueue_extends: "enqueue stopped client f h = (e, h') \<Longrightarrow> extends h h'"
  by (auto simp: enqueue_def extends_def split: option.splits if_splits)

lemma handleMessage_extends: "handleMessage api stopped data c client h w = (e, h', w') \<Longrightarrow> extends h h'"
  using enqueue_extends by (auto simp: handleMessage_answer split: prod.splits)

lemma with_hub_inv:
  assumes "inst_inv s" and "extends (in_hub s) h"
  shows "inst_inv (with_hub h s)"
proof -
  have "hub_rooms h = hub_rooms (in_hub s)" using assms(2) by (simp add: extends_def)
  then have "hub_inv h = hub_inv (in_hub s)" "hub_view h = hub_view (in_hub s)"
    by (simp_all add: hub_inv_rooms hub_view_rooms)
  moreover have "hub_send (in_hub s) p @ drop (length (hub_send (in_hub s) p)) (hub_send h p) = hub_send h p" for p
    using assms(2) unfolding extends_def by (metis append_eq_conv_conj append_take_drop_id)
  moreover have "\<forall>p. length (hub_send h p) \<le> sendCap" using assms by (auto simp: extends_def inst_inv_def)
  ultimately show ?thesis using assms(1) by (simp add: inst_inv_def with_hub_def)
qed

lemma with_world_inv [simp]: "inst_inv (with_world w s) = inst_inv s"
  by (simp add: inst_inv_def with_world_def)

lemma ping_once_hub: "st_hub (runPing api dial p c [(id, written)] st) = st_hub st"
  by (auto simp: Let_def close_conn_def split: prod.splits sum.splits bool.splits)

lemma configureConnection_hub:
  "configureConnection api dial upgraded p c rs st = (res, st') \<Longrightarrow> st_hub st' = st_hub st"
  by (auto simp: configureConnection_def close_conn_def split: if_splits prod.splits sum.splits bool.splits)

lemma disconnect_hub: "st_hub (disconnect api c p st) = snd (Unregister c (st_hub st))"
  by (simp add: disconnect_def close_conn_def Let_def)

lemma Opened_inv:
  assumes "inst_inv s" and "in_owner s p = None" and "st_hub st1 = in_hub s"
    and "Register rs (Some (NewClientConnection c p)) (st_hub st1) = (None, h)"
  shows "inst_inv (s\<lparr>in_st := st1\<lparr>st_hub := h\<rparr>, in_open := insert p (in_open s), in_owner := (in_owner s)(p \<mapsto> c)\<rparr>)"
proof -
  have h: "h = (in_hub s)\<lparr>hub_rooms := fold (join_room (NewClientConnection c p)) rs (hub_rooms (in_hub s))\<rparr>"
    using assms(3,4) by (simp add: Register_def)
  have "hub_inv h" using assms(1) by (simp add: h hub_inv_rooms inst_inv_def fold_join_inv)
  moreover have "hub_view h r i = Some q \<longrightarrow> ((in_owner s)(p \<mapsto> c)) q = Some i \<and> q \<in> insert p (in_open s)" for r i q
    using assms(1,2) by (auto simp: h hub_view_rooms fold_join_view NewClientConnection_def inst_inv_def split: if_splits)
  ultimately show ?thesis using assms(1) by (simp add: inst_inv_def h)
qed

lemma Closed_inv:
  assumes "inst_inv s" and "in_owner s p = Some c"
  shows "inst_inv (s\<lparr>in_st := disconnect api c p (in_st s), in_open := in_open s - {p}\<rparr>)"
proof -
  let ?h = "snd (Unregister c (in_hub s))"
  have "distinct (map fst (hub_rooms (in_hub s)))" using assms(1) by (simp add: inst_inv_def hub_inv_def)
  then have "hub_view ?h r i = (if i = c then None else hub_view (in_hub s) r i)" for r i
    by (simp add: Unregister_def hub_view_rooms leave_rooms_view)
  moreover have "hub_inv ?h" using assms(1) by (simp add: Unregister_inv inst_inv_def)
  moreover have "hub_send ?h = hub_send (in_hub s)" by (simp add: Unregister_def)
  ultimately show ?thesis using assms by (auto simp: inst_inv_def disconnect_hub split: if_splits)
qed

lemma Pumped_inv:
  assumes "inst_inv s" and "p \<notin> in_broken s" and "pump_step written p (in_hub s) = (out, go_on, h)"
  shows "inst_inv (s\<lparr>in_st := (in_st s)\<lparr>st_hub := h\<rparr>, in_wire := (in_wire s)(p := in_wire s p @ out),
    in_broken := (if go_on then in_broken s else insert p (in_broken s))\<rparr>)"
proof -
  have r: "hub_rooms h = hub_rooms (in_hub s)" and o: "\<And>q. q \<noteq> p \<Longrightarrow> hub_send h q = hub_send (in_hub s) q"
    and b: "go_on \<Longrightarrow> hub_send (in_hub s) p = out @ hub_send h p"
    and l: "length (hub_send h p) \<le> length (hub_send (in_hub s) p)"
    using assms(3) by (auto simp: pump_step_def split: list.splits if_splits)
  have "length (hub_send h q) \<le> sendCap" for q
    using assms(1) o l by (cases "q = p") (auto simp: inst_inv_def intro: order_trans)
  moreover have "hub_inv h = hub_inv (in_hub s)" "hub_view h = hub_view (in_hub s)"
    using r by (simp_all add: hub_inv_rooms hub_view_rooms)
  ultimately show ?thesis using assms(1,2) o b by (auto simp: inst_inv_def)
qed

lemma inst_step_inv: "\<lbrakk>inst_step dial s s'; inst_inv s\<rbrakk> \<Longrightarrow> inst_inv s'"
proof (induction rule: inst_step.induct)
  case (Opened s q c rs p env upgraded st1 h)
  then show ?case using Opened_inv configureConnection_hub by blast
next
  case (Refused q c rs s p env upgraded e st1)
  then show ?case using configureConnection_hub [OF Refused(3)] by (simp add: inst_inv_def)
next
  case (FrameRead p s c env stopped data e h w)
  then show ?case using with_hub_inv [OF _ handleMessage_extends [OF FrameRead(3)]] by simp
next
  case (Sent s body cs i p)
  then have "inst_inv (with_hub (append_send p body (in_hub s)) s)"
    by (intro with_hub_inv append_send_extends)
  then show ?case by (simp add: inst_inv_def)
next
  case (Pinged p s c env written)
  then show ?case by (simp add: inst_inv_def ping_once_hub del: runPing.simps)
qed (simp_all add: Pumped_inv Closed_inv, simp_all add: inst_inv_def)

text \<open>Several steps.\<close>

abbreviation inst_steps :: "string \<Rightarrow> inst \<Rightarrow> inst \<Rightarrow> bool" where
  "inst_steps dial \<equiv> (inst_step dial)\<^sup>*\<^sup>*"

lemma inst_steps_inv: "\<lbrakk>inst_steps dial s s'; inst_inv s\<rbrakk> \<Longrightarrow> inst_inv s'"
  by (induction rule: rtranclp_induct) (auto intro: inst_step_inv)

subsection \<open>A dispatch as a sequence of steps\<close>

lemma send_clients_steps:
  "\<lbrakk>send_clients (\<lambda>_. False) n body cs q = (None, q'); hub_send (in_hub s) = q; in_pending s = Some (body, cs)\<rbrakk> \<Longrightarrow>
     \<exists>s'. inst_steps dial s s' \<and> in_hub s' = (in_hub s)\<lparr>hub_send := q'\<rparr> \<and> in_pending s' = None"
proof (induction cs arbitrary: n q s)
  case Nil
  then have "inst_step dial s (s\<lparr>in_pending := None\<rparr>)" by (intro Dispatched) simp
  with Nil show ?case by (intro exI [of _ "s\<lparr>in_pending := None\<rparr>"]) auto
next
  case (Cons ip cs)
  obtain i p where ip: "ip = (i, p)" by fastforce
  have room: "length (q p) < sendCap" and rest: "send_clients (\<lambda>_. False) (Suc n) body cs (q(p := q p @ [body])) = (None, q')"
    using Cons.prems(1) ip by (auto split: if_splits)
  let ?s = "(with_hub (append_send p body (in_hub s)) s)\<lparr>in_pending := Some (body, cs)\<rparr>"
  have "inst_step dial s ?s" using Cons.prems(2,3) ip room Sent [of s body "(i, p) # cs" i p dial] by auto
  moreover have "hub_send (in_hub ?s) = q(p := q p @ [body])"
    using Cons.prems(2) by (simp add: with_hub_def append_send_def)
  then obtain s' where "inst_steps dial ?s s'" "in_hub s' = (in_hub ?s)\<lparr>hub_send := q'\<rparr>" "in_pending s' = None"
    using Cons.IH [OF rest, of ?s] by auto
  ultimately show ?case
    by (intro exI [of _ s']) (auto simp: with_hub_def append_send_def intro: converse_rtranclp_into_rtranclp)
qed

text \<open>A send loop that blocks gets to a state in which the dispatch waits at that connection.\<close>

lemma send_clients_blocked_steps:
  "\<lbrakk>send_clients (\<lambda>_. False) n body cs q = (Some (SendBlocked p), q'); hub_send (in_hub s) = q; in_pending s = Some (body, cs)\<rbrakk> \<Longrightarrow>
     \<exists>s' i cs'. inst_steps dial s s' \<and> in_hub s' = (in_hub s)\<lparr>hub_send := q'\<rparr> \<and> in_pending s' = Some (body, (i, p) # cs') \<and>
       sendCap \<le> length (q' p) \<and> in_broken s' = in_broken s"
proof (induction cs arbitrary: n q s)
  case (Cons ip cs)
  obtain i r where ip: "ip = (i, r)" by fastforce
  show ?case
  proof (cases "length (q r) < sendCap")
    case True
    then have rest: "send_clients (\<lambda>_. False) (Suc n) body cs (q(r := q r @ [body])) = (Some (SendBlocked p), q')"
      using Cons.prems(1) ip by simp
    let ?s = "(with_hub (append_send r body (in_hub s)) s)\<lparr>in_pending := Some (body, cs)\<rparr>"
    have "inst_step dial s ?s" using Cons.prems(2,3) ip True Sent [of s body "(i, r) # cs" i r dial] by auto
    moreover have "hub_send (in_hub ?s) = q(r := q r @ [body])"
      using Cons.prems(2) by (simp add: with_hub_def append_send_def)
    then obtain s' j cs' where "inst_steps dial ?s s'" "in_hub s' = (in_hub ?s)\<lparr>hub_send := q'\<rparr>"
      "in_pending s' = Some (body, (j, p) # cs')" "sendCap \<le> length (q' p)" "in_broken s' = in_broken ?s"
      using Cons.IH [OF rest, of ?s] by auto
    ultimately show ?thesis
      by (intro exI [of _ s'] exI [of _ j] exI [of _ cs'])
        (auto simp: with_hub_def append_send_def intro: converse_rtranclp_into_rtranclp)
  next
    case False
    with Cons.prems ip show ?thesis by (intro exI [of _ s] exI [of _ i] exI [of _ cs]) auto
  qed
qed simp

lemma Dispatch_steps:
  assumes "decode_payload payload = Inr event" and "Dispatch (\<lambda>_. False) event (in_hub s) = (None, h)"
    and "in_pending s = None"
  shows "\<exists>s'. inst_steps dial s s' \<and> in_hub s' = h \<and> in_pending s' = None"
proof -
  from assms(2) obtain body cs q where parts: "Event_Validate event = None" "marshal_Event event = Some body"
    "map_of (hub_rooms (in_hub s)) (ev_RoomID event) = Some cs"
    and q: "send_clients (\<lambda>_. False) 0 body cs (hub_send (in_hub s)) = (None, q)" "h = (in_hub s)\<lparr>hub_send := q\<rparr>"
    by (auto simp: Dispatch_def split: option.splits prod.splits)
  have "inst_step dial s (s\<lparr>in_pending := Some (body, cs)\<rparr>)" using assms(1,3) parts by (intro Received)
  with send_clients_steps [OF q(1), of "s\<lparr>in_pending := Some (body, cs)\<rparr>" dial] q(2) show ?thesis
    by (auto intro: converse_rtranclp_into_rtranclp)
qed

subsection \<open>A client that is not read from\<close>

text \<open>The dispatch waits at a connection whose write pump is gone and whose buffer is full.\<close>

definition stuck_at :: "conn \<Rightarrow> inst \<Rightarrow> bool" where
  "stuck_at p s \<longleftrightarrow> (\<exists>body i cs. in_pending s = Some (body, cs) \<and> (i, p) \<in> set cs) \<and> p \<in> in_broken s \<and>
     length (hub_send (in_hub s) p) = sendCap"

lemma extends_full:
  "\<lbrakk>extends h h'; \<forall>p. length (hub_send h p) \<le> sendCap; length (hub_send h p) = sendCap\<rbrakk> \<Longrightarrow> hub_send h' p = hub_send h p"
  unfolding extends_def by (metis append_Nil2 le_antisym length_append le_add1 length_0_conv add_cancel_left_right)

lemma Dispatch_stuck:
  assumes "decode_payload payload = Inr event" and "Dispatch (\<lambda>_. False) event (in_hub s) = (Some (SendBlocked p), h)"
    and "in_pending s = None" and "inst_inv s" and "p \<in> in_broken s"
  shows "\<exists>s'. inst_steps dial s s' \<and> in_hub s' = h \<and> stuck_at p s'"
proof -
  from assms(2) obtain body cs q where parts: "Event_Validate event = None" "marshal_Event event = Some body"
    "map_of (hub_rooms (in_hub s)) (ev_RoomID event) = Some cs"
    and q: "send_clients (\<lambda>_. False) 0 body cs (hub_send (in_hub s)) = (Some (SendBlocked p), q)" "h = (in_hub s)\<lparr>hub_send := q\<rparr>"
    by (auto simp: Dispatch_def split: option.splits prod.splits)
  let ?s = "s\<lparr>in_pending := Some (body, cs)\<rparr>"
  have "inst_step dial s ?s" using assms(1,3) parts by (intro Received)
  moreover obtain s' i cs' where s': "inst_steps dial ?s s'" "in_hub s' = h" "in_pending s' = Some (body, (i, p) # cs')"
    "sendCap \<le> length (q p)" "in_broken s' = in_broken s"
    using send_clients_blocked_steps [OF q(1), of ?s dial] q(2) by auto
  ultimately have steps: "inst_steps dial s s'" by (auto intro: converse_rtranclp_into_rtranclp)
  have "length (hub_send (in_hub s') p) \<le> sendCap" using inst_steps_inv [OF steps assms(4)] by (simp add: inst_inv_def)
  then have "stuck_at p s'" using s' q(2) assms(5) by (auto simp: stuck_at_def)
  with steps s'(2) show ?thesis by blast
qed

lemma stuck_step:
  assumes "inst_step dial s s'" and "inst_inv s" and "stuck_at p s" and "\<not> in_stopped s'"
  shows "\<not> in_stopped s \<and> stuck_at p s' \<and> in_open s' = in_open s \<and> hub_rooms (in_hub s') = hub_rooms (in_hub s) \<and>
    hub_send (in_hub s') p = hub_send (in_hub s) p"
  using assms
proof (induction rule: inst_step.induct)
  case (FrameRead q s c env stopped data e h w)
  note ext = handleMessage_extends [OF FrameRead(3)]
  have "hub_send h p = hub_send (in_hub s) p"
    using extends_full [OF ext] FrameRead(5,6) by (simp add: inst_inv_def stuck_at_def)
  moreover have "hub_rooms h = hub_rooms (in_hub s)" using ext by (simp add: extends_def)
  ultimately show ?case using FrameRead(6,7) by (auto simp: stuck_at_def with_world_def with_hub_def)
next
  case (Sent s body cs i r)
  then have "r \<noteq> p" by (auto simp: stuck_at_def)
  with Sent show ?case by (auto simp: stuck_at_def with_hub_def append_send_def)
next
  case (Pumped s q c written out go_on h)
  then have "q \<noteq> p" by (auto simp: stuck_at_def)
  with Pumped have "hub_send h p = hub_send (in_hub s) p" "hub_rooms h = hub_rooms (in_hub s)"
    by (auto simp: pump_step_def split: list.splits)
  with Pumped show ?case by (auto simp: stuck_at_def)
next
  case (Pinged q s c env written)
  then show ?case by (simp add: stuck_at_def ping_once_hub del: runPing.simps)
next
  case (Refused q c rs s p' env upgraded e st1)
  then show ?case using configureConnection_hub [OF Refused(3)] by (auto simp: stuck_at_def)
qed (auto simp: stuck_at_def with_world_def)

lemma stuck_steps:
  assumes "inst_steps dial s s'" and "inst_inv s" and "stuck_at p s" and "\<not> in_stopped s'"
  shows "stuck_at p s' \<and> in_open s' = in_open s \<and> hub_rooms (in_hub s') = hub_rooms (in_hub s) \<and>
    hub_send (in_hub s') p = hub_send (in_hub s) p"
  using assms
proof (induction rule: rtranclp_induct)
  case (step y z)
  have "\<not> in_stopped y"
    using step(2,6) by (cases rule: inst_step.cases) (auto simp: with_world_def with_hub_def)
  with step stuck_step [OF step(2)] inst_steps_inv show ?case by metis
qed simp

lemma inst_reachable_inv: "inst_reachable dial w0 s \<Longrightarrow> inst_inv s"
proof (induction rule: inst_reachable.induct)
  case Start
  then show ?case by (simp add: inst_inv_def NewHub_def hub_inv_def hub_view_def)
qed (rule inst_step_inv)

inductive_cases inst_stepE: "inst_step dial s s'"

end
