(* ===== verification/Keep_Alive.thy ===== *)
theory Keep_Alive
  imports Ws_Instance
begin

text \<open>
  The ping loop of a connection against the deadlines of the presence service: a ping every 54 seconds
  renews entries that live for 60.
\<close>

subsection \<open>Deadlines\<close>

lemma run_cmds_snoc:
  "run_cmds (cs @ [c]) db = (None, db') \<Longrightarrow> \<exists>db1. rd_now db1 = rd_now db \<and> run_cmd c db1 = (None, db')"
proof (induction cs arbitrary: db)
  case Nil
  then show ?case by (auto split: prod.splits if_splits)
next
  case (Cons x xs)
  obtain db1 where x: "run_cmd x db = (None, db1)" and "run_cmds (xs @ [c]) db1 = (None, db')"
    using Cons.prems by (auto split: prod.splits if_splits)
  moreover have "rd_now db1 = rd_now db" using x by (auto simp: run_cmd_def redis_put_def split: prod.splits)
  ultimately show ?case using Cons.IH by metis
qed

text \<open>A transaction that ends by setting the time to live of a key leaves it with that deadline, or without value.\<close>

lemma expire_last:
  assumes "run_cmds (cs @ [Expire k s]) db = (None, db')"
  shows "rd_keys db' k = None \<or> (\<exists>v. rd_keys db' k = Some (v, Some (rd_now db + 1000 * s)))"
proof -
  obtain db1 where "rd_now db1 = rd_now db" "run_cmd (Expire k s) db1 = (None, db')"
    using run_cmds_snoc [OF assms] by blast
  then show ?thesis
    by (cases "redis_get db1 k") (auto simp: run_cmd_def redis_put_def)
qed

text \<open>A client with a set of rooms whose entries all live until \<open>d\<close>, and one whose entries were renewed now.\<close>

definition held :: "string \<Rightarrow> string \<Rightarrow> string set \<Rightarrow> int \<Rightarrow> redis_world \<Rightarrow> bool" where
  "held c i rooms d w \<longleftrightarrow>
     (let ck = clientKey c i in
      presence_inv (rw_store w) \<and> rw_net w = [] \<and> rd_now (rw_store w) < d \<and>
      members_of (redis_get (rw_store w) ck) = rooms \<and>
      (rd_keys (rw_store w) ck = None \<or> (\<exists>v. rd_keys (rw_store w) ck = Some (v, Some d))) \<and>
      (\<forall>r \<in> rooms. field_of (redis_get (rw_store w) (roomKey r)) ck = Some (i, Some d)))"

definition renewed :: "string \<Rightarrow> string \<Rightarrow> string set \<Rightarrow> redis_world \<Rightarrow> bool" where
  "renewed c i rooms w \<longleftrightarrow> held c i rooms (rd_now (rw_store w) + 60000) w"

lemma set_key_later:
  assumes "rd_keys db k = None \<or> (\<exists>v. rd_keys db k = Some (v, Some d))" and "rd_now db < d" and "t < d"
    and "entry_wf k (rd_keys db k)" and "\<not> HasPrefix k ''room:''"
  shows "redis_get (db\<lparr>rd_now := t\<rparr>) k = redis_get db k"
  using assms by (auto simp: redis_get_def entry_wf_def split: redis_value.splits)

lemma Connect_renewed:
  assumes "presence_inv (rw_store w)" and "rw_net w = []" and "\<not> HasPrefix c ''room:''" and "rooms \<noteq> []"
  shows "\<exists>w1. Connect store_api \<lparr>cr_RoomsId = rooms, cr_InstanceName = i, cr_ClientId = c\<rparr> w = (None, w1) \<and>
    renewed c i (set rooms) w1 \<and> rd_now (rw_store w1) = rd_now (rw_store w)"
proof -
  let ?req = "\<lparr>cr_RoomsId = rooms, cr_InstanceName = i, cr_ClientId = c\<rparr>"
  obtain w1 where con: "Connect store_api ?req w = (None, w1)" and w1: "rw_net w1 = []" "presence_inv (rw_store w1)"
    using Connect_healthy [of w ?req] assms by auto
  note ok = presence_inv_ok [OF assms(1)]
  have eff: "rd_now (rw_store w1) = rd_now (rw_store w)"
    "members_of (redis_get (rw_store w1) (clientKey c i)) = set rooms"
    "\<And>r f. field_of (redis_get (rw_store w1) (roomKey r)) f =
      (if r \<in> set rooms \<and> f = clientKey c i then Some (i, Some (rd_now (rw_store w) + 60000))
       else field_of (redis_get (rw_store w) (roomKey r)) f)"
    using store.Connect_effect [OF con ok] assms(3) by (simp_all add: connTTL_def)
  let ?cs = "saveRooms c i rooms @ [Del (clientKey c i), SAdd (clientKey c i) rooms]"
  have ex: "store_exec (?cs @ [Expire (clientKey c i) connTTL]) w = (None, w1)"
    using con by (simp add: Connect_def store_api_def saveClient_def Let_def)
  have "list_all positive_ttl (?cs @ [Expire (clientKey c i) connTTL])" by (simp add: positive_ttl_def connTTL_def)
  with store_exec_effect [OF ex ok] have
    "run_cmds (?cs @ [Expire (clientKey c i) connTTL]) (rw_store w) = (None, rw_store w1)" by blast
  from expire_last [OF this] eff w1 con show ?thesis
    by (simp add: renewed_def held_def Let_def connTTL_def)
qed

lemma Ping_renewed:
  assumes "held c i rooms d w" and "\<not> HasPrefix c ''room:''"
  shows "\<exists>w1. Ping store_api \<lparr>pr_InstanceName = i, pr_ClientId = c\<rparr> w = (None, w1) \<and>
    renewed c i rooms w1 \<and> rd_now (rw_store w1) = rd_now (rw_store w)"
proof -
  let ?req = "\<lparr>pr_InstanceName = i, pr_ClientId = c\<rparr>" and ?ck = "clientKey c i"
  have inv: "presence_inv (rw_store w)" "rw_net w = []" and mem: "members_of (redis_get (rw_store w) ?ck) = rooms"
    using assms(1) by (simp_all add: held_def Let_def)
  have nk: "\<not> HasPrefix (pr_ClientId ?req) ''room:''" using assms(2) by simp
  obtain w1 cs where ping: "Ping store_api ?req w = (None, w1)" and w1: "rw_net w1 = []" "presence_inv (rw_store w1)"
    and last: "run_cmds (cs @ [Expire ?ck connTTL]) (rw_store w) = (None, rw_store w1)"
    and eff: "members_of (redis_get (rw_store w1) ?ck) = members_of (redis_get (rw_store w) ?ck)"
    "\<forall>r f. field_of (redis_get (rw_store w1) (roomKey r)) f =
      (if r \<in> members_of (redis_get (rw_store w) ?ck) \<and> f = ?ck
       then Some (i, Some (rd_now (rw_store w) + 60000)) else field_of (redis_get (rw_store w) (roomKey r)) f)"
    by (rule Ping_healthy [OF inv nk, unfolded PingConnectionRequest.select_convs])
  have t: "rd_now (rw_store w1) = rd_now (rw_store w)"
    using store.Ping_effect [OF ping presence_inv_ok [OF inv(1)]] by simp
  have "renewed c i rooms w1"
    unfolding renewed_def held_def Let_def using expire_last [OF last] eff w1 mem t by (simp add: connTTL_def)
  with ping t show ?thesis by blast
qed

text \<open>A client whose entries live is found in its rooms.\<close>

lemma held_visible:
  assumes "held c i rooms d w" and "r \<in> rooms"
  shows "\<exists>names. IsConnected store_api r w = (Inr names, w) \<and> i \<in> set names"
proof -
  have "presence_inv (rw_store w)" "rw_net w = []"
    and "field_of (redis_get (rw_store w) (roomKey r)) (clientKey c i) = Some (i, Some d)"
    using assms by (simp_all add: held_def Let_def)
  with IsConnected_healthy [of w r] show ?thesis by blast
qed

subsection \<open>What the other connections do\<close>

text \<open>The client key a request to the presence service is about.\<close>

fun op_key :: "presence_op \<Rightarrow> string option" where
  "op_key (OpConnect req) = Some (clientKey (cr_ClientId req) (cr_InstanceName req))"
| "op_key (OpDisconnect req) = Some (clientKey (dr_ClientId req) (dr_InstanceName req))"
| "op_key (OpPing req) = Some (clientKey (pr_ClientId req) (pr_InstanceName req))"
| "op_key (OpTime ms) = None"

text \<open>Requests of other connections and the passing of time, and how much of it passes.\<close>

definition others :: "string \<Rightarrow> presence_op list \<Rightarrow> bool" where
  "others ck ops \<longleftrightarrow> list_all (\<lambda>p. op_wf p \<and> op_key p \<noteq> Some ck) ops"

fun elapsed :: "presence_op list \<Rightarrow> int" where
  "elapsed [] = 0"
| "elapsed (OpTime ms # ops) = int ms + elapsed ops"
| "elapsed (p # ops) = elapsed ops"

lemma elapsed_nonneg: "0 \<le> elapsed ops"
  by (induction ops rule: elapsed.induct) auto

lemma run_cmds_other_key:
  "\<lbrakk>run_cmds cs db = (e, db'); \<forall>c \<in> set cs. cmd_key c \<noteq> k\<rbrakk> \<Longrightarrow> rd_keys db' k = rd_keys db k"
proof (induction cs arbitrary: db e)
  case (Cons c cs)
  obtain e1 db1 e2 where c: "run_cmd c db = (e1, db1)" and cs: "run_cmds cs db1 = (e2, db')"
    using Cons.prems(1) by (auto split: prod.splits)
  have "rd_keys db1 k = rd_keys db k"
    using c Cons.prems(2) by (auto simp: run_cmd_def redis_put_def split: prod.splits)
  with Cons.IH [OF cs] Cons.prems(2) show ?case by simp
qed simp

text \<open>A transaction that touches neither the client's key nor its field in any room.\<close>

lemma held_exec:
  assumes "held c i rooms d w" and "list_all cmd_wf cs" and "list_all positive_ttl cs"
    and "\<forall>x \<in> set cs. cmd_key x \<noteq> clientKey c i"
    and "\<And>now r x. cmds_field now (roomKey r) (clientKey c i) cs x = x"
  shows "held c i rooms d (snd (store_exec cs w)) \<and> rd_now (rw_store (snd (store_exec cs w))) = rd_now (rw_store w)"
proof (cases "list_ex malformed cs")
  case True
  with assms(1) show ?thesis by (simp add: store_exec_def net_tick_def run_tx_def held_def Let_def)
next
  case False
  have inv: "presence_inv (rw_store w)" "rw_net w = []" using assms(1) by (simp_all add: held_def Let_def)
  obtain e db where run: "run_cmds cs (rw_store w) = (e, db)" by fastforce
  have wf: "e = None" "presence_inv db" using run_cmds_wf [OF run inv(1) assms(2)] by simp_all
  have ex: "snd (store_exec cs w) = w\<lparr>rw_store := db\<rparr>"
    using False run inv(2) by (simp add: store_exec_def net_tick_def run_tx_def)
  note eff = run_cmds_effect [OF run presence_inv_ok [OF inv(1)] assms(3)]
  have key: "rd_keys db (clientKey c i) = rd_keys (rw_store w) (clientKey c i)" by (rule run_cmds_other_key [OF run assms(4)])
  have now: "rd_now db = rd_now (rw_store w)" using eff by simp
  have get: "redis_get db (clientKey c i) = redis_get (rw_store w) (clientKey c i)" unfolding redis_get_def key now by (rule refl)
  have fld: "field_of (redis_get db (roomKey r)) (clientKey c i) = field_of (redis_get (rw_store w) (roomKey r)) (clientKey c i)" for r
    using eff wf(1) assms(5) by simp
  show ?thesis using assms(1) wf(2) unfolding ex by (simp add: held_def Let_def key now get fld)
qed

lemma held_later:
  assumes "held c i rooms d w" and "\<not> HasPrefix c ''room:''" and "rd_now (rw_store w) \<le> t" and "t < d"
  shows "held c i rooms d (at_time t w)"
proof -
  let ?ck = "clientKey c i"
  have inv: "presence_inv (rw_store w)" and now: "rd_now (rw_store w) < d"
    and key: "rd_keys (rw_store w) ?ck = None \<or> (\<exists>v. rd_keys (rw_store w) ?ck = Some (v, Some d))"
    using assms(1) by (simp_all add: held_def Let_def)
  have nk: "\<not> HasPrefix ?ck ''room:''" using assms(2) clientKey_prefix by blast
  have "redis_get (rw_store (at_time t w)) ?ck = redis_get (rw_store w) ?ck"
    using set_key_later [OF key now assms(4)] inv nk by (simp add: at_time_def presence_inv_def)
  moreover have "field_of (redis_get (rw_store (at_time t w)) (roomKey r)) ?ck = Some (i, Some d)"
    if "field_of (redis_get (rw_store w) (roomKey r)) ?ck = Some (i, Some d)" for r
    using room_field_later [OF inv assms(3), of r ?ck] that assms(4) by (simp add: at_time_def)
  ultimately show ?thesis
    using assms(1,4) by (simp add: held_def Let_def) (simp add: at_time_def presence_inv_def)
qed

lemma room_cmds_keys:
  assumes "\<And>r. k \<noteq> roomKey r"
  shows "\<forall>x \<in> set (saveRooms c i rs). cmd_key x \<noteq> k" and "\<forall>x \<in> set (map (\<lambda>r. HDel (roomKey r) f) rs). cmd_key x \<noteq> k"
  using assms [symmetric] by (auto simp: saveRooms_def)

lemma held_step:
  assumes "held c i rooms d w" and "\<not> HasPrefix c ''room:''" and "op_wf p" and "op_key p \<noteq> Some (clientKey c i)"
    and "rd_now (rw_store w) + elapsed [p] < d"
  shows "held c i rooms d (presence_step p w) \<and> rd_now (rw_store (presence_step p w)) = rd_now (rw_store w) + elapsed [p]"
proof -
  let ?ck = "clientKey c i"
  note room = clientKey_not_roomKey [OF assms(2), of i]
  have inv: "presence_inv (rw_store w)" "rw_net w = []" using assms(1) by (simp_all add: held_def Let_def)
  show ?thesis
  proof (cases p)
    case (OpConnect req)
    let ?c = "cr_ClientId req" and ?i = "cr_InstanceName req" and ?rs = "cr_RoomsId req"
    have k: "\<not> HasPrefix ?c ''room:''" "clientKey ?c ?i \<noteq> ?ck" using OpConnect assms(3,4) by simp_all
    have "held c i rooms d (snd (store_exec (saveRooms ?c ?i ?rs @ saveClient ?c ?i ?rs) w)) \<and>
        rd_now (rw_store (snd (store_exec (saveRooms ?c ?i ?rs @ saveClient ?c ?i ?rs) w))) = rd_now (rw_store w)"
    proof (rule held_exec [OF assms(1)])
      show "\<forall>x \<in> set (saveRooms ?c ?i ?rs @ saveClient ?c ?i ?rs). cmd_key x \<noteq> ?ck"
        using k(2) room_cmds_keys(1) [OF room, of ?c ?i ?rs] by (simp add: saveClient_def Let_def ball_Un)
    qed (use k in \<open>simp_all add: saveClient_wf saveRooms_field saveClient_field\<close>)
    then show ?thesis using OpConnect by (simp add: Connect_def store_api_def)
  next
    case (OpDisconnect req)
    let ?k = "clientKey (dr_ClientId req) (dr_InstanceName req)"
    have k: "\<not> HasPrefix (dr_ClientId req) ''room:''" "?k \<noteq> ?ck" using OpDisconnect assms(3,4) by simp_all
    have nk: "\<not> HasPrefix ?k ''room:''" using k(1) clientKey_prefix by blast
    obtain xs where sm: "store_smembers ?k w = (Inr xs, w)" by (rule smembers_healthy [OF inv nk])
    have "held c i rooms d (snd (store_exec (Del ?k # map (\<lambda>r. HDel (roomKey r) ?k) xs) w)) \<and>
        rd_now (rw_store (snd (store_exec (Del ?k # map (\<lambda>r. HDel (roomKey r) ?k) xs) w))) = rd_now (rw_store w)"
    proof (rule held_exec [OF assms(1)])
      show "\<forall>x \<in> set (Del ?k # map (\<lambda>r. HDel (roomKey r) ?k) xs). cmd_key x \<noteq> ?ck"
        using k(2) room_cmds_keys(2) [OF room, of ?k xs] by (simp only: list.set ball_simps cmd_key.simps) simp
    qed (use k nk clientKey_not_roomKey [OF k(1)] in \<open>simp_all add: removals_wf removals_field cmd_wf_def positive_ttl_def\<close>)
    then show ?thesis using OpDisconnect sm assms(1) by (simp add: Disconnect_def store_api_def Let_def)
  next
    case (OpPing req)
    let ?c = "pr_ClientId req" and ?i = "pr_InstanceName req"
    let ?k = "clientKey ?c ?i"
    have k: "\<not> HasPrefix ?c ''room:''" "?k \<noteq> ?ck" using OpPing assms(3,4) by simp_all
    have nk: "\<not> HasPrefix ?k ''room:''" using k(1) clientKey_prefix by blast
    obtain xs where sm: "store_smembers ?k w = (Inr xs, w)" by (rule smembers_healthy [OF inv nk])
    have "held c i rooms d (snd (store_exec (saveRooms ?c ?i xs @ [Expire ?k connTTL]) w)) \<and>
        rd_now (rw_store (snd (store_exec (saveRooms ?c ?i xs @ [Expire ?k connTTL]) w))) = rd_now (rw_store w)"
    proof (rule held_exec [OF assms(1)])
      show "\<forall>x \<in> set (saveRooms ?c ?i xs @ [Expire ?k connTTL]). cmd_key x \<noteq> ?ck"
        using k(2) room_cmds_keys(1) [OF room, of ?c ?i xs] by (simp add: ball_Un)
    qed (use k nk in \<open>simp_all add: saveRooms_field cmd_wf_def positive_ttl_def connTTL_def\<close>)
    then show ?thesis using OpPing sm by (simp add: Ping_def store_api_def Let_def)
  next
    case (OpTime ms)
    with assms(5) held_later [OF assms(1,2), of "rd_now (rw_store w) + int ms"] show ?thesis by (simp add: at_time_def)
  qed
qed

lemma elapsed_Cons: "elapsed (p # ops) = elapsed [p] + elapsed ops"
  by (cases p) auto

lemma held_run:
  "\<lbrakk>held c i rooms d w; \<not> HasPrefix c ''room:''; others (clientKey c i) ops; rd_now (rw_store w) + elapsed ops < d\<rbrakk> \<Longrightarrow>
     held c i rooms d (run_presence ops w) \<and> rd_now (rw_store (run_presence ops w)) = rd_now (rw_store w) + elapsed ops"
proof (induction ops arbitrary: w)
  case (Cons p ops)
  have e: "elapsed (p # ops) = elapsed [p] + elapsed ops" "0 \<le> elapsed ops"
    by (rule elapsed_Cons) (rule elapsed_nonneg)
  then have "rd_now (rw_store w) + elapsed [p] < d" using Cons.prems(4) by linarith
  with held_step [OF Cons.prems(1,2), of p] Cons.prems(3) have
    p: "held c i rooms d (presence_step p w)" "rd_now (rw_store (presence_step p w)) = rd_now (rw_store w) + elapsed [p]"
    by (simp_all add: others_def)
  have "rd_now (rw_store (presence_step p w)) + elapsed ops < d" using Cons.prems(4) e p(2) by linarith
  with Cons.IH [OF p(1) Cons.prems(2)] Cons.prems(3) p(2) e(1) show ?case by (simp add: run_presence_def others_def)
qed (simp add: run_presence_def)

subsection \<open>The ping loop\<close>

text \<open>
  The wait for a tick: the presence service handles the requests \<open>ops\<close>, and the clock of the store, in
  milliseconds, is at the next tick when it is over.
\<close>

definition wait_tick :: "presence_op list \<Rightarrow> ms_world ws_state \<Rightarrow> ms_world ws_state" where
  "wait_tick ops st = st\<lparr>st_world := (st_world st)\<lparr>mw_redis :=
     at_time (rd_now (rw_store (mw_redis (st_world st))) + pingPeriod div 1000000)
       (run_presence ops (mw_redis (st_world st)))\<rparr>\<rparr>"

lemma wait_tick_held:
  assumes "renewed c dial rooms (mw_redis (st_world st))" and "\<not> HasPrefix c ''room:''"
    and "others (clientKey c dial) ops" and "elapsed ops \<le> 54000"
  shows "held c dial rooms (rd_now (rw_store (mw_redis (st_world st))) + 60000) (mw_redis (st_world (wait_tick ops st))) \<and>
    rd_now (rw_store (mw_redis (st_world (wait_tick ops st)))) = rd_now (rw_store (mw_redis (st_world st))) + 54000"
proof -
  let ?w = "mw_redis (st_world st)" and ?d = "rd_now (rw_store (mw_redis (st_world st))) + 60000"
  have h: "held c dial rooms ?d (run_presence ops ?w)" "rd_now (rw_store (run_presence ops ?w)) = rd_now (rw_store ?w) + elapsed ops"
    using held_run [OF assms(1) [unfolded renewed_def] assms(2,3)] assms(4) by simp_all
  have "held c dial rooms ?d (at_time (rd_now (rw_store ?w) + 54000) (run_presence ops ?w))"
    using h assms(4) by (intro held_later [OF h(1) assms(2)]) simp_all
  moreover have "mw_redis (st_world (wait_tick ops st)) = at_time (rd_now (rw_store ?w) + 54000) (run_presence ops ?w)"
    by (simp add: wait_tick_def pingPeriod_def pongWait_def)
  ultimately show ?thesis by (simp add: at_time_def)
qed

lemma runPing_renewed:
  "\<lbrakk>renewed c dial rooms (mw_redis (st_world st)); \<not> HasPrefix c ''room:'';
    \<forall>ops \<in> set rounds. others (clientKey c dial) ops \<and> elapsed ops \<le> 54000\<rbrakk> \<Longrightarrow>
     \<exists>st'. runPing (ms_service env) dial p c (map (\<lambda>ops. (wait_tick ops, True)) rounds) st = st' \<and> st_closed st' = st_closed st \<and>
       renewed c dial rooms (mw_redis (st_world st')) \<and>
       rd_now (rw_store (mw_redis (st_world st'))) = rd_now (rw_store (mw_redis (st_world st))) + int (length rounds) * 54000"
proof (induction rounds arbitrary: st)
  case (Cons ops rounds)
  let ?w = "mw_redis (st_world st)" and ?st = "wait_tick ops st"
  let ?t = "rd_now (rw_store ?w) + 54000"
  have h: "held c dial rooms (rd_now (rw_store ?w) + 60000) (mw_redis (st_world ?st))" "rd_now (rw_store (mw_redis (st_world ?st))) = ?t"
    using wait_tick_held [OF Cons.prems(1,2), of ops] Cons.prems(3) by auto
  obtain w1 where ping: "Ping store_api \<lparr>pr_InstanceName = dial, pr_ClientId = c\<rparr> (mw_redis (st_world ?st)) = (None, w1)"
    and w1: "renewed c dial rooms w1" "rd_now (rw_store w1) = ?t"
    using Ping_renewed [OF h(1) Cons.prems(2)] h(2) by auto
  from ping have "ws_Ping (ms_service env) \<lparr>pr_InstanceName = dial, pr_ClientId = c\<rparr> (st_world ?st)
      = (Inr True, (st_world ?st)\<lparr>mw_redis := w1\<rparr>)"
    by (simp add: ms_service_def rpc_def)
  moreover from Cons.IH [of "?st\<lparr>st_world := (st_world ?st)\<lparr>mw_redis := w1\<rparr>\<rparr>"] w1 Cons.prems(2,3) obtain st' where
    "runPing (ms_service env) dial p c (map (\<lambda>ops. (wait_tick ops, True)) rounds) (?st\<lparr>st_world := (st_world ?st)\<lparr>mw_redis := w1\<rparr>\<rparr>) = st'"
    "st_closed st' = st_closed ?st" "renewed c dial rooms (mw_redis (st_world st'))"
    "rd_now (rw_store (mw_redis (st_world st'))) = ?t + int (length rounds) * 54000" by auto
  moreover have "st_closed ?st = st_closed st" by (simp add: wait_tick_def)
  ultimately show ?case by (simp add: Let_def)
qed simp

text \<open>
  The entries are shared by all connections of a client on an instance: a second connection with other rooms
  replaces the client's set of rooms, its pings and those of the first renew these only, and the first one's
  rooms expire although both connections are open and pinged every 54 seconds.
\<close>

lemma second_connection_hides_first:
  "fst (IsConnected store_api ''general'' (run_presence
     [OpConnect \<lparr>cr_RoomsId = [''general''], cr_InstanceName = ''ws1'', cr_ClientId = ''alice''\<rparr>,
      OpTime 1000, OpConnect \<lparr>cr_RoomsId = [''random''], cr_InstanceName = ''ws1'', cr_ClientId = ''alice''\<rparr>,
      OpTime 53000, OpPing \<lparr>pr_InstanceName = ''ws1'', pr_ClientId = ''alice''\<rparr>,
      OpTime 1000, OpPing \<lparr>pr_InstanceName = ''ws1'', pr_ClientId = ''alice''\<rparr>, OpTime 5000] (empty_redis []))) = Inr []"
  by code_simp

end
