(* ===== verification/Json_Roundtrip.thy ===== *)
theory Json_Roundtrip
  imports Go_Codec
begin

text \<open>
  Reading back what the encoder writes: string literals, integers and objects. \<open>token_at d v\<close> says that \<open>v\<close> is
  the text of one value, at \<open>d\<close> levels below the nesting limit, wherever an object or array goes on after it.
\<close>

subsection \<open>UTF-8 texts\<close>

lemma byte_in_Nil [simp]: "\<not> byte_in [] i lo hi"
  by (simp add: byte_in_def)

lemma byte_in_Cons: "byte_in (c # s) 0 lo hi \<longleftrightarrow> lo \<le> byte_val c \<and> byte_val c \<le> hi"
  "byte_in (c # s) (Suc i) lo hi \<longleftrightarrow> byte_in s i lo hi"
  by (simp_all add: byte_in_def)

lemma byte_in_take: "i < k \<Longrightarrow> k \<le> length s \<Longrightarrow> byte_in (take k s @ t) i lo hi = byte_in s i lo hi"
  by (auto simp: byte_in_def nth_append)

lemma utf8_len_ascii [simp]: "byte_val c < 128 \<Longrightarrow> utf8_len (c # s) = 1"
  by (simp add: utf8_len_def byte_in_Cons)

lemma byte_in_wide: "\<lbrakk>byte_in s i lo hi; 128 \<le> lo; hi \<le> 255\<rbrakk> \<Longrightarrow> byte_in s i 128 255"
  by (simp add: byte_in_def)

text \<open>The conditions for a code point of one to four bytes.\<close>

definition utf8_1 :: "string \<Rightarrow> bool" where "utf8_1 s \<longleftrightarrow> byte_in s 0 0 0x7F"

definition utf8_2 :: "string \<Rightarrow> bool" where
  "utf8_2 s \<longleftrightarrow> byte_in s 0 0xC2 0xDF \<and> byte_in s 1 0x80 0xBF"

definition utf8_3 :: "string \<Rightarrow> bool" where
  "utf8_3 s \<longleftrightarrow> byte_in s 0 0xE0 0xE0 \<and> byte_in s 1 0xA0 0xBF \<and> byte_in s 2 0x80 0xBF \<or>
     (byte_in s 0 0xE1 0xEC \<or> byte_in s 0 0xEE 0xEF) \<and> byte_in s 1 0x80 0xBF \<and> byte_in s 2 0x80 0xBF \<or>
     byte_in s 0 0xED 0xED \<and> byte_in s 1 0x80 0x9F \<and> byte_in s 2 0x80 0xBF"

definition utf8_4 :: "string \<Rightarrow> bool" where
  "utf8_4 s \<longleftrightarrow> byte_in s 0 0xF0 0xF0 \<and> byte_in s 1 0x90 0xBF \<and> byte_in s 2 0x80 0xBF \<and> byte_in s 3 0x80 0xBF \<or>
     byte_in s 0 0xF1 0xF3 \<and> byte_in s 1 0x80 0xBF \<and> byte_in s 2 0x80 0xBF \<and> byte_in s 3 0x80 0xBF \<or>
     byte_in s 0 0xF4 0xF4 \<and> byte_in s 1 0x80 0x8F \<and> byte_in s 2 0x80 0xBF \<and> byte_in s 3 0x80 0xBF"

lemma if_disj: "(if a \<or> b then x else y) = (if a then x else if b then x else y)"
  by simp

lemma utf8_len_eq: "utf8_len s = (if utf8_1 s then 1 else if utf8_2 s then 2 else if utf8_3 s then 3 else if utf8_4 s then 4 else 0)"
  unfolding utf8_len_def utf8_1_def utf8_2_def utf8_3_def utf8_4_def if_disj ..

lemma utf8_wide:
  "utf8_2 s \<Longrightarrow> byte_in s 0 0x80 0xFF \<and> byte_in s 1 0x80 0xFF"
  "utf8_3 s \<Longrightarrow> byte_in s 0 0x80 0xFF \<and> byte_in s 1 0x80 0xFF \<and> byte_in s 2 0x80 0xFF"
  "utf8_4 s \<Longrightarrow> byte_in s 0 0x80 0xFF \<and> byte_in s 1 0x80 0xFF \<and> byte_in s 2 0x80 0xFF \<and> byte_in s 3 0x80 0xFF"
  unfolding utf8_2_def utf8_3_def utf8_4_def by (auto elim: byte_in_wide)

lemma utf8_len_cases:
  obtains "utf8_len s = 0"
  | "utf8_len s = 1" "byte_in s 0 0 0x7F"
  | "utf8_len s = 2" "byte_in s 0 0x80 0xFF" "byte_in s 1 0x80 0xFF"
  | "utf8_len s = 3" "byte_in s 0 0x80 0xFF" "byte_in s 1 0x80 0xFF" "byte_in s 2 0x80 0xFF"
  | "utf8_len s = 4" "byte_in s 0 0x80 0xFF" "byte_in s 1 0x80 0xFF" "byte_in s 2 0x80 0xFF" "byte_in s 3 0x80 0xFF"
proof -
  consider "utf8_1 s" | "\<not> utf8_1 s" "utf8_2 s" | "\<not> utf8_1 s" "\<not> utf8_2 s" "utf8_3 s"
    | "\<not> utf8_1 s" "\<not> utf8_2 s" "\<not> utf8_3 s" "utf8_4 s" | "\<not> utf8_1 s" "\<not> utf8_2 s" "\<not> utf8_3 s" "\<not> utf8_4 s" by blast
  then show thesis
    by cases (use that utf8_wide [of s] in \<open>simp_all add: utf8_len_eq [of s] utf8_1_def\<close>)
qed

lemma byte_in_length: "byte_in s i lo hi \<Longrightarrow> i < length s"
  by (simp add: byte_in_def)

lemma utf8_len_le: "utf8_len s \<le> length s \<and> utf8_len s \<le> 4"
  by (cases s rule: utf8_len_cases) (auto simp: byte_in_def Suc_le_eq)

text \<open>The bytes of a code point outside ASCII.\<close>

lemma utf8_bytes:
  assumes "128 \<le> byte_val c" and "i < utf8_len (c # cs)"
  shows "128 \<le> byte_val ((c # cs) ! i)"
proof -
  consider "i = 0" | "i = 1" | "i = 2" | "i = 3" using utf8_len_le [of "c # cs"] assms(2) by linarith
  then have "byte_in (c # cs) i 0x80 0xFF"
    using assms by cases (cases "c # cs" rule: utf8_len_cases; simp add: byte_in_Cons)+
  then show ?thesis by (simp add: byte_in_def)
qed

lemma utf8_prefix:
  assumes "k \<le> length s"
  shows "1 \<le> k \<Longrightarrow> utf8_1 (take k s @ t) = utf8_1 s" "2 \<le> k \<Longrightarrow> utf8_2 (take k s @ t) = utf8_2 s"
    "3 \<le> k \<Longrightarrow> utf8_3 (take k s @ t) = utf8_3 s" "4 \<le> k \<Longrightarrow> utf8_4 (take k s @ t) = utf8_4 s"
  using byte_in_take [of _ k s t] assms unfolding utf8_1_def utf8_2_def utf8_3_def utf8_4_def by simp_all

lemma utf8_len_prefix:
  assumes "utf8_len s = k" and "k \<noteq> 0"
  shows "utf8_len (take k s @ t) = k"
proof -
  have "k \<le> length s" using utf8_len_le [of s] assms(1) by simp
  note p = utf8_prefix [OF this, of t]
  show ?thesis using assms p unfolding utf8_len_eq by (auto split: if_splits)
qed

function utf8_valid :: "string \<Rightarrow> bool" where
  "utf8_valid [] = True"
| "utf8_valid (c # cs) = (utf8_len (c # cs) \<noteq> 0 \<and> utf8_valid (drop (utf8_len (c # cs) - 1) cs))"
  by pat_completeness auto
termination
  by (relation "measure length") auto

lemma utf8_valid_ascii: "\<forall>c \<in> set s. byte_val c < 128 \<Longrightarrow> utf8_valid s"
  by (induction s) auto

lemma drop_utf8: "utf8_len (c # cs) \<noteq> 0 \<Longrightarrow> drop (utf8_len (c # cs)) (c # cs) = drop (utf8_len (c # cs) - 1) cs"
  by (cases "utf8_len (c # cs)") auto

subsection \<open>String literals\<close>

lemma scan_str_wide: "\<forall>c \<in> set w. 128 \<le> byte_val c \<Longrightarrow> scan_str (w @ t) = scan_str t"
  by (induction w) auto

lemma hexdigit_hex [simp]: "n < 16 \<Longrightarrow> is_hex (hexdigit n)"
  by (simp add: is_hex_def)

lemma scan_str_u4:
  "list_all is_hex [a, b, c, d] \<Longrightarrow> scan_str (CHR 0x5C # CHR ''u'' # a # b # c # d # t) = scan_str t"
  by (simp add: scan_escape_def is_escape_def)

lemma is_hex_consts [simp]: "is_hex (CHR ''0'')" "is_hex (CHR ''2'')" "is_hex (CHR ''f'')" "is_hex (CHR ''d'')"
  by (simp_all add: is_hex_def hex_value_def)

lemma scan_str_escaped: "is_escape e \<Longrightarrow> scan_str (CHR 0x5C # e # t) = scan_str t"
  by (simp add: scan_escape_def)

lemma scan_str_quote_ascii: "byte_val c < 128 \<Longrightarrow> scan_str (quote_ascii c @ t) = scan_str t"
  by (auto simp: quote_ascii_def Let_def scan_str_escaped is_escape_def u00_def scan_str_u4 simp del: scan_str.simps)
    (auto)

lemma quote_body_wide:
  assumes "\<not> byte_val c < 128"
  shows "\<forall>x \<in> set (take (utf8_len (c # cs)) (c # cs)). 128 \<le> byte_val x"
proof
  fix x
  assume "x \<in> set (take (utf8_len (c # cs)) (c # cs))"
  then obtain i where "i < utf8_len (c # cs)" "x = (c # cs) ! i"
    using utf8_len_le [of "c # cs"] by (auto simp: in_set_conv_nth)
  with utf8_bytes [of c i cs] assms show "128 \<le> byte_val x" by simp
qed

lemma scan_str_quote_body: "scan_str (quote_body s @ t) = scan_str t"
proof (induction s rule: quote_body.induct)
  case (2 c cs)
  consider "byte_val c < 128" | "\<not> byte_val c < 128" "utf8_len (c # cs) = 0"
    | "\<not> byte_val c < 128" "utf8_len (c # cs) \<noteq> 0" "line_separator (c # cs)"
    | "\<not> byte_val c < 128" "utf8_len (c # cs) \<noteq> 0" "\<not> line_separator (c # cs)" by blast
  then show ?case
  proof cases
    case 1
    with 2(1) show ?thesis by (simp add: scan_str_quote_ascii)
  next
    case 2
    with "2.IH"(2) show ?thesis by (simp add: scan_str_u4 del: scan_str.simps)
  next
    case 3
    with "2.IH"(3) show ?thesis by (simp add: quote_separator_def scan_str_u4 del: scan_str.simps)
  next
    case 4
    with "2.IH"(4) scan_str_wide [OF quote_body_wide [OF 4(1)]] show ?thesis by simp
  qed
qed simp

lemma scan_str_quote: "scan_str (quote_body s @ CHR 0x22 # rest) = Some rest"
  by (simp add: scan_str_quote_body)

lemma unquote_plain: "\<lbrakk>byte_val c < 128; c \<noteq> CHR 0x5C\<rbrakk> \<Longrightarrow> unquote (c # t) = c # unquote t"
  by simp

lemma hex4_Cons:
  "hex4 (a # b # c # d # t) =
     Option.bind (hex_value a) (\<lambda>a. Option.bind (hex_value b) (\<lambda>b.
       Option.bind (hex_value c) (\<lambda>c. Option.bind (hex_value d) (\<lambda>d. Some (a * 4096 + b * 256 + c * 16 + d)))))"
  by (simp add: hex4_def numeral_2_eq_2 numeral_3_eq_3)

lemma hex_value_consts: "hex_value (CHR ''0'') = Some 0" "hex_value (CHR ''2'') = Some 2"
  by (simp_all add: hex_value_def)

lemma unquote_u00: "n < 128 \<Longrightarrow> unquote (u00 n @ t) = char_of n # unquote t"
proof -
  assume n: "n < 128"
  then have "n div 16 < 16" "n mod 16 < 16" by simp_all
  then have "hex4 (CHR ''0'' # CHR ''0'' # hexdigit (n div 16) # hexdigit (n mod 16) # t) = Some n"
    by (simp add: hex4_Cons hex_value_consts)
  with n show ?thesis by (simp add: u00_def escape_value_def encode_rune_def)
qed

lemma unquote_quote_ascii:
  assumes "byte_val c < 128"
  shows "unquote (quote_ascii c @ t) = c # unquote t"
proof -
  have c: "char_of (byte_val c) = c" by simp
  have "c = CHR 0x22 \<or> c = CHR 0x5C \<or> byte_val c \<in> {8, 12, 10, 13, 9} \<or>
      quote_ascii c = u00 (byte_val c) \<or> quote_ascii c = [c] \<and> c \<noteq> CHR 0x5C"
    by (simp add: quote_ascii_def Let_def)
  then consider "c = CHR 0x22 \<or> c = CHR 0x5C" | "byte_val c \<in> {8, 12, 10, 13, 9}"
    | "quote_ascii c = u00 (byte_val c)" | "quote_ascii c = [c]" "c \<noteq> CHR 0x5C" by blast
  then show ?thesis
  proof cases
    case 1
    then show ?thesis by (auto simp: quote_ascii_def escape_value_def unescape_def)
  next
    case 2
    then have "c = CHR 0x08 \<or> c = CHR 0x0C \<or> c = CHR 0x0A \<or> c = CHR 0x0D \<or> c = CHR 0x09"
      using c by (auto simp: char_of_def bit_0)
    then show ?thesis by (auto simp: quote_ascii_def escape_value_def unescape_def)
  next
    case 3
    with unquote_u00 [OF assms, of t] c show ?thesis by simp
  next
    case 4
    with assms show ?thesis by simp
  qed
qed

lemma unquote_separator:
  assumes "line_separator s"
  shows "unquote (quote_separator s @ t) = take 3 s @ unquote t"
proof -
  obtain z r where s: "s = [CHR 0xE2, CHR 0x80, z] @ r" and z: "z = CHR 0xA8 \<or> z = CHR 0xA9"
    using assms by (auto simp: line_separator_def HasPrefix_iff)
  have "quote_separator s = [CHR 0x5C, CHR ''u'', CHR ''2'', CHR ''0'', CHR ''2'', hexdigit (byte_val z mod 16)]"
    by (simp add: quote_separator_def s numeral_2_eq_2)
  moreover have "hex4 ([CHR ''2'', CHR ''0'', CHR ''2'', hexdigit (byte_val z mod 16)] @ t) = Some (8224 + byte_val z mod 16)"
    by (simp add: hex4_Cons hex_value_consts)
  moreover have "encode_rune 8232 = [CHR 0xE2, CHR 0x80, CHR 0xA8]" "encode_rune 8233 = [CHR 0xE2, CHR 0x80, CHR 0xA9]"
    by (simp_all add: encode_rune_def char_of_def bit_iff_odd)
  then have "encode_rune (8224 + byte_val z mod 16) = [CHR 0xE2, CHR 0x80, z]" using z by auto
  ultimately show ?thesis using z by (auto simp: escape_value_def s)
qed

lemma line_separator_len: "line_separator s \<Longrightarrow> utf8_len s = 3"
proof -
  assume "line_separator s"
  then obtain z r where s: "s = [CHR 0xE2, CHR 0x80, z] @ r" and "z = CHR 0xA8 \<or> z = CHR 0xA9"
    by (auto simp: line_separator_def HasPrefix_iff)
  then have "\<not> utf8_1 s" "\<not> utf8_2 s" "utf8_3 s"
    by (auto simp: utf8_1_def utf8_2_def utf8_3_def byte_in_def)
  then show ?thesis by (simp add: utf8_len_eq)
qed

lemma unquote_wide:
  assumes "128 \<le> byte_val c" and "utf8_len (c # cs) = k" and "k \<noteq> 0"
  shows "unquote (take k (c # cs) @ t) = take k (c # cs) @ unquote t"
proof -
  obtain j where k: "k = Suc j" using assms(3) by (cases k) auto
  have len: "utf8_len (take k (c # cs) @ t) = k" by (rule utf8_len_prefix [OF assms(2,3)])
  have "c \<noteq> CHR 0x5C" using assms(1) by auto
  moreover have "length (take k (c # cs)) = k" using utf8_len_le [of "c # cs"] assms(2) by simp
  ultimately show ?thesis
    using len by (simp add: k)
qed

text \<open>A string that is valid UTF-8 is read back from its literal.\<close>

theorem unquote_quote_body: "utf8_valid s \<Longrightarrow> unquote (quote_body s) = s"
proof (induction s rule: quote_body.induct)
  case (2 c cs)
  have v: "utf8_len (c # cs) \<noteq> 0" "utf8_valid (drop (utf8_len (c # cs)) (c # cs))"
    using 2(5) drop_utf8 [of c cs] by simp_all
  consider "byte_val c < 128" | "\<not> byte_val c < 128" "line_separator (c # cs)"
    | "\<not> byte_val c < 128" "\<not> line_separator (c # cs)" by blast
  then show ?case
  proof cases
    case 1
    with "2.IH"(1) v show ?thesis by (simp add: unquote_quote_ascii del: unquote.simps)
  next
    case 2
    with line_separator_len v have "utf8_valid (drop 2 cs)" by (simp add: numeral_3_eq_3 numeral_2_eq_2)
    moreover have "take 3 (c # cs) @ drop 2 cs = c # cs" by (simp add: numeral_3_eq_3 numeral_2_eq_2)
    ultimately show ?thesis using "2.IH"(3) 2 v unquote_separator [OF 2(2)] by (simp del: unquote.simps)
  next
    case 3
    with "2.IH"(4) v unquote_wide [of c cs] show ?thesis
      by (simp del: unquote.simps utf8_valid.simps)
  qed
qed simp

text \<open>A literal written without escapes.\<close>

definition plain :: "string \<Rightarrow> bool" where
  "plain s \<longleftrightarrow> (\<forall>c \<in> set s. byte_val c < 128 \<and> quote_ascii c = [c])"

lemma plain_quote_body: "plain s \<Longrightarrow> quote_body s = s"
  by (induction s) (auto simp: plain_def)

lemma plain_unquote: "plain s \<Longrightarrow> unquote s = s"
  using unquote_quote_body [of s] plain_quote_body [of s] by (simp add: plain_def utf8_valid_ascii)

lemma plain_quote: "plain s \<Longrightarrow> quote s = CHR 0x22 # s @ [CHR 0x22]"
  by (simp add: quote_def plain_quote_body)

subsection \<open>Values\<close>

definition vend :: "nat \<Rightarrow> string \<Rightarrow> string option" where
  "vend d s = scan_value (Suc (2 * length s)) d s"

definition mend :: "nat \<Rightarrow> string \<Rightarrow> string option" where
  "mend d s = scan_members (Suc (2 * length s)) d s"

lemma value_end_vend: "value_end s = vend max_nesting s"
  by (simp add: value_end_def vend_def)

lemma scan_members_fuel: "scan_members (Suc (2 * length s) + k) d s = mend d s"
proof (induction k)
  case (Suc k)
  then show ?case using scan_fuel_step [of "Suc (2 * length s) + k"] by simp
qed (simp add: mend_def)

lemma scan_value_more: "2 * length s < n \<Longrightarrow> scan_value n d s = vend d s"
  using scan_fuel_enough [of s "n - Suc (2 * length s)" d] by (simp add: vend_def)

lemma scan_members_more: "2 * length s < n \<Longrightarrow> scan_members n d s = mend d s"
  using scan_members_fuel [of s "n - Suc (2 * length s)" d] by simp

definition delim :: "string \<Rightarrow> bool" where
  "delim s \<longleftrightarrow> s = [] \<or> hd s = CHR '','' \<or> hd s = CHR ''}'' \<or> hd s = CHR '']''"

definition token_at :: "nat \<Rightarrow> string \<Rightarrow> bool" where
  "token_at d v \<longleftrightarrow> v \<noteq> [] \<and> \<not> is_ws (hd v) \<and> (\<forall>rest. delim rest \<longrightarrow> vend d (v @ rest) = Some rest)"

lemma token_string: "token_at d (quote s)"
  by (simp add: token_at_def quote_def vend_def is_ws_def scan_str_quote)

lemma token_plain: "plain s \<Longrightarrow> token_at d (CHR 0x22 # s @ [CHR 0x22])"
  using token_string [of d s] by (simp add: plain_quote)

lemma delim_not_digit: "delim s \<Longrightarrow> dropWhile is_digit s = s"
  by (cases s) (auto simp: delim_def is_digit_def)

lemma scan_frac_delim: "delim s \<Longrightarrow> scan_frac s = Some s \<and> scan_exp s = Some s"
  by (cases s) (auto simp: scan_frac_def scan_exp_def delim_def)

lemma dropWhile_digits: "\<forall>c \<in> set ds. is_digit c \<Longrightarrow> dropWhile is_digit (ds @ s) = dropWhile is_digit s"
  by (induction ds) auto

lemma show_nat_zero: "hd (show_nat n) = CHR ''0'' \<Longrightarrow> n = 0"
proof (induction n rule: show_nat.induct)
  case (1 n)
  show ?case
  proof (cases "n < 10")
    case True
    with 1(2) have "byte_val (digit_char n) = byte_val (CHR ''0'')" by (simp add: show_nat.simps [of n])
    with True show ?thesis by simp
  next
    case False
    then have "hd (show_nat (n div 10)) = CHR ''0''" using 1(2) by (simp add: show_nat.simps [of n])
    with 1(1) False show ?thesis by simp
  qed
qed

lemma scan_int_show_nat: "delim rest \<Longrightarrow> scan_int (show_nat n @ rest) = Some rest"
proof -
  assume d: "delim rest"
  obtain c cs where s: "show_nat n = c # cs" by (metis list.exhaust show_nat_not_Nil)
  have dig: "is_digit c" "\<forall>x \<in> set cs. is_digit x" using show_nat_digits [of _ n] s by auto
  show ?thesis
  proof (cases "c = CHR ''0''")
    case True
    then have "n = 0" using show_nat_zero [of n] s by simp
    then have "cs = []" using s by (simp add: show_nat.simps)
    with True s show ?thesis by (simp add: scan_int_def)
  next
    case False
    with dig s d show ?thesis by (simp add: scan_int_def dropWhile_digits delim_not_digit)
  qed
qed

lemma digit_not_ws: "is_digit c \<Longrightarrow> \<not> is_ws c \<and> c \<noteq> CHR ''{'' \<and> c \<noteq> CHR ''['' \<and> c \<noteq> CHR 0x22 \<and> c \<noteq> CHR ''-''"
  by (auto simp: is_digit_def is_ws_def)

lemma scan_num_show_int: "delim rest \<Longrightarrow> scan_num (show_int i @ rest) = Some rest"
proof -
  assume d: "delim rest"
  have h: "hd (show_nat n) \<noteq> CHR ''-''" for n
    using digit_not_ws [OF show_nat_digits [OF hd_in_set [OF show_nat_not_Nil [of n]]]] by simp
  have s: "scan_int (if show_int i @ rest \<noteq> [] \<and> hd (show_int i @ rest) = CHR ''-'' then tl (show_int i @ rest) else show_int i @ rest) = Some rest"
    using scan_int_show_nat [OF d] h by (simp add: show_int_def)
  show ?thesis unfolding scan_num_def s using scan_frac_delim [OF d] by simp
qed

lemma token_int: "token_at d (show_int i)"
proof -
  obtain c cs where s: "show_int i = c # cs" and c: "c = CHR ''-'' \<or> is_digit c"
  proof (cases "i < 0")
    case True
    with that show thesis by (simp add: show_int_def)
  next
    case False
    obtain c cs where "show_nat (nat i) = c # cs" by (metis list.exhaust show_nat_not_Nil)
    with False that show_nat_digits [of c "nat i"] show thesis by (simp add: show_int_def)
  qed
  have nc: "\<not> is_ws c" "c \<noteq> CHR ''{''" "c \<noteq> CHR ''[''" "c \<noteq> CHR 0x22"
    using c digit_not_ws by (auto simp: is_ws_def)
  have "vend d (show_int i @ rest) = Some rest" if "delim rest" for rest
    using scan_num_show_int [OF that, of i] c nc by (simp add: vend_def s)
  then show ?thesis using s nc by (simp add: token_at_def)
qed

subsection \<open>Objects\<close>

lemma skip_ws_id: "\<lbrakk>s \<noteq> []; \<not> is_ws (hd s)\<rbrakk> \<Longrightarrow> skip_ws s = s"
  by (cases s) auto

lemma skip_ws_token: "token_at d v \<Longrightarrow> skip_ws (v @ t) = v @ t"
  by (rule skip_ws_id) (auto simp: token_at_def)

lemma is_ws_consts [simp]: "\<not> is_ws (CHR '','')" "\<not> is_ws (CHR ''}'')" "\<not> is_ws (CHR '':'')" "\<not> is_ws (CHR 0x22)"
  by (simp_all add: is_ws_def)

definition members_text :: "(string \<times> string) list \<Rightarrow> string" where
  "members_text kvs = Join (CHR '','') (map (\<lambda>(k, v). member k v) kvs)"

lemma members_text_Cons:
  "members_text ((k, v) # kvs) = CHR 0x22 # quote_body k @ CHR 0x22 # CHR '':'' # v @ (if kvs = [] then [] else CHR '','' # members_text kvs)"
  by (cases kvs) (auto simp: members_text_def member_def quote_def)

lemma mend_members:
  "\<lbrakk>kvs \<noteq> []; \<forall>(k, v) \<in> set kvs. token_at d v\<rbrakk> \<Longrightarrow> mend d (members_text kvs @ CHR ''}'' # rest) = Some rest"
proof (induction kvs)
  case (Cons kv kvs)
  obtain k v where kv: "kv = (k, v)" by fastforce
  have tok: "token_at d v" using Cons.prems kv by simp
  define after where "after = (if kvs = [] then [] else CHR '','' # members_text kvs) @ CHR ''}'' # rest"
  have del: "delim after" by (simp add: after_def delim_def)
  let ?s = "members_text (kv # kvs) @ CHR ''}'' # rest"
  have s: "?s = CHR 0x22 # quote_body k @ CHR 0x22 # CHR '':'' # v @ after"
    by (simp add: kv members_text_Cons after_def)
  have v: "scan_value (2 * length ?s) d (v @ after) = Some after"
    using tok del scan_value_more [of "v @ after" "2 * length ?s" d] by (simp add: token_at_def s)
  have first: "mend d ?s = (case expect (CHR ''}'') after of Some r \<Rightarrow> Some r
      | None \<Rightarrow> Option.bind (expect (CHR '','') after) (\<lambda>s5. scan_members (2 * length ?s) d (skip_ws s5)))"
    unfolding mend_def using v skip_ws_token [OF tok, of after]
    by (simp add: s scan_str_quote after_def skip_ws_id)
  show ?case
  proof (cases "kvs = []")
    case True
    with first show ?thesis by (simp add: after_def)
  next
    case False
    have hd: "members_text kvs \<noteq> []" "\<not> is_ws (hd (members_text kvs))"
      using False by (cases kvs; cases "hd kvs"; simp add: members_text_Cons)+
    then have "skip_ws (members_text kvs @ CHR ''}'' # rest) = members_text kvs @ CHR ''}'' # rest"
      by (intro skip_ws_id) auto
    moreover have "scan_members (2 * length ?s) d (members_text kvs @ CHR ''}'' # rest) = Some rest"
      using Cons.IH [OF False] Cons.prems scan_members_more [of "members_text kvs @ CHR ''}'' # rest" "2 * length ?s" d] False
      by (simp add: s after_def)
    ultimately show ?thesis using first False by (simp add: after_def)
  qed
qed simp

definition object_text :: "(string \<times> string) list \<Rightarrow> string" where
  "object_text kvs = object (map (\<lambda>(k, v). member k v) kvs)"

lemma object_text_eq: "object_text kvs = CHR ''{'' # members_text kvs @ ''}''"
  by (simp add: object_text_def object_def members_text_def)

lemma members_text_start:
  assumes "kvs \<noteq> []"
  shows "skip_ws (members_text kvs @ t) = members_text kvs @ t" and "expect (CHR ''}'') (members_text kvs @ t) = None"
proof -
  obtain s where "members_text kvs = CHR 0x22 # s"
    using assms by (cases kvs) (auto simp: members_text_Cons)
  then show "skip_ws (members_text kvs @ t) = members_text kvs @ t" "expect (CHR ''}'') (members_text kvs @ t) = None"
    by simp_all
qed

lemma vend_object:
  assumes "\<forall>(k, v) \<in> set kvs. token_at d v"
  shows "vend (Suc d) (object_text kvs @ rest) = Some rest"
proof (cases "kvs = []")
  case True
  then show ?thesis by (simp add: object_text_def object_def vend_def)
next
  case False
  let ?s = "object_text kvs @ rest"
  have s: "?s = CHR ''{'' # members_text kvs @ CHR ''}'' # rest" by (simp add: object_text_eq)
  have "vend (Suc d) ?s = scan_members (2 * length ?s) d (members_text kvs @ CHR ''}'' # rest)"
    using members_text_start [OF False, of "CHR ''}'' # rest"] by (simp add: vend_def s)
  also have "\<dots> = mend d (members_text kvs @ CHR ''}'' # rest)"
    by (rule scan_members_more) (simp add: object_text_eq)
  finally show ?thesis using mend_members [OF False assms] by simp
qed

lemma token_object: "\<forall>(k, v) \<in> set kvs. token_at d v \<Longrightarrow> token_at (Suc d) (object_text kvs)"
  using vend_object [of kvs d] by (simp add: token_at_def object_text_eq is_ws_def)

lemma raw_append [simp]: "raw (s @ t) t = s"
  by (simp add: raw_def)

lemma members_from_text:
  "\<lbrakk>kvs \<noteq> []; \<forall>(k, v) \<in> set kvs. token_at max_nesting v; length kvs \<le> n\<rbrakk> \<Longrightarrow>
     members_from n (members_text kvs @ CHR ''}'' # rest) = Some (map (\<lambda>(k, v). (unquote (quote_body k), v)) kvs)"
proof (induction kvs arbitrary: n)
  case (Cons kv kvs)
  obtain k v where kv: "kv = (k, v)" by fastforce
  obtain m where n: "n = Suc m" using Cons.prems(3) by (cases n) auto
  have tok: "token_at max_nesting v" using Cons.prems kv by simp
  define after where "after = (if kvs = [] then [] else CHR '','' # members_text kvs) @ CHR ''}'' # rest"
  have del: "delim after" by (simp add: after_def delim_def)
  have s: "members_text (kv # kvs) @ CHR ''}'' # rest = CHR 0x22 # quote_body k @ CHR 0x22 # CHR '':'' # v @ after"
    by (simp add: kv members_text_Cons after_def)
  have ws: "skip_ws after = after" by (simp add: after_def)
  have v: "value_end (v @ after) = Some after" using tok del by (simp add: token_at_def value_end_vend)
  have raw1: "raw (quote_body k @ CHR 0x22 # CHR '':'' # v @ after) (CHR '':'' # v @ after) = quote_body k @ [CHR 0x22]"
    using raw_append [of "quote_body k @ [CHR 0x22]" "CHR '':'' # v @ after"] by simp
  have first: "members_from n (members_text (kv # kvs) @ CHR ''}'' # rest) =
      (case expect (CHR ''}'') after of Some r \<Rightarrow> Some [(unquote (quote_body k), v)]
       | None \<Rightarrow> Option.bind (expect (CHR '','') after) (\<lambda>s5. map_option ((#) (unquote (quote_body k), v)) (members_from m (skip_ws s5))))"
    unfolding n s using v skip_ws_token [OF tok, of after] ws
    by (simp add: scan_str_quote raw1 Let_def split: option.split)
  show ?case
  proof (cases "kvs = []")
    case True
    with first show ?thesis by (simp add: after_def kv)
  next
    case False
    have "members_from m (members_text kvs @ CHR ''}'' # rest) = Some (map (\<lambda>(k, v). (unquote (quote_body k), v)) kvs)"
      using Cons.IH [OF False, of m] Cons.prems n by simp
    with first False members_text_start(1) [OF False] show ?thesis by (simp add: after_def kv)
  qed
qed simp

lemma length_members_text: "length kvs \<le> length (members_text kvs)"
  by (induction kvs) (auto simp: members_text_Cons)

text \<open>The members of an object are read back.\<close>

theorem parse_object:
  assumes "\<forall>(k, v) \<in> set kvs. token_at (max_nesting - 1) v \<and> token_at max_nesting v"
  shows "parse_document (object_text kvs) = Some (Object (map (\<lambda>(k, v). (unquote (quote_body k), v)) kvs))"
proof -
  obtain d where d: "max_nesting = Suc d" by (simp add: max_nesting_def)
  have "vend max_nesting (object_text kvs) = Some []"
    using vend_object [of kvs d "[]"] assms by (fastforce simp: d)
  moreover have ws: "skip_ws (object_text kvs) = object_text kvs" by (simp add: object_text_eq is_ws_def)
  ultimately have valid: "Valid (object_text kvs)" by (simp add: Valid_def value_end_vend)
  show ?thesis
  proof (cases "kvs = []")
    case True
    with valid ws show ?thesis by (simp add: parse_document_def object_text_eq members_text_def)
  next
    case False
    have "members_from (length (object_text kvs)) (members_text kvs @ ''}'') =
        Some (map (\<lambda>(k, v). (unquote (quote_body k), v)) kvs)"
      using members_from_text [OF False, of "length (object_text kvs)" "[]"] assms length_members_text [of kvs]
      by (fastforce simp: object_text_eq)
    with valid ws members_text_start [OF False, of "''}''"] show ?thesis
      by (simp add: parse_document_def object_text_eq)
  qed
qed

subsection \<open>Fields\<close>

lemma butlast_quoted [simp]: "butlast (tl (CHR 0x22 # s @ [CHR 0x22])) = s"
  by simp

lemma not_null_quoted [simp]: "\<not> is_null (CHR 0x22 # s)"
  by (simp add: is_null_def)

lemma decode_string_quote: "utf8_valid s \<Longrightarrow> decode_string old (quote s) = Some s"
  by (simp add: decode_string_def quote_def unquote_quote_body)

lemma decode_int_show: "in_int64 i \<Longrightarrow> decode_int old (show_int i) = Some i"
proof -
  assume i: "in_int64 i"
  have "hd (show_int i) = CHR ''-'' \<or> is_digit (hd (show_int i))" "show_int i \<noteq> []"
    using show_nat_digits [OF hd_in_set [OF show_nat_not_Nil [of "nat i"]]] by (simp_all add: show_int_def)
  moreover from this have "\<not> is_null (show_int i)" by (auto simp: is_null_def is_digit_def)
  ultimately show ?thesis using ParseInt_show_int [OF i] by (simp add: decode_int_def)
qed

lemma decode_time_format:
  assumes "valid_time t"
  shows "decode_time old (CHR 0x22 # format_rfc3339 t @ [CHR 0x22]) = Some t"
  using parse_format_rfc3339 [OF assms] by (simp add: decode_time_def)

end
