(* ===== verification/Wire_Roundtrip.thy ===== *)
theory Wire_Roundtrip
  imports Json_Roundtrip Envelope
begin

text \<open>
  The services' own texts are read back: the acknowledgements a client receives, the event that travels
  through Kafka, and the envelope it travels in over Redis.
\<close>

subsection \<open>Times\<close>

lemma plain_simps: "plain []" "plain (c # s) \<longleftrightarrow> byte_val c < 128 \<and> quote_ascii c = [c] \<and> plain s"
  "plain (s @ t) \<longleftrightarrow> plain s \<and> plain t"
  by (auto simp: plain_def)

lemma digit_plain: "is_digit c \<Longrightarrow> byte_val c < 128 \<and> quote_ascii c = [c]"
  by (auto simp: is_digit_def quote_ascii_def Let_def)

lemma plain_digits: "\<forall>c \<in> set s. is_digit c \<Longrightarrow> plain s"
  by (auto simp: plain_def dest: digit_plain)

lemma plain_pad [simp]: "plain (pad w n)"
  by (rule plain_digits) (auto dest: pad_digits)

lemma plain_trim_zeros: "plain s \<Longrightarrow> plain (trim_zeros s)"
  by (auto simp: plain_def trim_zeros_def dest: set_dropWhileD)

lemma plain_punctuation:
  "quote_ascii (CHR ''-'') = ''-''" "quote_ascii (CHR ''T'') = ''T''" "quote_ascii (CHR '':'') = '':''"
  "quote_ascii (CHR ''.'') = ''.''" "quote_ascii (CHR ''Z'') = ''Z''" "quote_ascii (CHR ''+'') = ''+''"
  by (simp_all add: quote_ascii_def)

lemma plain_time: "plain (format_rfc3339 t)"
  by (simp add: format_rfc3339_def format_offset_def plain_simps plain_punctuation plain_trim_zeros)

lemma marshal_time_token: "marshal_time t = Some v \<Longrightarrow> token_at d v"
  using token_plain [OF plain_time [of t]] by (auto simp: marshal_time_def split: if_splits)

lemma marshal_time_decode: "\<lbrakk>marshal_time t = Some v; valid_time t\<rbrakk> \<Longrightarrow> decode_time old v = Some t"
  using decode_time_format [of t] by (auto simp: marshal_time_def split: if_splits)

lemma marshal_time_valid: "valid_time t \<Longrightarrow> \<exists>v. marshal_time t = Some v"
  by (simp add: marshal_time_def valid_time_def)

subsection \<open>Structs\<close>

text \<open>An object whose keys are written without escapes.\<close>

lemma parse_struct:
  assumes "\<forall>(k, v) \<in> set kvs. plain k \<and> token_at (max_nesting - 1) v \<and> token_at max_nesting v"
  shows "parse_document (object_text kvs) = Some (Object kvs)"
proof -
  have "map (\<lambda>(k, v). (unquote (quote_body k), v)) kvs = kvs"
    using assms by (induction kvs) (auto simp: plain_quote_body plain_unquote)
  with parse_object [of kvs] assms show ?thesis by fastforce
qed

lemma unmarshal_struct:
  "\<forall>(k, v) \<in> set kvs. plain k \<and> token_at (max_nesting - 1) v \<and> token_at max_nesting v \<Longrightarrow>
     unmarshal dec zero (object_text kvs) = dec kvs"
  by (simp add: unmarshal_def parse_struct)

lemma plain_names [simp]:
  "plain ''type''" "plain ''version''" "plain ''message_id''" "plain ''client_message_id''" "plain ''room_id''"
  "plain ''room_seq''" "plain ''created_at''" "plain ''payload''" "plain ''error_code''"
  "plain ''Key''" "plain ''Value''" "plain ''Headers''" "plain ''Timestamp''"
  by (simp_all add: plain_simps quote_ascii_def)

lemma Event_roundtrip:
  assumes "marshal_Event e = Some s" and "valid_time (ev_CreatedAt e)" and "in_int64 (ev_Version e)" and "in_int64 (ev_RoomSeq e)"
    and "utf8_valid (ev_MessageID e)" and "utf8_valid (ev_ClientMessageID e)" and "utf8_valid (ev_RoomID e)"
    and "marshal_raw (ev_Payload e) = Some p" and "token_at (max_nesting - 1) p" and "token_at max_nesting p"
  shows "unmarshal_Event s = Some (e\<lparr>ev_Payload := p\<rparr>)"
proof -
  obtain t where t: "marshal_time (ev_CreatedAt e) = Some t" using marshal_time_valid assms(2) by blast
  let ?kvs = "[(''version'', show_int (ev_Version e)), (''message_id'', quote (ev_MessageID e)),
    (''client_message_id'', quote (ev_ClientMessageID e)), (''room_id'', quote (ev_RoomID e)),
    (''room_seq'', show_int (ev_RoomSeq e)), (''created_at'', t), (''payload'', p)]"
  have s: "s = object_text ?kvs" using assms(1,8) t by (simp add: marshal_Event_def object_text_def)
  have "unmarshal_Event s = decode_Event ?kvs"
    unfolding unmarshal_Event_def s
    by (rule unmarshal_struct) (use assms(9,10) marshal_time_token [OF t] in \<open>simp add: token_string token_int\<close>)
  then show ?thesis
    by (simp add: decode_Event_def field_def Event_field_values decode_string_quote decode_int_show
        marshal_time_decode [OF t] decode_raw_def assms)
qed

subsection \<open>The envelope\<close>

lemma Envelope_field_values:
  "field_values ''Key'' [(''Key'', a), (''Value'', b), (''Headers'', c), (''Timestamp'', d)] = [a]"
  "field_values ''Value'' [(''Key'', a), (''Value'', b), (''Headers'', c), (''Timestamp'', d)] = [b]"
  "field_values ''Headers'' [(''Key'', a), (''Value'', b), (''Headers'', c), (''Timestamp'', d)] = [c]"
  "field_values ''Timestamp'' [(''Key'', a), (''Value'', b), (''Headers'', c), (''Timestamp'', d)] = [d]"
  by code_simp+

lemma token_null: "token_at d ''null''"
  by (simp add: token_at_def vend_def is_ws_def is_digit_def scan_lit_def HasPrefix_def)

lemma marshal_bytes_token: "token_at d (marshal_bytes b)"
  by (simp add: marshal_bytes_def token_null token_string split: option.split)

lemma b64_utf8: "utf8_valid (b64_encode x)"
  by (rule utf8_valid_ascii) (use b64_encode_plain in blast)

lemma decode_bytes_marshal: "decode_bytes old (marshal_bytes b) = Some b"
proof (cases b)
  case None
  then show ?thesis by (simp add: marshal_bytes_def decode_bytes_def is_null_def)
next
  case (Some x)
  then show ?thesis
    by (simp add: marshal_bytes_def decode_bytes_def quote_def unquote_quote_body [OF b64_utf8] b64_decode_encode)
qed

definition sort_headers :: "(string \<times> string) list \<Rightarrow> (string \<times> string) list" where
  "sort_headers ms = sort_by (\<lambda>a b. bytes_le (fst a) (fst b)) ms"

lemma marshal_headers_text:
  "marshal_headers (Some ms) = object_text (map (\<lambda>(k, v). (k, quote v)) (sort_headers ms))"
  by (auto simp: marshal_headers_def object_text_def sort_headers_def intro!: arg_cong [of _ _ object])

lemma marshal_headers_token: "token_at (Suc d) (marshal_headers hs)"
proof (cases hs)
  case None
  then show ?thesis by (simp add: marshal_headers_def token_null)
next
  case (Some ms)
  have "token_at (Suc d) (object_text (map (\<lambda>(k, v). (k, quote v)) (sort_headers ms)))"
    by (rule token_object) (auto simp: token_string)
  then show ?thesis by (simp add: Some marshal_headers_text)
qed

lemma update_fresh: "k \<notin> fst ` set xs \<Longrightarrow> AList.update k v xs = xs @ [(k, v)]"
  by (induction xs) auto

lemma decode_headers_from_quoted:
  "\<lbrakk>distinct (map fst (acc @ ms)); \<forall>(k, v) \<in> set ms. utf8_valid v\<rbrakk> \<Longrightarrow>
     decode_headers_from acc (map (\<lambda>(k, v). (k, quote v)) ms) = Some (acc @ ms)"
proof (induction ms arbitrary: acc)
  case (Cons kv ms)
  obtain k v where kv: "kv = (k, v)" by fastforce
  have "k \<notin> fst ` set acc" "distinct (map fst ((acc @ [kv]) @ ms))" using Cons.prems kv by auto
  with Cons.IH [of "acc @ [kv]"] Cons.prems kv show ?case
    by (simp add: decode_string_quote update_fresh)
qed simp

lemma decode_headers_marshal:
  assumes "case hs of None \<Rightarrow> True | Some ms \<Rightarrow> distinct (map fst ms) \<and> (\<forall>(k, v) \<in> set ms. utf8_valid k \<and> utf8_valid v)"
  shows "decode_headers None (marshal_headers hs) = Some (map_option sort_headers hs)"
proof (cases hs)
  case None
  have "parse_document ''null'' = Some Null" by code_simp
  with None show ?thesis by (simp add: marshal_headers_def decode_headers_def)
next
  case (Some ms)
  let ?kvs = "map (\<lambda>(k, v). (k, quote v)) (sort_headers ms)"
  have set: "set (sort_headers ms) = set ms" and dist: "distinct (map fst (sort_headers ms))"
    using assms Some by (simp_all add: sort_headers_def)
  have "\<forall>kv \<in> set (sort_headers ms). unquote (quote_body (fst kv)) = fst kv"
    using assms Some set unquote_quote_body by auto
  then have keys: "map (\<lambda>(k, v). (unquote (quote_body k), v)) ?kvs = ?kvs" by (auto simp: case_prod_beta)
  have "parse_document (object_text ?kvs) = Some (Object (map (\<lambda>(k, v). (unquote (quote_body k), v)) ?kvs))"
    by (rule parse_object) (auto simp: token_string)
  then have "parse_document (object_text ?kvs) = Some (Object ?kvs)" unfolding keys .
  moreover have "decode_headers_from [] ?kvs = Some (sort_headers ms)"
    using decode_headers_from_quoted [of "[]" "sort_headers ms"] dist assms Some set by auto
  ultimately show ?thesis by (simp add: Some marshal_headers_text decode_headers_def)
qed

definition envelope_ok :: "Message \<Rightarrow> bool" where
  "envelope_ok m \<longleftrightarrow> valid_time (em_Timestamp m) \<and>
     (case em_Headers m of None \<Rightarrow> True
      | Some ms \<Rightarrow> distinct (map fst ms) \<and> (\<forall>(k, v) \<in> set ms. utf8_valid k \<and> utf8_valid v))"

lemma envelope_read_back:
  assumes "envelope_ok m"
  obtains s where "marshal_Message m = Some s"
    and "unmarshal_redisMessage s = Some (m\<lparr>em_Headers := map_option sort_headers (em_Headers m)\<rparr>)"
proof -
  obtain t where t: "marshal_time (em_Timestamp m) = Some t" using marshal_time_valid assms by (auto simp: envelope_ok_def)
  let ?kvs = "[(''Key'', marshal_bytes (em_Key m)), (''Value'', marshal_bytes (em_Value m)),
    (''Headers'', marshal_headers (em_Headers m)), (''Timestamp'', t)]"
  have s: "marshal_Message m = Some (object_text ?kvs)" using t by (simp add: marshal_Message_def object_text_def)
  obtain d where d: "max_nesting - 1 = Suc d" by (simp add: max_nesting_def)
  then have d2: "max_nesting = Suc (Suc d)" by simp
  have "unmarshal_redisMessage (object_text ?kvs) = decode_Message ?kvs"
    unfolding unmarshal_redisMessage_def
    by (rule unmarshal_struct)
      (use marshal_time_token [OF t] in \<open>simp add: marshal_bytes_token d marshal_headers_token d2\<close>)
  also have "\<dots> = Some (m\<lparr>em_Headers := map_option sort_headers (em_Headers m)\<rparr>)"
    using assms unfolding envelope_ok_def
    by (simp add: decode_Message_def field_def Envelope_field_values decode_bytes_marshal decode_headers_marshal
        marshal_time_decode [OF t])
  finally show thesis using that s by blast
qed

end
