(* ===== verification/Ws_Props.thy ===== *)
theory Ws_Props
  imports Keep_Alive Message_Props Wire_Roundtrip
begin

text \<open>
  The properties of a message service instance: its hub, its answers, its buffers under every
  interleaving, its presence, and its subscription.
\<close>

subsection \<open>A hub with one client\<close>

definition alice_conn :: "conn \<Rightarrow> ClientConnection" where
  "alice_conn p = NewClientConnection ''alice'' p"

definition alice_hub :: hub where
  "alice_hub = snd (Register [''general''] (Some (alice_conn 1)) NewHub)"

lemma alice_hub_rooms: "alice_hub = \<lparr>hub_rooms = [(''general'', [(''alice'', 1)])], hub_send = (\<lambda>_. [])\<rparr>"
  by (simp add: alice_hub_def alice_conn_def Register_def NewHub_def join_room_def newRoom_def addClient_def
      NewClientConnection_def)

lemma alice_hub_inv: "hub_inv alice_hub" "hub_owned (\<lambda>_. ''alice'') alice_hub"
  by (auto simp: alice_hub_rooms hub_inv_def hub_owned_def hub_view_def split: if_splits)

lemma hub_inv_NewHub: "hub_inv NewHub"
  by (simp add: NewHub_def hub_inv_def)

subsection \<open>The hub\<close>

text \<open>C16: the hub implements a map from rooms and clients to connections: registering a connection sets it
  for its client in the given rooms and in no other, unregistering removes the client everywhere, and
  both keep the invariant that no room is empty and nothing is stored twice.\<close>

theorem hub_refines_map:
  assumes "hub_inv h"
  shows "hub_view (snd (Register rs (Some conn) h)) =
      (\<lambda>r c. if r \<in> set rs \<and> c = cc_ClientID conn then Some (cc_Ptr conn) else hub_view h r c) \<and>
    hub_view (snd (Unregister cl h)) = (\<lambda>r c. if c = cl then None else hub_view h r c) \<and>
    hub_inv (snd (Register rs (Some conn) h)) \<and> hub_inv (snd (Unregister cl h))"
proof -
  have "distinct (map fst (hub_rooms h))" using assms by (simp add: hub_inv_def)
  then show ?thesis
    using Register_inv [OF assms, of rs "Some conn"] Unregister_inv [OF assms, of cl]
    by (simp add: Register_def Unregister_def hub_view_rooms fold_join_view leave_rooms_view fun_eq_iff)
qed

theorem hub_refines_map_witness:
  "hub_view (snd (Register [''general'', ''random''] (Some (alice_conn 7)) NewHub)) ''random'' ''alice'' = Some 7 \<and>
    hub_view (snd (Unregister ''alice'' alice_hub)) ''general'' ''alice'' = None"
  using hub_refines_map [OF hub_inv_NewHub, of "[''general'', ''random'']" "alice_conn 7" "''bob''"]
    hub_refines_map [OF alice_hub_inv(1), of "[]" "alice_conn 1" "''alice''"]
  by (simp add: alice_conn_def NewClientConnection_def)

text \<open>Dispatching a valid event to a room with clients, none of which has a full buffer, succeeds and
  appends the event's JSON text to the buffer of every connection of the room, once, and to no other.\<close>

lemma dispatch_reaches_room:
  assumes "hub_inv h" and "hub_owned own h" and "Event_Validate m = None" and "marshal_Event m = Some body"
    and "room_conns h (ev_RoomID m) \<noteq> {}"
    and "\<forall>p \<in> room_conns h (ev_RoomID m). length (hub_send h p) < sendCap" and "\<forall>n. \<not> stop n"
  shows "fst (Dispatch stop m h) = None \<and> hub_view (snd (Dispatch stop m h)) = hub_view h \<and>
    (\<forall>p. hub_send (snd (Dispatch stop m h)) p =
      (if p \<in> room_conns h (ev_RoomID m) then hub_send h p @ [body] else hub_send h p))"
proof -
  obtain cs where cs: "map_of (hub_rooms h) (ev_RoomID m) = Some cs"
    using assms(5) by (auto simp: room_conns_def hub_view_def split: option.splits)
  note d = owned_distinct [OF assms(1,2) cs]
  have "fst (send_clients stop 0 body cs (hub_send h)) = None"
    using assms(6,7) d(1) unfolding d(2) [symmetric] by (intro send_clients_ok)
  then have ok: "fst (Dispatch stop m h) = None"
    using assms(3,4) cs by (auto simp: Dispatch_def split: prod.splits)
  have "\<exists>body. marshal_Event m = Some body \<and> Event_Validate m = None \<and>
    (\<forall>p. hub_send (snd (Dispatch stop m h)) p = (if p \<in> room_conns h (ev_RoomID m) then hub_send h p @ [body] else hub_send h p))"
    using hub.dispatch_delivers [of stop m h "snd (Dispatch stop m h)" own] ok assms(1,2) by (metis prod.collapse)
  with assms(4) ok show ?thesis by (auto simp: hub_view_rooms)
qed

theorem dispatch_reaches_room_witness:
  "hub_send (snd (Dispatch (\<lambda>_. False) sample_event alice_hub)) 1 = [sample_text] \<and>
    hub_send (snd (Dispatch (\<lambda>_. False) sample_event alice_hub)) 2 = []"
proof -
  have "room_conns alice_hub ''general'' = {1}" by (auto simp: room_conns_def hub_view_def alice_hub_rooms split: if_splits)
  moreover have "ev_RoomID sample_event = ''general''" by (simp add: sample_event_def)
  ultimately show ?thesis
    using dispatch_reaches_room [OF alice_hub_inv sample_valid(3) sample_marshal, of "\<lambda>_. False"]
    by (simp add: alice_hub_rooms sendCap_def)
qed

subsection \<open>Answers\<close>

lemma ingest_spec:
  assumes "wf_env env" and "SendRequest_Validate request = None" and "ingest env c request w = (res, w')"
  shows "accept_spec (mw_db w) c request res (mw_db w') \<and> w' = w\<lparr>mw_db := mw_db w'\<rparr>"
proof (cases "blank c")
  case True
  with assms(3) show ?thesis by (auto simp: ingest_def HandleIncoming_def intro: accept_spec.reject)
next
  case False
  obtain r db where "Accept env (mw_db w) c request = (r, db)" by fastforce
  with Accept_refines [OF assms(1), of "mw_db w" c request] assms(2,3) False show ?thesis
    by (auto simp: ingest_def HandleIncoming_def)
qed

lemma lost_or_unchanged:
  assumes "accept_spec db c request (Inl e) db'"
  shows "db' = db \<or> (\<exists>m r. fresh_rows db c request m r \<and> db' = committed db (req_RoomID request) m r)"
  using assms by (cases rule: accept_spec.cases) auto

lemma invalid_ack_unchanged:
  assumes "accept_spec db c request (Inr ev) db'" and "AcceptedAck_Validate (ack_of ev) \<noteq> None"
  shows "db' = db"
  using assms ack_of_valid by (cases rule: accept_spec_InrE) (auto simp: event_matches_def)

text \<open>What an answer says about the store before and after.\<close>

definition answer_true :: "string \<Rightarrow> bytes \<Rightarrow> frame \<Rightarrow> ms_world \<Rightarrow> ms_world \<Rightarrow> bool" where
  "answer_true c data f w w' =
     (case f of
        Accepted a \<Rightarrow> AcceptedAck_Validate a = None \<and> (\<exists>m \<in> set (messages (mw_db w')). m_client_id m = c \<and>
          ack_MessageID a = uuid_text (m_message_id m) \<and> ack_ClientMessageID a = m_client_message_id m \<and>
          ack_RoomID a = m_room_id m \<and> ack_RoomSeq a = m_room_seq m)
      | Rejected r \<Rightarrow> RejectedAck_Validate r = None \<and>
          (w' = w \<or> rej_ErrorCode r = NotAcceptedErrorCode \<and> (\<exists>request m row. unmarshal_SendRequest data = Some request \<and>
            fresh_rows (mw_db w) c request m row \<and> w' = w\<lparr>mw_db := committed (mw_db w) (req_RoomID request) m row\<rparr>)))"

lemma rejected_true: "e = InvalidRequestErrorCode \<or> e = NotAcceptedErrorCode \<Longrightarrow> answer_true c data (Rejected (rejection cm e)) w w"
  by (simp add: answer_true_def rejection_valid)

lemma answer_is_true:
  assumes "wf_env env" and "answer (ms_service env) data c w = (f, w')"
  shows "answer_true c data f w w'"
proof (cases "\<exists>request. unmarshal_SendRequest data = Some request \<and> SendRequest_Validate request = None")
  case False
  with assms(2) show ?thesis by (auto simp: answer_def rejected_true split: option.splits if_splits)
next
  case True
  then obtain request where r: "unmarshal_SendRequest data = Some request" "SendRequest_Validate request = None" by blast
  obtain res w2 where i: "ingest env c request w = (res, w2)" by fastforce
  note spec = ingest_spec [OF assms(1) r(2) i]
  have w2: "w' = w2" using assms(2) r i by (cases res) (auto simp: answer_def ms_service_def)
  show ?thesis
  proof (cases res)
    case (Inl e)
    then have f: "f = Rejected (rejection (req_ClientMessageID request) NotAcceptedErrorCode)"
      using assms(2) r i by (simp add: answer_def ms_service_def)
    have "w' = w \<or> (\<exists>m row. fresh_rows (mw_db w) c request m row \<and> w' = w\<lparr>mw_db := committed (mw_db w) (req_RoomID request) m row\<rparr>)"
      using lost_or_unchanged spec Inl w2 by (metis ms_world.surjective ms_world.update_convs(1))
    with f r show ?thesis by (simp add: answer_true_def rejection_valid) (auto simp: rejection_def)
  next
    case (Inr ev)
    show ?thesis
    proof (cases "AcceptedAck_Validate (ack_of ev) = None")
      case True
      then have "f = Accepted (ack_of ev)" using assms(2) r i Inr by (simp add: answer_def ms_service_def)
      with True accept_spec_Inr_row spec Inr w2 show ?thesis by (fastforce simp: answer_true_def ack_of_def same_key_def)
    next
      case False
      then have "f = Rejected (rejection (req_ClientMessageID request) NotAcceptedErrorCode)"
        using assms(2) r i Inr by (auto simp: answer_def ms_service_def)
      moreover have "w' = w" using invalid_ack_unchanged spec Inr False w2
        by (metis ms_world.surjective ms_world.update_convs(1))
      ultimately show ?thesis by (simp add: rejected_true)
    qed
  qed
qed

text \<open>C14: a message from a client whose buffer has room is answered with exactly one frame, which goes to that
  client only. An accepted frame names a message of this client that is stored, with its room and number; a
  rejected frame means that nothing was stored, or that the store reported a commit as failed whose rows
  were stored. (A frame whose date has no JSON text is the one case without an answer.)\<close>

theorem one_answer_per_message:
  assumes "wf_env env" and "length (hub_send h (cc_Ptr client)) < sendCap"
    and "handleMessage (ms_service env) False data c client h w = (e, h', w')"
  shows "\<exists>f. (case marshal_frame f of Some s \<Rightarrow> e = None \<and> h' = append_send (cc_Ptr client) s h
      | None \<Rightarrow> e = Some FrameMarshalFailed \<and> h' = h) \<and>
    (case f of
      Accepted a \<Rightarrow> AcceptedAck_Validate a = None \<and> (\<exists>m \<in> set (messages (mw_db w')). m_client_id m = c \<and>
        ack_MessageID a = uuid_text (m_message_id m) \<and> ack_ClientMessageID a = m_client_message_id m \<and>
        ack_RoomID a = m_room_id m \<and> ack_RoomSeq a = m_room_seq m)
    | Rejected r \<Rightarrow> RejectedAck_Validate r = None \<and>
        (w' = w \<or> rej_ErrorCode r = NotAcceptedErrorCode \<and> (\<exists>request m row. unmarshal_SendRequest data = Some request \<and>
          fresh_rows (mw_db w) c request m row \<and> w' = w\<lparr>mw_db := committed (mw_db w) (req_RoomID request) m row\<rparr>)))"
proof -
  obtain f where a: "answer (ms_service env) data c w = (f, w')" and q: "enqueue False client f h = (e, h')"
    using assms(3) by (auto simp: handleMessage_answer split: prod.splits)
  have "case marshal_frame f of Some s \<Rightarrow> e = None \<and> h' = append_send (cc_Ptr client) s h
      | None \<Rightarrow> e = Some FrameMarshalFailed \<and> h' = h"
    using q assms(2) by (auto simp: enqueue_def append_send_def split: option.splits)
  with answer_is_true [OF assms(1) a] show ?thesis unfolding answer_true_def by blast
qed

text \<open>A frame of a client.\<close>

definition sample_frame :: bytes where
  "sample_frame = object [member ''type'' (quote ''send''), member ''version'' (show_int 1),
     member ''client_message_id'' (quote ''k1''), member ''room_id'' (quote ''general''), member ''payload'' ''{}'']"

definition sample_ms :: ms_world where
  "sample_ms = \<lparr>mw_db = empty_db, mw_redis = empty_redis []\<rparr>"

lemma SendRequest_field_values:
  "field_values ''type'' [(''type'', a), (''version'', b), (''client_message_id'', c), (''room_id'', d), (''payload'', e)] = [a]"
  "field_values ''version'' [(''type'', a), (''version'', b), (''client_message_id'', c), (''room_id'', d), (''payload'', e)] = [b]"
  "field_values ''client_message_id'' [(''type'', a), (''version'', b), (''client_message_id'', c), (''room_id'', d), (''payload'', e)] = [c]"
  "field_values ''room_id'' [(''type'', a), (''version'', b), (''client_message_id'', c), (''room_id'', d), (''payload'', e)] = [d]"
  "field_values ''payload'' [(''type'', a), (''version'', b), (''client_message_id'', c), (''room_id'', d), (''payload'', e)] = [e]"
  by code_simp+

lemma token_empty_object: "token_at (Suc d) ''{}''"
  using token_object [of "[]" d] by (simp add: object_text_def object_def)

lemma sample_frame_request: "unmarshal_SendRequest sample_frame = Some sample_request"
proof -
  let ?kvs = "[(''type'', quote ''send''), (''version'', show_int 1), (''client_message_id'', quote ''k1''),
    (''room_id'', quote ''general''), (''payload'', ''{}'')]"
  obtain d where d: "max_nesting - 1 = Suc d" by (simp add: max_nesting_def)
  then have d2: "max_nesting = Suc (Suc d)" by simp
  have "unmarshal_SendRequest (object_text ?kvs) = decode_SendRequest ?kvs"
    unfolding unmarshal_SendRequest_def
    by (rule unmarshal_struct) (simp add: token_string token_int d d2 token_empty_object)
  moreover have "sample_frame = object_text ?kvs" by (simp add: sample_frame_def object_text_def)
  moreover have "utf8_valid ''send''" "utf8_valid ''k1''" "utf8_valid ''general''" by (simp_all add: utf8_valid_ascii)
  moreover have "in_int64 1" by (simp add: in_int64_def)
  ultimately show ?thesis
    by (simp add: decode_SendRequest_def field_def SendRequest_field_values decode_string_quote decode_int_show
        decode_raw_def sample_request_def)
qed

lemma sample_frame_handled:
  "\<exists>h'. handleMessage (ms_service sample_env) False sample_frame ''alice'' (alice_conn 1) alice_hub sample_ms
     = (None, h', sample_ms\<lparr>mw_db := sample_db\<rparr>)"
proof -
  have "answer (ms_service sample_env) sample_frame ''alice'' sample_ms
      = (Accepted (ack_of sample_event), sample_ms\<lparr>mw_db := sample_db\<rparr>)"
    using sample_valid ack_of_valid [OF sample_valid(3)] sample_accept
    by (simp add: answer_def sample_frame_request ms_service_def ingest_def HandleIncoming_def sample_ms_def)
  moreover have "\<exists>s. marshal_AcceptedAck (ack_of sample_event) = Some s"
    by (simp add: marshal_AcceptedAck_def ack_of_def sample_event_def marshal_time_def sample_time_def)
  ultimately show ?thesis
    by (auto simp: handleMessage_answer enqueue_def alice_hub_rooms sendCap_def alice_conn_def NewClientConnection_def)
qed

theorem one_answer_per_message_witness:
  "\<exists>s h'. handleMessage (ms_service sample_env) False sample_frame ''alice'' (alice_conn 1) alice_hub sample_ms
     = (None, h', sample_ms\<lparr>mw_db := sample_db\<rparr>) \<and> h' = append_send 1 s alice_hub"
proof -
  obtain h' where h: "handleMessage (ms_service sample_env) False sample_frame ''alice'' (alice_conn 1) alice_hub sample_ms
     = (None, h', sample_ms\<lparr>mw_db := sample_db\<rparr>)" using sample_frame_handled by blast
  have "length (hub_send alice_hub (cc_Ptr (alice_conn 1))) < sendCap" by (simp add: alice_hub_rooms sendCap_def)
  from one_answer_per_message [OF sample_wf this h] have "\<exists>s. h' = append_send 1 s alice_hub"
    by (auto simp: alice_conn_def NewClientConnection_def split: option.splits)
  with h show ?thesis by blast
qed

subsection \<open>The instance under every interleaving\<close>

text \<open>C13: in every state an instance can reach, no buffer holds more than 256 frames, every connection the hub
  knows is open and belongs to the client it is stored under, and for every connection whose write pump has
  not failed the frames written so far, followed by those in the buffer, are exactly the frames put into
  it, in order.\<close>

theorem instance_buffers_fifo:
  assumes "inst_reachable dial w0 s"
  shows "(\<forall>p. length (hub_send (in_hub s) p) \<le> 256) \<and>
    (\<forall>r c p. hub_view (in_hub s) r c = Some p \<longrightarrow> in_owner s p = Some c \<and> p \<in> in_open s) \<and>
    (\<forall>p. p \<notin> in_broken s \<longrightarrow> in_log s p = in_wire s p @ hub_send (in_hub s) p)"
  using inst_reachable_inv [OF assms] by (simp add: inst_inv_def sendCap_def)

text \<open>A run: a client connects, an event of its room arrives and is put into its buffer.\<close>

definition sample_query :: "(string \<times> string list) list" where
  "sample_query = [(''client_id'', [''alice'']), (''room_ids'', [''general,random''])]"

definition inst0 :: inst where
  "inst0 = \<lparr>in_st = \<lparr>st_hub = NewHub, st_world = sample_ms, st_closed = {}\<rparr>, in_open = {},
     in_owner = (\<lambda>_. None), in_wire = (\<lambda>_. []), in_broken = {}, in_log = (\<lambda>_. []), in_pending = None, in_stopped = False\<rparr>"

lemma sample_params: "getParams sample_query = Inr (''alice'', [''general'', ''random''])"
  by code_simp

lemma sample_opened:
  "\<exists>s. inst_step ''ws1'' inst0 s \<and> in_hub s = snd (Register [''general'', ''random''] (Some (alice_conn 1)) NewHub) \<and>
     in_pending s = None \<and> in_open s = {1} \<and> in_owner s 1 = Some ''alice'' \<and> in_broken s = {}"
proof -
  let ?req = "\<lparr>cr_RoomsId = [''general'', ''random''], cr_InstanceName = ''ws1'', cr_ClientId = ''alice''\<rparr>"
  obtain rw where c: "Connect store_api ?req (empty_redis []) = (None, rw)"
    using sample_connect_ok by (auto simp: sample_connect_def)
  have "configureConnection (ms_service sample_env) ''ws1'' True 1 ''alice'' [''general'', ''random''] (in_st inst0)
      = (None, (in_st inst0)\<lparr>st_world := sample_ms\<lparr>mw_redis := rw\<rparr>\<rparr>)"
    using c by (simp add: configureConnection_def ms_service_def rpc_def inst0_def sample_ms_def)
  moreover obtain h where h: "Register [''general'', ''random''] (Some (NewClientConnection ''alice'' 1)) NewHub = (None, h)"
    by (simp add: Register_def)
  moreover have "in_owner inst0 1 = None" "in_pending inst0 = None" by (simp_all add: inst0_def)
  ultimately have "inst_step ''ws1'' inst0 (inst0\<lparr>in_st := ((in_st inst0)\<lparr>st_world := sample_ms\<lparr>mw_redis := rw\<rparr>\<rparr>)\<lparr>st_hub := h\<rparr>,
      in_open := insert 1 (in_open inst0), in_owner := (in_owner inst0)(1 \<mapsto> ''alice'')\<rparr>)"
    using sample_params by (intro Opened) (auto simp: inst0_def)
  with h show ?thesis by (intro exI conjI) (auto simp: inst0_def alice_conn_def)
qed

theorem instance_buffers_fifo_witness:
  "\<exists>s. inst_reachable ''ws1'' sample_ms s \<and> in_open s = {1} \<and> length (hub_send (in_hub s) 1) \<le> 256"
proof -
  obtain s where s: "inst_step ''ws1'' inst0 s" "in_open s = {1}" using sample_opened by blast
  have "inst_reachable ''ws1'' sample_ms s"
    using inst_reachable.Step [OF inst_reachable.Start] s(1) unfolding inst0_def by blast
  with instance_buffers_fifo [OF this] s(2) show ?thesis by blast
qed

text \<open>C15: one client that is not read from stops its whole instance until its context is cancelled. When
  \<open>Dispatch\<close> would block at a connection whose write pump has ended, the instance gets into a state
  in which the dispatch waits at that connection with its buffer full. From such a state, and as long as
  the context is not cancelled, however the goroutines go on: the dispatch is still waiting there and so
  holds the hub's lock, no connection is opened or closed, and the rooms stay as they are. Once the
  context is cancelled the dispatch can be given up.\<close>

theorem stuck_client_blocks_instance:
  assumes "inst_reachable dial w0 s" and "p \<in> in_broken s"
  shows "(in_pending s = None \<and> decode_payload payload = Inr event \<and>
      Dispatch (\<lambda>_. False) event (in_hub s) = (Some (SendBlocked p), h) \<longrightarrow>
      (\<exists>s1. inst_steps dial s s1 \<and> in_hub s1 = h \<and> stuck_at p s1)) \<and>
    (stuck_at p s \<and> inst_steps dial s s' \<longrightarrow>
      (if in_stopped s' then stuck_at p s' \<longrightarrow> inst_step dial s' (s'\<lparr>in_pending := None\<rparr>)
       else stuck_at p s' \<and> in_open s' = in_open s \<and> hub_view (in_hub s') = hub_view (in_hub s)))"
proof -
  have inv: "inst_inv s" by (rule inst_reachable_inv [OF assms(1)])
  have "inst_step dial s' (s'\<lparr>in_pending := None\<rparr>)" if "in_stopped s'" "stuck_at p s'"
  proof -
    from that(2) obtain body i cs where "in_pending s' = Some (body, cs)" "(i, p) \<in> set cs" by (auto simp: stuck_at_def)
    then show ?thesis using that(1) by (intro Abandoned) auto
  qed
  then show ?thesis
    using Dispatch_stuck [of payload event s p h dial] stuck_steps [of dial s s' p] inv assms(2)
    by (auto simp: hub_view_rooms)
qed

text \<open>A run into that state: the client sends bad frames until its buffer is full, its write pump fails, and an
  event of its room arrives.\<close>

lemma bad_frame: "unmarshal_SendRequest ''x'' = None"
  by code_simp

text \<open>A state of the instance in which connection 1 is open and its buffer holds \<open>n\<close> frames.\<close>

definition filled :: "nat \<Rightarrow> bool \<Rightarrow> inst \<Rightarrow> bool" where
  "filled n broken s \<longleftrightarrow> inst_reachable ''ws1'' sample_ms s \<and> 1 \<in> in_open s \<and> in_owner s 1 = Some ''alice'' \<and>
     in_pending s = None \<and> length (hub_send (in_hub s) 1) = n \<and> (1 \<in> in_broken s \<longleftrightarrow> broken) \<and>
     map_of (hub_rooms (in_hub s)) ''general'' = Some [(''alice'', 1)]"

lemma filled_open: "\<exists>s. filled 0 False s"
proof -
  let ?req = "\<lparr>cr_RoomsId = [''general'', ''random''], cr_InstanceName = ''ws1'', cr_ClientId = ''alice''\<rparr>"
  obtain s where s: "inst_step ''ws1'' inst0 s" "in_open s = {1}" "in_owner s 1 = Some ''alice''" "in_pending s = None"
    "in_hub s = snd (Register [''general'', ''random''] (Some (alice_conn 1)) NewHub)" "in_broken s = {}"
    using sample_opened by blast
  have "inst_reachable ''ws1'' sample_ms s"
    using inst_reachable.Step [OF inst_reachable.Start] s(1) unfolding inst0_def by blast
  with s show ?thesis
    by (intro exI [of _ s])
      (simp add: filled_def Register_def NewHub_def join_room_def newRoom_def addClient_def alice_conn_def NewClientConnection_def)
qed

lemma filled_frame: "\<lbrakk>filled n b s; n < sendCap\<rbrakk> \<Longrightarrow> \<exists>s'. filled (Suc n) b s'"
proof -
  assume f: "filled n b s" and n: "n < sendCap"
  let ?h = "in_hub s" and ?client = "NewClientConnection ''alice'' 1" and ?r = "Rejected (rejection [] InvalidRequestErrorCode)"
  obtain t where "marshal_frame ?r = Some t" by (simp add: marshal_RejectedAck_def)
  then have e: "enqueue False ?client ?r ?h = (None, append_send 1 t ?h)"
    using f n by (simp add: enqueue_def filled_def append_send_def NewClientConnection_def)
  have "handleMessage (ms_service sample_env) False ''x'' ''alice'' ?client ?h (st_world (in_st s))
      = (None, append_send 1 t ?h, st_world (in_st s))"
    using e by (simp add: handleMessage_answer answer_def bad_frame)
  then have "inst_step ''ws1'' s (with_world (st_world (in_st s)) (with_hub (append_send 1 t ?h) s))"
    using f by (intro FrameRead [of 1 s "''alice''"]) (auto simp: filled_def)
  then show ?thesis
    using f by (intro exI [of _ "with_world (st_world (in_st s)) (with_hub (append_send 1 t ?h) s)"])
      (auto simp: filled_def with_world_def with_hub_def append_send_def intro: inst_reachable.Step)
qed

lemma filled_up: "\<lbrakk>filled n b s; n \<le> k; k \<le> sendCap\<rbrakk> \<Longrightarrow> \<exists>s'. filled k b s'"
proof (induction k)
  case (Suc k)
  show ?case
  proof (cases "n = Suc k")
    case False
    with Suc obtain s' where "filled k b s'" by auto
    then show ?thesis using filled_frame Suc.prems(3) by (simp add: Suc_le_eq)
  qed (use Suc.prems in blast)
qed auto

lemma filled_break: "filled (Suc n) False s \<Longrightarrow> \<exists>s'. filled n True s'"
proof -
  assume f: "filled (Suc n) False s"
  obtain m ms where q: "hub_send (in_hub s) 1 = m # ms" "length ms = n"
    using f by (auto simp: filled_def length_Suc_conv)
  let ?h = "(in_hub s)\<lparr>hub_send := (hub_send (in_hub s))(1 := ms)\<rparr>"
  have p: "pump_step False 1 (in_hub s) = ([], False, ?h)" using q by (simp add: pump_step_def)
  have "inst_step ''ws1'' s (s\<lparr>in_st := (in_st s)\<lparr>st_hub := ?h\<rparr>, in_wire := (in_wire s)(1 := in_wire s 1 @ []),
      in_broken := (if False then in_broken s else insert 1 (in_broken s))\<rparr>)"
    using f by (intro Pumped [OF _ _ p]) (auto simp: filled_def)
  then have "inst_reachable ''ws1'' sample_ms (s\<lparr>in_st := (in_st s)\<lparr>st_hub := ?h\<rparr>, in_wire := (in_wire s)(1 := in_wire s 1 @ []),
      in_broken := (if False then in_broken s else insert 1 (in_broken s))\<rparr>)"
    using f inst_reachable.Step unfolding filled_def by blast
  with f q show ?thesis by (intro exI) (auto simp: filled_def)
qed

definition sample_envelope :: Message where
  "sample_envelope = \<lparr>em_Key = Some ''general'', em_Value = Some sample_text, em_Headers = None, em_Timestamp = sample_time\<rparr>"

lemma sample_payload: "\<exists>payload. marshal_Message sample_envelope = Some payload \<and> decode_payload payload = Inr sample_event"
proof -
  have "envelope_ok sample_envelope"
    by (simp add: envelope_ok_def sample_envelope_def valid_time_def sample_time_def days_in_month_def)
  then obtain s where s: "marshal_Message sample_envelope = Some s"
    "unmarshal_redisMessage s = Some (sample_envelope\<lparr>em_Headers := map_option sort_headers (em_Headers sample_envelope)\<rparr>)"
    by (rule envelope_read_back)
  moreover have "ev_RoomID sample_event = ''general''" by (simp add: sample_event_def)
  ultimately show ?thesis by (simp add: decode_payload_def sample_envelope_def slice_def sample_unmarshal)
qed

lemma sample_full: "\<exists>s. filled 256 True s"
proof -
  obtain s0 where "filled 0 False s0" using filled_open by blast
  then obtain s1 where "filled (Suc 0) False s1" using filled_frame [of 0 False s0] by (auto simp: sendCap_def)
  then obtain s2 where "filled 0 True s2" using filled_break by blast
  then show ?thesis using filled_up [of 0 True s2 256] by (auto simp: sendCap_def)
qed

lemma sample_blocks: "filled 256 True s \<Longrightarrow> Dispatch (\<lambda>_. False) sample_event (in_hub s) = (Some (SendBlocked 1), in_hub s)"
  using sample_valid sample_marshal by (simp add: filled_def Dispatch_def) (simp add: sample_event_def sendCap_def)

lemma inst_steps_reachable: "\<lbrakk>inst_steps dial s s'; inst_reachable dial w0 s\<rbrakk> \<Longrightarrow> inst_reachable dial w0 s'"
  by (induction rule: rtranclp_induct) (auto intro: inst_reachable.Step)

theorem stuck_client_blocks_instance_witness:
  "\<exists>s. inst_reachable ''ws1'' sample_ms s \<and> stuck_at 1 s \<and>
    (\<forall>s'. inst_steps ''ws1'' s s' \<and> \<not> in_stopped s' \<longrightarrow> in_open s' = in_open s \<and> stuck_at 1 s')"
proof -
  obtain s where s: "filled 256 True s" using sample_full by blast
  then have r: "inst_reachable ''ws1'' sample_ms s" "1 \<in> in_broken s" "in_pending s = None" by (simp_all add: filled_def)
  obtain payload where p: "decode_payload payload = Inr sample_event" using sample_payload by blast
  obtain s1 where s1: "inst_steps ''ws1'' s s1" "stuck_at 1 s1"
    using stuck_client_blocks_instance [OF r(1,2), of payload sample_event "in_hub s"] r(3) p sample_blocks [OF s] by blast
  have r1: "inst_reachable ''ws1'' sample_ms s1" "1 \<in> in_broken s1"
    using inst_steps_reachable [OF s1(1) r(1)] s1(2) by (simp_all add: stuck_at_def)
  have "in_open s' = in_open s1 \<and> stuck_at 1 s'" if "inst_steps ''ws1'' s1 s' \<and> \<not> in_stopped s'" for s'
    using stuck_client_blocks_instance [OF r1, of payload sample_event "in_hub s" s'] s1(2) that by simp
  then show ?thesis using r1(1) s1(2) by blast
qed

subsection \<open>Disconnecting\<close>

text \<open>C21: when a client reconnects before its old connection is torn down, the teardown of the old connection
  takes the new one out of the hub: the new connection stays open and no event reaches it any more.\<close>

theorem stale_disconnect_removes_new:
  assumes "hub_inv h" and "hub_owned own h" and "own new = c" and "\<forall>r. new \<notin> room_conns h r"
    and "new \<noteq> old" and "new \<notin> st_closed st"
    and "st_hub st = snd (Register rs (Some (NewClientConnection c new)) h)"
  shows "new \<notin> st_closed (disconnect api c old st) \<and> (\<forall>r. new \<notin> room_conns (st_hub (disconnect api c old st)) r)"
proof -
  let ?h = "snd (Register rs (Some (NewClientConnection c new)) h)"
  have inv: "hub_inv ?h" by (rule Register_inv [OF assms(1)])
  have "hub_view (snd (Unregister c ?h)) r i = (if i = c then None else hub_view ?h r i)" for r i
    using inv by (simp add: Unregister_def hub_view_rooms leave_rooms_view hub_inv_def)
  moreover have "hub_view ?h r i = Some new \<Longrightarrow> i = c" for r i
    using Register_owned [OF assms(2), of "NewClientConnection c new" rs] assms(3)
    by (auto simp: hub_owned_def NewClientConnection_def)
  ultimately have "new \<notin> room_conns (snd (Unregister c ?h)) r" for r
    by (auto simp: room_conns_def split: if_splits)
  then show ?thesis using assms(5-7) by (simp add: disconnect_hub) (simp add: disconnect_def close_conn_def Let_def)
qed

theorem stale_disconnect_removes_new_witness:
  "\<forall>r. (2::conn) \<notin> room_conns (st_hub (disconnect (ms_service sample_env) ''alice'' 1
     \<lparr>st_hub = snd (Register [''general''] (Some (NewClientConnection ''alice'' 2)) alice_hub),
      st_world = sample_ms, st_closed = {}\<rparr>)) r"
proof -
  have "\<forall>r. (2::conn) \<notin> room_conns alice_hub r"
    by (auto simp: room_conns_def hub_view_def alice_hub_rooms split: if_splits option.splits)
  then show ?thesis
    using stale_disconnect_removes_new [OF alice_hub_inv, where api = "ms_service sample_env" and new = 2 and c = "''alice''" and old = 1
        and st = "\<lparr>st_hub = snd (Register [''general''] (Some (NewClientConnection ''alice'' 2)) alice_hub),
          st_world = sample_ms, st_closed = {}\<rparr>" and rs = "[''general'']"] by simp
qed

text \<open>A request that is served to its end leaves no trace in the hub: its connection is closed and its client
  is in no room, whatever the other goroutines did meanwhile to a hub they keep well-formed.\<close>

lemma serve_cleans_up:
  assumes "ServeWS api dial query upgraded p reads st = (Served, st')" and "getParams query = Inr (c, rs)"
    and "hub_inv (st_hub st)"
    and "\<forall>(others, stopped, r) \<in> set reads. \<forall>s. hub_inv (st_hub s) \<longrightarrow> hub_inv (st_hub (others s))"
  shows "p \<in> st_closed st' \<and> hub_inv (st_hub st') \<and> (\<forall>r. hub_view (st_hub st') r c = None)"
proof -
  obtain st1 h st2 where cfg: "configureConnection api dial upgraded p c rs st = (None, st1)"
    and reg: "Register rs (Some (NewClientConnection c p)) (st_hub st1) = (None, h)"
    and loop: "read_loop api c (NewClientConnection c p) reads (st1\<lparr>st_hub := h\<rparr>) = (True, st2)"
    and st': "st' = disconnect api c p st2"
    using assms(1,2) by (auto simp: ServeWS_def Let_def split: prod.splits option.splits bool.splits)
  have "hub_inv h"
    using Register_inv [of "st_hub st1" rs "Some (NewClientConnection c p)"] reg configureConnection_hub [OF cfg] assms(3) by simp
  then have "hub_inv (st_hub st2)"
    using read_loop_inv [OF loop] assms(4) by simp
  then have "hub_inv (snd (Unregister c (st_hub st2)))" "hub_view (snd (Unregister c (st_hub st2))) r c = None" for r
    by (auto simp: Unregister_inv) (simp add: Unregister_def hub_view_rooms leave_rooms_view hub_inv_def)
  then show ?thesis unfolding st' by (simp add: disconnect_hub) (simp add: disconnect_def close_conn_def Let_def)
qed

theorem serve_cleans_up_witness:
  "\<exists>st'. ServeWS (ms_service sample_env) ''ws1'' sample_query True 1 [(id, False, ReadMessage 1 ''x''), (id, False, ReadError)]
      (in_st inst0) = (Served, st') \<and> 1 \<in> st_closed st' \<and> hub_view (st_hub st') ''general'' ''alice'' = None"
proof -
  let ?serve = "ServeWS (ms_service sample_env) ''ws1'' sample_query True 1
    [(id, False, ReadMessage 1 ''x''), (id, False, ReadError)] (in_st inst0)"
  let ?req = "\<lparr>cr_RoomsId = [''general'', ''random''], cr_InstanceName = ''ws1'', cr_ClientId = ''alice''\<rparr>"
  obtain rw where c: "Connect store_api ?req (empty_redis []) = (None, rw)"
    using sample_connect_ok by (auto simp: sample_connect_def)
  then have cfg: "configureConnection (ms_service sample_env) ''ws1'' True 1 ''alice'' [''general'', ''random''] (in_st inst0)
      = (None, (in_st inst0)\<lparr>st_world := sample_ms\<lparr>mw_redis := rw\<rparr>\<rparr>)"
    by (simp add: configureConnection_def ms_service_def rpc_def inst0_def sample_ms_def)
  have "fst ?serve = Served"
    using cfg sample_params bad_frame
    by (simp add: ServeWS_def Register_def Let_def is_data_type_def handleMessage_answer answer_def enqueue_def
        marshal_RejectedAck_def inst0_def NewHub_def sendCap_def split: prod.splits)
  then obtain st' where st': "?serve = (Served, st')" by (metis prod.collapse)
  have "hub_inv (st_hub (in_st inst0))" by (simp add: inst0_def hub_inv_NewHub)
  from serve_cleans_up [OF st' sample_params this] st' show ?thesis by auto
qed

end
