(* ===== verification/Delivery.thy ===== *)
theory Delivery
  imports Envelope Presence_Props Relay_World
begin

text \<open>
  The delivery service: the Kafka consumer (\<^verbatim>\<open>delivery_service/infra/kafka/handler.go\<close>), the handler that
  looks up who is connected to the event's room (\<^verbatim>\<open>app/messageService.go\<close>), and the publisher that
  sends the record's envelope to the channel of each of these instances
  (\<^verbatim>\<open>infra/redispubsub/publisher.go\<close>).
\<close>

subsection \<open>The service\<close>

datatype delivery_error =
    DeliveryDecode | DeliveryInvalid contract_error | KeyMismatch | LookupFailed redis_error
  | EmptyResponse | EnvelopeMarshal | RedisPublish

text \<open>
  The two calls: the presence lookup (its response may be nil), and the pipeline of publications,
  which returns the number of receivers of each.
\<close>

record 'w delivery_api =
  da_is_connected :: "string \<Rightarrow> 'w \<Rightarrow> (redis_error + string list option) \<times> 'w"
  da_publish :: "(string \<times> bytes) list \<Rightarrow> 'w \<Rightarrow> (unit + int list) \<times> 'w"

definition ChannelName :: "string \<Rightarrow> string \<Rightarrow> string" where
  "ChannelName prefix instanceName = prefix @ instanceName"

definition PublishMessage ::
  "'w delivery_api \<Rightarrow> string \<Rightarrow> Message \<Rightarrow> string list \<Rightarrow> 'w \<Rightarrow> delivery_error option \<times> 'w" where
  "PublishMessage api prefix m instancesNames w =
     (if instancesNames = [] then (None, w)
      else case marshal_Message m of
        None \<Rightarrow> (Some EnvelopeMarshal, w)
      | Some serialized \<Rightarrow>
          (case da_publish api (map (\<lambda>name. (ChannelName prefix name, serialized)) instancesNames) w of
             (Inl e, w1) \<Rightarrow> (Some RedisPublish, w1)
           | (Inr counts, w1) \<Rightarrow> (None, w1)))"

definition Handle :: "'w delivery_api \<Rightarrow> string \<Rightarrow> Message \<Rightarrow> 'w \<Rightarrow> delivery_error option \<times> 'w" where
  "Handle api prefix m w =
     (case unmarshal_Event (slice (em_Value m)) of
        None \<Rightarrow> (Some DeliveryDecode, w)
      | Some event \<Rightarrow>
     (case Event_Validate event of
        Some e \<Rightarrow> (Some (DeliveryInvalid e), w)
      | None \<Rightarrow>
      if slice (em_Key m) \<noteq> ev_RoomID event then (Some KeyMismatch, w)
      else case da_is_connected api (ev_RoomID event) w of
        (Inl e, w1) \<Rightarrow> (Some (LookupFailed e), w1)
      | (Inr None, w1) \<Rightarrow> (Some EmptyResponse, w1)
      | (Inr (Some instanceNames), w1) \<Rightarrow>
          if instanceNames = [] then (None, w1) else PublishMessage api prefix m instanceNames w1))"

subsection \<open>The consumer\<close>

record consumer_message =
  cm_Key :: "bytes option"
  cm_Value :: "bytes option"
  cm_Headers :: "(string \<times> string) option list"
  cm_Timestamp :: gotime
  cm_Offset :: int

definition kafkaHeaders :: "(string \<times> string) option list \<Rightarrow> (string \<times> string) list option" where
  "kafkaHeaders headers =
     (if headers = [] then None
      else Some (fold (\<lambda>h m. case h of None \<Rightarrow> m | Some (k, v) \<Rightarrow> AList.update k v m) headers []))"

definition message_of :: "consumer_message \<Rightarrow> Message" where
  "message_of msg = \<lparr>em_Key = cm_Key msg, em_Value = cm_Value msg, em_Headers = kafkaHeaders (cm_Headers msg),
                     em_Timestamp = cm_Timestamp msg\<rparr>"

text \<open>
  \<^verbatim>\<open>ConsumeClaim\<close> over the messages the claim delivers before its channel is closed. \<open>stop n\<close>: the
  \<open>n\<close>-th select takes the branch of the done session. The result is the error, the offsets marked and
  the world.
\<close>

fun ConsumeClaim ::
  "'w delivery_api \<Rightarrow> string \<Rightarrow> (nat \<Rightarrow> bool) \<Rightarrow> nat \<Rightarrow> consumer_message list \<Rightarrow> 'w
     \<Rightarrow> delivery_error option \<times> int list \<times> 'w" where
  "ConsumeClaim api prefix stop n [] w = (None, [], w)"
| "ConsumeClaim api prefix stop n (msg # msgs) w =
     (if stop n then (None, [], w)
      else case Handle api prefix (message_of msg) w of
        (Some e, w1) \<Rightarrow> (Some e, [], w1)
      | (None, w1) \<Rightarrow>
          (case ConsumeClaim api prefix stop (Suc n) msgs w1 of
             (err, marked, w2) \<Rightarrow> (err, cm_Offset msg # marked, w2)))"

text \<open>
  \<^verbatim>\<open>Consumer.Run\<close> starts a session again after each one that ends, from the first unmarked message.
  \<open>sessions\<close> says when each session is stopped and whether the wait after it is interrupted.
\<close>

fun consumer_Run ::
  "'w delivery_api \<Rightarrow> string \<Rightarrow> ((nat \<Rightarrow> bool) \<times> bool) list \<Rightarrow> consumer_message list \<Rightarrow> 'w \<Rightarrow> int list \<times> 'w" where
  "consumer_Run api prefix [] msgs w = ([], w)"
| "consumer_Run api prefix ((stop, quit) # sessions) msgs w =
     (case ConsumeClaim api prefix stop 0 msgs w of
        (err, marked, w1) \<Rightarrow>
          if quit then (marked, w1)
          else case consumer_Run api prefix sessions (drop (length marked) msgs) w1 of
            (marked', w2) \<Rightarrow> (marked @ marked', w2))"

subsection \<open>Offsets\<close>

lemma ConsumeClaim_marked:
  "ConsumeClaim api prefix stop n msgs w = (err, marked, w') \<Longrightarrow>
     marked = map cm_Offset (take (length marked) msgs) \<and> length marked \<le> length msgs"
proof (induction msgs arbitrary: n w err marked w')
  case (Cons msg msgs)
  show ?case
  proof (cases "stop n \<or> (\<exists>e w1. Handle api prefix (message_of msg) w = (Some e, w1))")
    case True
    with Cons.prems show ?thesis by (auto split: if_splits)
  next
    case False
    then obtain w1 where h: "Handle api prefix (message_of msg) w = (None, w1)"
      by (metis not_None_eq surj_pair)
    obtain err2 marked2 w2 where r: "ConsumeClaim api prefix stop (Suc n) msgs w1 = (err2, marked2, w2)"
      using prod_cases3 by blast
    from Cons.IH [OF r] Cons.prems False h r show ?thesis by auto
  qed
qed simp

lemma ConsumeClaim_error:
  "ConsumeClaim api prefix stop n msgs w = (Some e, marked, w') \<Longrightarrow> length marked < length msgs"
proof (induction msgs arbitrary: n w marked w')
  case (Cons msg msgs)
  then show ?case by (force split: if_splits prod.splits option.splits)
qed simp

lemma consumer_Run_marked:
  "consumer_Run api prefix sessions msgs w = (marked, w') \<Longrightarrow>
     marked = map cm_Offset (take (length marked) msgs) \<and> length marked \<le> length msgs"
proof (induction sessions arbitrary: msgs w marked w')
  case (Cons s sessions)
  obtain stop quit where s: "s = (stop, quit)" by fastforce
  obtain err marked1 w1 where c: "ConsumeClaim api prefix stop 0 msgs w = (err, marked1, w1)"
    using prod_cases3 by blast
  note m1 = ConsumeClaim_marked [OF c]
  show ?case
  proof (cases quit)
    case True
    with Cons.prems s c m1 show ?thesis by simp
  next
    case False
    obtain marked2 w2 where r: "consumer_Run api prefix sessions (drop (length marked1) msgs) w1 = (marked2, w2)"
      by fastforce
    with Cons.prems s c False have m: "marked = marked1 @ marked2" by simp
    from Cons.IH [OF r] m1 show ?thesis
      unfolding m by (auto simp: take_add)
  qed
qed simp

text \<open>A message that no handling gets past is never marked, nor is anything behind it.\<close>

lemma ConsumeClaim_poison:
  "\<lbrakk>ConsumeClaim api prefix stop n msgs w = (err, marked, w'); k < length msgs;
    \<And>w. fst (Handle api prefix (message_of (msgs ! k)) w) \<noteq> None\<rbrakk> \<Longrightarrow> length marked \<le> k"
proof (induction msgs arbitrary: n w err marked w' k)
  case (Cons msg msgs)
  show ?case
  proof (cases "stop n \<or> (\<exists>e w1. Handle api prefix (message_of msg) w = (Some e, w1))")
    case True
    with Cons.prems show ?thesis by (auto split: if_splits)
  next
    case False
    then obtain w1 where h: "Handle api prefix (message_of msg) w = (None, w1)"
      by (metis not_None_eq surj_pair)
    then obtain k' where k: "k = Suc k'" using Cons.prems(3) [of w] by (cases k) auto
    obtain err2 marked2 w2 where r: "ConsumeClaim api prefix stop (Suc n) msgs w1 = (err2, marked2, w2)"
      using prod_cases3 by blast
    have "length marked2 \<le> k'" using Cons.IH [OF r, of k'] Cons.prems k by auto
    with Cons.prems(1) False h r k show ?thesis by auto
  qed
qed simp

lemma consumer_Run_poison:
  "\<lbrakk>consumer_Run api prefix sessions msgs w = (marked, w'); k < length msgs;
    \<And>w. fst (Handle api prefix (message_of (msgs ! k)) w) \<noteq> None\<rbrakk> \<Longrightarrow> length marked \<le> k"
proof (induction sessions arbitrary: msgs w marked w' k)
  case (Cons s sessions)
  obtain stop quit where s: "s = (stop, quit)" by fastforce
  obtain err marked1 w1 where c: "ConsumeClaim api prefix stop 0 msgs w = (err, marked1, w1)"
    using prod_cases3 by blast
  have m1: "length marked1 \<le> k" by (rule ConsumeClaim_poison [OF c Cons.prems(2,3)])
  show ?case
  proof (cases quit)
    case False
    obtain marked2 w2 where r: "consumer_Run api prefix sessions (drop (length marked1) msgs) w1 = (marked2, w2)"
      by fastforce
    have "length marked2 \<le> k - length marked1"
      using Cons.IH [OF r, of "k - length marked1"] Cons.prems(2,3) m1 by simp
    with Cons.prems(1) s c False r m1 show ?thesis by auto
  qed (use Cons.prems(1) s c m1 in simp)
qed simp

subsection \<open>What the service relies on\<close>

locale delivery_interface =
  fixes api :: "'w delivery_api" and sent :: "'w \<Rightarrow> (string \<times> bytes) list"
    and connected :: "'w \<Rightarrow> string \<Rightarrow> string set" and ok :: "'w \<Rightarrow> bool"
  assumes lookup: "\<lbrakk>da_is_connected api r w = (Inr (Some names), w'); ok w\<rbrakk>
    \<Longrightarrow> distinct names \<and> set names = connected w r"
  and lookup_frame: "\<lbrakk>da_is_connected api r w = (found, w'); ok w\<rbrakk> \<Longrightarrow> ok w' \<and> sent w' = sent w \<and> connected w' = connected w"
  and publish: "\<lbrakk>da_publish api pubs w = (Inr counts, w'); ok w\<rbrakk> \<Longrightarrow> sent w' = sent w @ pubs"
  and publish_frame: "\<lbrakk>da_publish api pubs w = (res, w'); ok w\<rbrakk>
    \<Longrightarrow> ok w' \<and> connected w' = connected w \<and> (\<exists>more. sent w' = sent w @ more)"
begin

lemma Handle_effect:
  assumes "Handle api prefix m w = (None, w')" and "ok w"
  shows "\<exists>event names serialized. unmarshal_Event (slice (em_Value m)) = Some event \<and>
    Event_Validate event = None \<and> slice (em_Key m) = ev_RoomID event \<and>
    distinct names \<and> set names = connected w (ev_RoomID event) \<and>
    (names \<noteq> [] \<longrightarrow> marshal_Message m = Some serialized) \<and>
    sent w' = sent w @ map (\<lambda>i. (ChannelName prefix i, serialized)) names \<and> ok w'"
proof -
  from assms(1) obtain event names w1 where
    e: "unmarshal_Event (slice (em_Value m)) = Some event" "Event_Validate event = None"
      "slice (em_Key m) = ev_RoomID event" and l: "da_is_connected api (ev_RoomID event) w = (Inr (Some names), w1)"
    and rest: "(if names = [] then (None, w1) else PublishMessage api prefix m names w1) = (None, w')"
    by (auto simp: Handle_def split: option.splits if_splits sum.splits prod.splits)
  note n = lookup [OF l assms(2)] and w1 = lookup_frame [OF l assms(2)]
  show ?thesis
  proof (cases "names = []")
    case True
    with e n w1 rest show ?thesis by (intro exI [of _ event] exI [of _ names]) simp
  next
    case False
    with rest obtain s counts where s: "marshal_Message m = Some s"
      and p: "da_publish api (map (\<lambda>i. (ChannelName prefix i, s)) names) w1 = (Inr counts, w')"
      by (auto simp: PublishMessage_def split: option.splits sum.splits prod.splits)
    from publish [OF p] publish_frame [OF p] w1 e n s show ?thesis
      by (intro exI [of _ event] exI [of _ names]) auto
  qed
qed

text \<open>Whatever happens, nothing that was sent is lost and the connections are not touched.\<close>

definition keeps :: "'w \<Rightarrow> 'w \<Rightarrow> bool" where
  "keeps w w' \<longleftrightarrow> (ok w \<longrightarrow> ok w' \<and> connected w' = connected w \<and> set (sent w) \<subseteq> set (sent w'))"

lemma keeps_refl: "keeps w w"
  by (simp add: keeps_def)

lemma keeps_trans: "\<lbrakk>keeps w w1; keeps w1 w2\<rbrakk> \<Longrightarrow> keeps w w2"
  by (auto simp: keeps_def)

lemma keeps_lookup: "da_is_connected api r w = (found, w') \<Longrightarrow> keeps w w'"
  using lookup_frame by (auto simp: keeps_def)

lemma keeps_publish: "da_publish api pubs w = (res, w') \<Longrightarrow> keeps w w'"
  using publish_frame by (fastforce simp: keeps_def)

lemma PublishMessage_keeps: "PublishMessage api prefix m names w = (err, w') \<Longrightarrow> keeps w w'"
  by (auto simp: PublishMessage_def keeps_refl split: if_splits option.splits prod.splits sum.splits
      dest: keeps_publish)

lemma Handle_keeps: "Handle api prefix m w = (err, w') \<Longrightarrow> keeps w w'"
  by (auto simp: Handle_def keeps_refl split: if_splits option.splits prod.splits sum.splits
      dest: keeps_lookup PublishMessage_keeps intro: keeps_trans)

text \<open>What a message that was handled has led to, in a state \<open>w\<close> reached from \<open>w0\<close>.\<close>

definition delivered :: "string \<Rightarrow> 'w \<Rightarrow> 'w \<Rightarrow> Message \<Rightarrow> bool" where
  "delivered prefix w0 w m \<longleftrightarrow>
     (\<exists>event. unmarshal_Event (slice (em_Value m)) = Some event \<and> Event_Validate event = None \<and>
        slice (em_Key m) = ev_RoomID event \<and>
        (\<forall>i \<in> connected w0 (ev_RoomID event). \<exists>serialized. marshal_Message m = Some serialized \<and>
           (ChannelName prefix i, serialized) \<in> set (sent w)))"

lemma delivered_mono: "\<lbrakk>delivered prefix w0 w m; keeps w w'; ok w\<rbrakk> \<Longrightarrow> delivered prefix w0 w' m"
  by (fastforce simp: delivered_def keeps_def)

lemma delivered_base: "\<lbrakk>delivered prefix w1 w m; keeps w0 w1; ok w0\<rbrakk> \<Longrightarrow> delivered prefix w0 w m"
  by (auto simp: delivered_def keeps_def)

lemma Handle_delivered:
  assumes "Handle api prefix m w = (None, w')" "ok w"
  shows "delivered prefix w w' m"
proof -
  from Handle_effect [OF assms] obtain event names s where
    e: "unmarshal_Event (slice (em_Value m)) = Some event" "Event_Validate event = None"
      "slice (em_Key m) = ev_RoomID event" "set names = connected w (ev_RoomID event)"
      "names \<noteq> [] \<longrightarrow> marshal_Message m = Some s"
      "sent w' = sent w @ map (\<lambda>i. (ChannelName prefix i, s)) names" by blast
  have "\<exists>s. marshal_Message m = Some s \<and> (ChannelName prefix i, s) \<in> set (sent w')"
    if "i \<in> set names" for i using e(5,6) that by auto
  with e show ?thesis unfolding delivered_def by metis
qed

lemma ConsumeClaim_delivered:
  "ConsumeClaim api prefix stop n msgs w = (err, marked, w') \<Longrightarrow>
     keeps w w' \<and> (ok w \<longrightarrow> (\<forall>msg \<in> set (take (length marked) msgs). delivered prefix w w' (message_of msg)))"
proof (induction msgs arbitrary: n w err marked w')
  case (Cons msg msgs)
  show ?case
  proof (cases "stop n \<or> (\<exists>e w1. Handle api prefix (message_of msg) w = (Some e, w1))")
    case True
    with Cons.prems show ?thesis by (auto simp: keeps_refl split: if_splits dest: Handle_keeps)
  next
    case False
    then obtain w1 where h: "Handle api prefix (message_of msg) w = (None, w1)"
      by (metis not_None_eq surj_pair)
    obtain err2 marked2 where r: "ConsumeClaim api prefix stop (Suc n) msgs w1 = (err2, marked2, w')"
      and m: "marked = cm_Offset msg # marked2"
      using Cons.prems False h by (auto split: prod.splits)
    note g = Handle_keeps [OF h] and IH = Cons.IH [OF r]
    have "delivered prefix w w' (message_of msg)" if "ok w"
      using delivered_mono [OF Handle_delivered [OF h that]] IH g that by (auto simp: keeps_def)
    moreover have "delivered prefix w w' (message_of x)"
      if "ok w" "x \<in> set (take (length marked2) msgs)" for x
      using delivered_base [of prefix w1 w' "message_of x" w] IH g that by (auto simp: keeps_def)
    moreover have "keeps w w'" using g IH keeps_trans by blast
    ultimately show ?thesis by (simp add: m)
  qed
qed (simp add: keeps_refl)

lemma consumer_Run_delivered:
  "consumer_Run api prefix sessions msgs w = (marked, w') \<Longrightarrow>
     keeps w w' \<and> (ok w \<longrightarrow> (\<forall>msg \<in> set (take (length marked) msgs). delivered prefix w w' (message_of msg)))"
proof (induction sessions arbitrary: msgs w marked w')
  case (Cons s sessions)
  obtain stop quit where s: "s = (stop, quit)" by fastforce
  obtain err marked1 w1 where c: "ConsumeClaim api prefix stop 0 msgs w = (err, marked1, w1)"
    using prod_cases3 by blast
  note m1 = ConsumeClaim_delivered [OF c] and len = ConsumeClaim_marked [OF c]
  show ?case
  proof (cases quit)
    case True
    with Cons.prems s c m1 show ?thesis by simp
  next
    case False
    obtain marked2 where r: "consumer_Run api prefix sessions (drop (length marked1) msgs) w1 = (marked2, w')"
      and m: "marked = marked1 @ marked2"
      using Cons.prems s c False by (auto split: prod.splits)
    note IH = Cons.IH [OF r]
    have "delivered prefix w w' (message_of msg)" if "ok w" "msg \<in> set (take (length marked) msgs)" for msg
    proof -
      have ok1: "ok w1" and g: "keeps w w1" "keeps w1 w'" using m1 IH that(1) by (auto simp: keeps_def)
      from that(2) consider "msg \<in> set (take (length marked1) msgs)"
        | "msg \<in> set (take (length marked2) (drop (length marked1) msgs))"
        unfolding m by (auto simp: take_add)
      then show ?thesis
      proof cases
        case 1
        with m1 that(1) have "delivered prefix w w1 (message_of msg)" by blast
        then show ?thesis using g(2) ok1 by (rule delivered_mono)
      next
        case 2
        with IH ok1 have "delivered prefix w1 w' (message_of msg)" by blast
        then show ?thesis using g(1) that(1) by (rule delivered_base)
      qed
    qed
    with keeps_trans [of w w1 w'] IH m1 show ?thesis by blast
  qed
qed (simp add: keeps_refl)

end

subsection \<open>The delivery service over the presence store\<close>

record delivery_world =
  dw_redis :: redis_world
  dw_sent :: "(string \<times> bytes) list"
  dw_receivers :: "string \<Rightarrow> int"

definition dw_is_connected :: "string \<Rightarrow> delivery_world \<Rightarrow> (redis_error + string list option) \<times> delivery_world" where
  "dw_is_connected r w =
     (case IsConnected store_api r (dw_redis w) of
        (Inl e, rw) \<Rightarrow> (Inl e, w\<lparr>dw_redis := rw\<rparr>)
      | (Inr names, rw) \<Rightarrow> (Inr (Some names), w\<lparr>dw_redis := rw\<rparr>))"

definition dw_publish :: "(string \<times> bytes) list \<Rightarrow> delivery_world \<Rightarrow> (unit + int list) \<times> delivery_world" where
  "dw_publish pubs w =
     (case net_tick (dw_redis w) of (n, rw) \<Rightarrow>
        (let w1 = w\<lparr>dw_redis := rw\<rparr>; w2 = w1\<lparr>dw_sent := dw_sent w @ pubs\<rparr> in
         if n = NetFail then (Inl (), w1)
         else if n = NetFailAfter then (Inl (), w2)
         else (Inr (map (dw_receivers w \<circ> fst) pubs), w2)))"

definition dw_api :: "delivery_world delivery_api" where
  "dw_api = \<lparr>da_is_connected = dw_is_connected, da_publish = dw_publish\<rparr>"

text \<open>The instances with a live entry in a room.\<close>

definition live_instances :: "redis_world \<Rightarrow> string \<Rightarrow> string set" where
  "live_instances w r = {i. \<exists>f d. field_of (redis_get (rw_store w) (roomKey r)) f = Some (i, d)}"

lemma live_instances_cong: "rw_store a = rw_store b \<Longrightarrow> live_instances a = live_instances b"
  by (simp add: live_instances_def fun_eq_iff)

lemma IsConnected_store:
  assumes "IsConnected store_api r w = (res, w')"
  shows "rw_store w' = rw_store w"
proof -
  obtain x w1 where x: "store_hgetall (roomKey r) w = (x, w1)" by fastforce
  with store_reads_store(2) [of "roomKey r" w] have "rw_store w1 = rw_store w" by simp
  moreover have "w' = w1" using assms x by (cases x) (auto simp: IsConnected_def store_api_def)
  ultimately show ?thesis by simp
qed

interpretation dw: delivery_interface dw_api dw_sent "\<lambda>w. live_instances (dw_redis w)"
  "\<lambda>w. presence_inv (rw_store (dw_redis w))"
proof (unfold_locales, goal_cases)
  case (1 r w names w')
  then obtain rw where "IsConnected store_api r (dw_redis w) = (Inr names, rw)"
    by (auto simp: dw_api_def dw_is_connected_def split: prod.splits sum.splits)
  from store.IsConnected_effect [OF this presence_inv_ok [OF 1(2)]] show ?case by (simp add: live_instances_def)
next
  case (2 r w found w')
  obtain res rw where ic: "IsConnected store_api r (dw_redis w) = (res, rw)" by fastforce
  note st = IsConnected_store [OF ic]
  from 2(1) ic have w': "w' = w\<lparr>dw_redis := rw\<rparr>"
    by (cases res) (auto simp: dw_api_def dw_is_connected_def)
  show ?case using 2(2) st live_instances_cong [OF st] unfolding w' by simp
next
  case (3 pubs w counts w')
  obtain n rw where n: "net_tick (dw_redis w) = (n, rw)" by fastforce
  with 3(1) show ?case by (auto simp: dw_api_def dw_publish_def Let_def split: if_splits)
next
  case (4 pubs w res w')
  obtain n rw where n: "net_tick (dw_redis w) = (n, rw)" by fastforce
  note st = net_tick_store [OF n]
  obtain more where "dw_redis w' = rw" "dw_sent w' = dw_sent w @ more"
    using 4(1) n by (auto simp: dw_api_def dw_publish_def Let_def split: if_splits)
  then show ?case using 4(2) st live_instances_cong [OF st] by simp
qed

end
