(* ===== verification/Delivery_Props.thy ===== *)
theory Delivery_Props
  imports Delivery Message_Props
begin

text \<open>
  The properties of the delivery service on the concrete store: to whom a Kafka record is published,
  which offsets are committed, and what a record that cannot be handled does to its partition.
\<close>

subsection \<open>A record and a connected instance\<close>

definition sample_message :: consumer_message where
  "sample_message = \<lparr>cm_Key = Some ''general'', cm_Value = Some sample_text, cm_Headers = [],
                     cm_Timestamp = sample_time, cm_Offset = 7\<rparr>"

definition sample_bad :: consumer_message where
  "sample_bad = \<lparr>cm_Key = Some ''general'', cm_Value = Some ''{'', cm_Headers = [],
                 cm_Timestamp = sample_time, cm_Offset = 8\<rparr>"

definition sample_world :: delivery_world where
  "sample_world = \<lparr>dw_redis = snd (Connect store_api sample_connect (empty_redis [])), dw_sent = [],
                   dw_receivers = (\<lambda>_. 1)\<rparr>"

lemma sample_world_inv: "presence_inv (rw_store (dw_redis sample_world))"
  using presence_step_inv [of "empty_redis []" "OpConnect sample_connect"] sample_not_room
  by (simp add: sample_world_def sample_connect_def)

lemma sample_lookup:
  "\<exists>rw. IsConnected store_api ''general'' (dw_redis sample_world) = (Inr [''ws1''], rw) \<and> rw_net rw = []"
proof -
  have "fst (IsConnected store_api ''general'' (dw_redis sample_world)) = Inr [''ws1'']"
    "rw_net (snd (IsConnected store_api ''general'' (dw_redis sample_world))) = []" by code_simp+
  then show ?thesis by (metis prod.collapse)
qed

lemma sample_live: "live_instances (dw_redis sample_world) ''general'' = {''ws1''}"
proof -
  obtain rw where "IsConnected store_api ''general'' (dw_redis sample_world) = (Inr [''ws1''], rw)"
    using sample_lookup by blast
  from store.IsConnected_effect [OF this presence_inv_ok [OF sample_world_inv]] show ?thesis
    by (simp add: live_instances_def)
qed

lemma sample_envelope: "\<exists>s. marshal_Message (message_of sample_message) = Some s"
  by (simp add: marshal_Message_def message_of_def sample_message_def marshal_time_def sample_time_def)

lemma sample_handle_prefix:
  "\<exists>w'. Handle dw_api prefix (message_of sample_message) sample_world = (None, w')"
proof -
  obtain s where s: "marshal_Message (message_of sample_message) = Some s" using sample_envelope by blast
  obtain rw where rw: "IsConnected store_api ''general'' (dw_redis sample_world) = (Inr [''ws1''], rw)" "rw_net rw = []"
    using sample_lookup by blast
  have "em_Value (message_of sample_message) = Some sample_text" "em_Key (message_of sample_message) = Some ''general''"
    by (simp_all add: message_of_def sample_message_def)
  moreover have "ev_RoomID sample_event = ''general''" by (simp add: sample_event_def)
  ultimately show ?thesis
    using s
    by (simp add: Handle_def slice_def sample_unmarshal sample_valid dw_api_def dw_is_connected_def rw
        PublishMessage_def dw_publish_def net_tick_def)
qed

lemmas sample_handle = sample_handle_prefix [of "''chat:''"]

subsection \<open>Properties\<close>

text \<open>A record that is handled carries a valid event under its room's key, and it is published once to the
  channel of every instance with a live connection to the room, and to no other channel.\<close>

lemma delivery_to_live_instances:
  assumes "presence_inv (rw_store (dw_redis w))" and "Handle dw_api prefix m w = (None, w')"
  shows "\<exists>event names serialized. unmarshal_Event (slice (em_Value m)) = Some event \<and>
    Event_Validate event = None \<and> slice (em_Key m) = ev_RoomID event \<and>
    distinct names \<and> set names = live_instances (dw_redis w) (ev_RoomID event) \<and>
    (names \<noteq> [] \<longrightarrow> marshal_Message m = Some serialized) \<and>
    dw_sent w' = dw_sent w @ map (\<lambda>i. (ChannelName prefix i, serialized)) names"
  using dw.Handle_effect [OF assms(2,1)] by blast

theorem delivery_to_live_instances_witness:
  "\<exists>w' serialized. Handle dw_api ''chat:'' (message_of sample_message) sample_world = (None, w') \<and>
    marshal_Message (message_of sample_message) = Some serialized \<and> dw_sent w' = [(''chat:ws1'', serialized)]"
proof -
  obtain w' where h: "Handle dw_api ''chat:'' (message_of sample_message) sample_world = (None, w')"
    using sample_handle by blast
  have v: "em_Value (message_of sample_message) = Some sample_text" by (simp add: message_of_def sample_message_def)
  have r: "ev_RoomID sample_event = ''general''" by (simp add: sample_event_def)
  from delivery_to_live_instances [OF sample_world_inv h] obtain names s where
    n: "distinct names" "set names = {''ws1''}" and "names \<noteq> [] \<longrightarrow> marshal_Message (message_of sample_message) = Some s"
    and s: "dw_sent w' = dw_sent sample_world @ map (\<lambda>i. (ChannelName ''chat:'' i, s)) names"
    by (auto simp: v slice_def sample_unmarshal r sample_live)
  moreover have "names = [''ws1'']" using n by (cases names) (auto simp: subset_singleton_iff)
  ultimately show ?thesis using h by (auto simp: sample_world_def ChannelName_def)
qed

text \<open>C19: whatever sessions the consumer runs and however they end, the offsets it commits are those of a
  prefix of the partition, in order, and every committed record was a valid event that has been
  published to all instances connected to its room.\<close>

theorem delivery_at_least_once:
  assumes "presence_inv (rw_store (dw_redis w))" and "consumer_Run dw_api prefix sessions msgs w = (marked, w')"
  shows "marked = map cm_Offset (take (length marked) msgs) \<and> length marked \<le> length msgs \<and>
    (\<forall>msg \<in> set (take (length marked) msgs). \<exists>event.
       unmarshal_Event (slice (cm_Value msg)) = Some event \<and> Event_Validate event = None \<and>
       slice (cm_Key msg) = ev_RoomID event \<and>
       (\<forall>i \<in> live_instances (dw_redis w) (ev_RoomID event). \<exists>serialized.
          marshal_Message (message_of msg) = Some serialized \<and>
          (ChannelName prefix i, serialized) \<in> set (dw_sent w')))"
  using consumer_Run_marked [OF assms(2)] dw.consumer_Run_delivered [OF assms(2)] assms(1)
  unfolding dw.delivered_def by (simp add: message_of_def)

theorem delivery_at_least_once_witness:
  "\<exists>w'. consumer_Run dw_api ''chat:'' [(\<lambda>_. False, False), (\<lambda>_. False, True)] [sample_message, sample_bad] sample_world
      = ([7], w') \<and>
    (\<exists>serialized. marshal_Message (message_of sample_message) = Some serialized \<and>
       (''chat:ws1'', serialized) \<in> set (dw_sent w'))"
proof -
  obtain w1 where h: "Handle dw_api ''chat:'' (message_of sample_message) sample_world = (None, w1)"
    using sample_handle by blast
  have "unmarshal_Event ''{'' = None" by code_simp
  then have bad: "Handle dw_api ''chat:'' (message_of sample_bad) w = (Some DeliveryDecode, w)" for w
    by (simp add: Handle_def message_of_def sample_bad_def slice_def)
  have run: "consumer_Run dw_api ''chat:'' [(\<lambda>_. False, False), (\<lambda>_. False, True)] [sample_message, sample_bad] sample_world
      = ([7], w1)"
    by (simp add: h bad) (simp add: sample_message_def)
  have v: "cm_Value sample_message = Some sample_text" by (simp add: sample_message_def)
  have r: "ev_RoomID sample_event = ''general''" by (simp add: sample_event_def)
  from delivery_at_least_once [OF sample_world_inv run] have
    "\<exists>serialized. marshal_Message (message_of sample_message) = Some serialized \<and>
      (''chat:ws1'', serialized) \<in> set (dw_sent w1)"
    by (auto simp: v slice_def sample_unmarshal r sample_live ChannelName_def)
  with run show ?thesis by blast
qed

text \<open>C20: a record whose value is no JSON text of an event blocks its partition: no run of the consumer, over
  any number of sessions, commits its offset or the offset of a record behind it.\<close>

theorem delivery_poison_blocks:
  assumes "consumer_Run api prefix sessions msgs w = (marked, w')" and "k < length msgs"
    and "unmarshal_Event (slice (cm_Value (msgs ! k))) = None"
  shows "length marked \<le> k"
proof (rule consumer_Run_poison [OF assms(1,2)])
  show "fst (Handle api prefix (message_of (msgs ! k)) v) \<noteq> None" for v
    using assms(3) by (simp add: Handle_def message_of_def)
qed

theorem delivery_poison_blocks_witness:
  "length (fst (consumer_Run dw_api ''chat:'' (replicate 5 (\<lambda>_. False, False))
     [sample_bad, sample_message] sample_world)) \<le> 0"
proof (rule delivery_poison_blocks [OF surjective_pairing])
  have "unmarshal_Event ''{'' = None" by code_simp
  then show "unmarshal_Event (slice (cm_Value ([sample_bad, sample_message] ! 0))) = None"
    by (simp add: sample_bad_def slice_def)
qed simp

end
