(* ===== verification/System_Props.thy ===== *)
theory System_Props
  imports Ws_Props Delivery_Props
begin

text \<open>
  Properties of the services together: the presence of an open connection, the subscription of an instance,
  and the way of an event from its Kafka record into the buffers of the clients of its room.
\<close>

subsection \<open>Presence of a connection\<close>

text \<open>C18: a connection that is accepted stays visible. Its ping loop pings every 54 seconds; between two pings and
  after the last one the presence service may handle any requests of other connections, that is, requests
  whose client key is not this one's (so no second connection of the same client on the instance) and whose
  client identifier does not start with \<^verbatim>\<open>room:\<close>. As long as Redis answers and the pings can be written, the
  connection is not closed, and at every moment until 60 seconds after the last ping a lookup of each of its
  rooms names its instance.\<close>

theorem open_connection_visible:
  assumes "presence_inv (rw_store (mw_redis (st_world st)))" and "rw_net (mw_redis (st_world st)) = []"
    and "\<not> HasPrefix c ''room:''" and "rs \<noteq> []" and "p \<notin> st_closed st" and "r \<in> set rs"
    and "\<forall>ops \<in> set rounds. others (clientKey c dial) ops \<and> elapsed ops \<le> 54000"
    and "others (clientKey c dial) final" and "elapsed final < 60000"
  shows "\<exists>st1 st2 names. configureConnection (ms_service env) dial True p c rs st = (None, st1) \<and>
    runPing (ms_service env) dial p c (map (\<lambda>ops. (wait_tick ops, True)) rounds) st1 = st2 \<and> p \<notin> st_closed st2 \<and>
    rd_now (rw_store (mw_redis (st_world st2))) = rd_now (rw_store (mw_redis (st_world st))) + int (length rounds) * 54000 \<and>
    fst (IsConnected store_api r (run_presence final (mw_redis (st_world st2)))) = Inr names \<and> dial \<in> set names"
proof -
  obtain w1 where con: "Connect store_api \<lparr>cr_RoomsId = rs, cr_InstanceName = dial, cr_ClientId = c\<rparr> (mw_redis (st_world st)) = (None, w1)"
    and w1: "renewed c dial (set rs) w1" "rd_now (rw_store w1) = rd_now (rw_store (mw_redis (st_world st)))"
    using Connect_renewed [OF assms(1-4), of dial] by blast
  let ?st1 = "st\<lparr>st_world := (st_world st)\<lparr>mw_redis := w1\<rparr>\<rparr>"
  have cfg: "configureConnection (ms_service env) dial True p c rs st = (None, ?st1)"
    using con by (simp add: configureConnection_def ms_service_def rpc_def)
  have ren: "renewed c dial (set rs) (mw_redis (st_world ?st1))" using w1 by simp
  obtain st2 where st2: "runPing (ms_service env) dial p c (map (\<lambda>ops. (wait_tick ops, True)) rounds) ?st1 = st2"
    "st_closed st2 = st_closed st" "renewed c dial (set rs) (mw_redis (st_world st2))"
    "rd_now (rw_store (mw_redis (st_world st2))) = rd_now (rw_store (mw_redis (st_world st))) + int (length rounds) * 54000"
    using runPing_renewed [OF ren assms(3,7), of env p] w1(2) by auto
  have "held c dial (set rs) (rd_now (rw_store (mw_redis (st_world st2))) + 60000) (run_presence final (mw_redis (st_world st2)))"
    using held_run [OF st2(3) [unfolded renewed_def] assms(3,8)] assms(9) by simp
  from held_visible [OF this assms(6)] obtain names where
    "fst (IsConnected store_api r (run_presence final (mw_redis (st_world st2)))) = Inr names" "dial \<in> set names" by auto
  with cfg st2 assms(5) show ?thesis by blast
qed

text \<open>A hundred pings, with another client of the room coming and going between them.\<close>

definition bob_visits :: "presence_op list" where
  "bob_visits = [OpTime 1000, OpConnect \<lparr>cr_RoomsId = [''general''], cr_InstanceName = ''ws1'', cr_ClientId = ''bob''\<rparr>,
     OpTime 50000, OpDisconnect \<lparr>dr_ClientId = ''bob'', dr_InstanceName = ''ws1''\<rparr>]"

theorem open_connection_visible_witness:
  "\<exists>st1 st2 names. configureConnection (ms_service sample_env) ''ws1'' True 1 ''alice'' [''general''] (in_st inst0) = (None, st1) \<and>
    runPing (ms_service sample_env) ''ws1'' 1 ''alice'' (map (\<lambda>ops. (wait_tick ops, True)) (replicate 100 bob_visits)) st1 = st2 \<and>
    1 \<notin> st_closed st2 \<and> rd_now (rw_store (mw_redis (st_world st2))) = 5400000 \<and>
    fst (IsConnected store_api ''general'' (run_presence bob_visits (mw_redis (st_world st2)))) = Inr names \<and>
    ''ws1'' \<in> set names"
proof -
  let ?st = "in_st inst0"
  have r: "mw_redis (st_world ?st) = empty_redis []" "st_closed ?st = {}" by (simp_all add: inst0_def sample_ms_def)
  have n: "rw_net (empty_redis []) = []" "rd_now (rw_store (empty_redis [])) = 0" by (simp_all add: empty_redis_def)
  have b: "others (clientKey ''alice'' ''ws1'') bob_visits" "elapsed bob_visits = 51000"
    by (simp_all add: bob_visits_def others_def clientKey_def HasPrefix_def)
  show ?thesis
    using open_connection_visible [of ?st "''alice''" "[''general'']" 1 "''general''" "replicate 100 bob_visits" "''ws1''" bob_visits
        sample_env] sample_not_room b by (simp add: r n del: map_replicate)
qed

subsection \<open>The subscription\<close>

text \<open>The supervisor of the subscription waits 250 ms after the first failure and doubles the wait after each
  further one up to 5 s.\<close>

lemma redis_retry_delays:
  assumes "runRedisConsumer runs h = (ds, h')" and "i < length ds"
  shows "ds ! i = min 5000000000 (250000000 * 2 ^ i) \<and> 250000000 \<le> ds ! i"
proof -
  have "ds ! i = min (5 * 1000000000) (consumer_delay0 * 2 ^ (0 + i))"
    by (rule consumer_loop_delays [OF assms(1) [unfolded runRedisConsumer_def] _ assms(2)]) (simp add: consumer_delay0_def)
  moreover have "(1::int) \<le> 2 ^ i" by simp
  ultimately show ?thesis by (simp add: consumer_delay0_def)
qed

theorem redis_retry_delays_witness:
  "fst (runRedisConsumer (replicate 7 (id, False, False)) ()) ! 6 = 5000000000 \<and>
    fst (runRedisConsumer (replicate 7 (id, False, False)) ()) ! 3 = 2000000000"
proof -
  obtain ds h' where r: "runRedisConsumer (replicate 7 (id, False, False)) () = (ds, h')" by (metis surj_pair)
  have "length (fst (runRedisConsumer (replicate 7 (id, False, False)) ())) = 7"
    by (simp add: runRedisConsumer_def numeral_eq_Suc)
  with r have "length ds = 7" by simp
  with redis_retry_delays [OF r, of 6] redis_retry_delays [OF r, of 3] r show ?thesis by simp
qed

lemma consume_ok:
  assumes "hub_inv h" and "hub_owned own h" and "payload_text x = Some (r, body)" and "room_conns h r \<noteq> {}"
    and "\<forall>p. length (hub_send h p) < sendCap"
  shows "\<exists>h'. consume_message (Dispatch (\<lambda>_. False)) x h = (None, h')"
proof -
  obtain event where e: "decode_payload x = Inr event" "Event_Validate event = None" "ev_RoomID event = r" "marshal_Event event = Some body"
    using assms(3) by (auto simp: payload_text_def split: sum.splits if_splits)
  obtain cs where cs: "map_of (hub_rooms h) r = Some cs"
    using assms(4) by (auto simp: room_conns_def hub_view_def split: option.splits)
  have "fst (send_clients (\<lambda>_. False) 0 body cs (hub_send h)) = None"
    using assms(5) owned_distinct(1) [OF assms(1,2) cs] by (intro send_clients_ok) auto
  then show ?thesis using e cs by (auto simp: consume_message_def Dispatch_def split: prod.splits)
qed

text \<open>C17: an instance hands the events of its subscription on in the order in which they arrive. For any messages
  of the subscription whose texts fit into the buffers (256 places) and while the context is not cancelled,
  the loop takes all of them and goes on with what follows; each connection has then got, after what its
  buffer held, the texts of the events of its own rooms, each once and in order. A message that is no
  envelope or no event, whose key is not the event's room, or whose event is invalid or for a room without
  connections adds nothing and does not end the loop.\<close>

theorem subscription_in_order:
  assumes "hub_inv h" and "hub_owned own h"
    and "\<forall>p. length (hub_send h p @ texts_for {r. p \<in> room_conns h r} payloads) \<le> 256"
  shows "\<exists>h'. redis_Run hub_blocked channel (Dispatch (\<lambda>_. False)) True (map Payload payloads @ events) h
      = redis_Run hub_blocked channel (Dispatch (\<lambda>_. False)) True events h' \<and> room_conns h' = room_conns h \<and>
    (\<forall>p. hub_send h' p = hub_send h p @ texts_for {r. p \<in> room_conns h r} payloads)"
  using hub_room.loop_in_order [of h own payloads channel events] assms by (simp add: redis_Run_def sendCap_def)

text \<open>A message that is no JSON comes first.\<close>

lemma no_envelope: "unmarshal_redisMessage ''x'' = None"
  by code_simp

theorem subscription_in_order_witness:
  "\<exists>payload h'. redis_Run hub_blocked ''instance:ws1'' (Dispatch (\<lambda>_. False)) True
     (map Payload [''x'', payload, payload] @ [ChannelClosed]) alice_hub
      = (Some (Some (SubscriptionClosed ''instance:ws1'')), h') \<and> hub_send h' 1 = [sample_text, sample_text]"
proof -
  obtain payload where p: "decode_payload payload = Inr sample_event" using sample_payload by blast
  let ?ps = "[''x'', payload, payload]"
  have t: "payload_text payload = Some (''general'', sample_text)" "payload_text ''x'' = None"
    using p sample_valid sample_marshal no_envelope
    by (simp add: payload_text_def, simp add: sample_event_def, simp add: payload_text_def decode_payload_def)
  have conns: "room_conns alice_hub r = (if r = ''general'' then {1} else {})" for r
    by (auto simp: room_conns_def hub_view_def alice_hub_rooms split: if_splits)
  have len: "hub_send alice_hub p = []" for p by (simp add: alice_hub_rooms)
  have texts: "texts_for {r. p \<in> room_conns alice_hub r} ?ps = (if p = 1 then [sample_text, sample_text] else [])" for p
    by (simp add: texts_for_def map_filter_simps t conns)
  have room: "\<forall>p. length (hub_send alice_hub p @ texts_for {r. p \<in> room_conns alice_hub r} ?ps) \<le> 256"
    using texts len by simp
  from subscription_in_order [OF alice_hub_inv room, of "''instance:ws1''" "[ChannelClosed]"] obtain h' where
    h': "redis_Run hub_blocked ''instance:ws1'' (Dispatch (\<lambda>_. False)) True (map Payload ?ps @ [ChannelClosed]) alice_hub
      = redis_Run hub_blocked ''instance:ws1'' (Dispatch (\<lambda>_. False)) True [ChannelClosed] h'"
    "\<forall>p. hub_send h' p = hub_send alice_hub p @ texts_for {r. p \<in> room_conns alice_hub r} ?ps" by blast
  have "hub_send h' 1 = [sample_text, sample_text]" using h'(2) texts len by simp
  moreover have "redis_Run hub_blocked ''instance:ws1'' (Dispatch (\<lambda>_. False)) True [ChannelClosed] h'
      = (Some (Some (SubscriptionClosed ''instance:ws1'')), h')" by (simp add: redis_Run_def)
  ultimately show ?thesis using h'(1) by (intro exI [of _ payload] exI [of _ h']) simp
qed

subsection \<open>From the record to the clients\<close>

text \<open>The envelope in which the delivery service publishes a record is read back by the instance: the key, the
  value, the headers as a map and the time are those of the record.\<close>

lemma envelope_roundtrip:
  assumes "valid_time (em_Timestamp m)"
    and "case em_Headers m of None \<Rightarrow> True | Some ms \<Rightarrow> distinct (map fst ms) \<and> (\<forall>(k, v) \<in> set ms. utf8_valid k \<and> utf8_valid v)"
  shows "\<exists>s m'. marshal_Message m = Some s \<and> unmarshal_redisMessage s = Some m' \<and> em_Key m' = em_Key m \<and>
    em_Value m' = em_Value m \<and> em_Timestamp m' = em_Timestamp m \<and>
    map_option map_of (em_Headers m') = map_option map_of (em_Headers m)"
proof -
  have "map_of (sort_headers ms) = map_of ms" if "em_Headers m = Some ms" for ms
    using assms(2) that by (intro map_of_inject_set [THEN iffD2]) (simp_all add: sort_headers_def)
  then have h: "map_option map_of (map_option sort_headers (em_Headers m)) = map_option map_of (em_Headers m)"
    by (cases "em_Headers m") auto
  have "envelope_ok m" using assms by (simp add: envelope_ok_def)
  then obtain s where "marshal_Message m = Some s"
    "unmarshal_redisMessage s = Some (m\<lparr>em_Headers := map_option sort_headers (em_Headers m)\<rparr>)"
    by (rule envelope_read_back)
  with h show ?thesis by simp
qed

theorem envelope_roundtrip_witness:
  "\<exists>s m'. marshal_Message (sample_envelope\<lparr>em_Headers := Some [(''b'', ''2''), (''a'', ''1'')]\<rparr>) = Some s \<and>
    unmarshal_redisMessage s = Some m' \<and> em_Value m' = Some sample_text \<and>
    map_option (\<lambda>h. map_of h ''a'') (em_Headers m') = Some (Some ''1'')"
proof -
  let ?m = "sample_envelope\<lparr>em_Headers := Some [(''b'', ''2''), (''a'', ''1'')]\<rparr>"
  have "valid_time (em_Timestamp ?m)" by (simp add: sample_envelope_def valid_time_def sample_time_def days_in_month_def)
  moreover have "utf8_valid ''a''" "utf8_valid ''b''" "utf8_valid ''1''" "utf8_valid ''2''" by (simp_all add: utf8_valid_ascii)
  ultimately obtain s m' where "marshal_Message ?m = Some s" "unmarshal_redisMessage s = Some m'"
    "em_Value m' = Some sample_text" and h: "map_option map_of (em_Headers m') = Some (map_of [(''b'', ''2''), (''a'', ''1'')])"
    using envelope_roundtrip [of ?m] by (auto simp: sample_envelope_def)
  moreover have "map_option (\<lambda>h. map_of h ''a'') (em_Headers m') = Some (Some ''1'')"
    using h by (cases "em_Headers m'") auto
  ultimately show ?thesis by blast
qed

text \<open>C12: end to end: when the delivery service has handled a record whose room has a live connection on an
  instance, what it sent to the instance's channel makes the instance put the event's text into the buffer of
  every connection it has in the room, once, and into no other buffer.\<close>

theorem record_reaches_clients:
  assumes "presence_inv (rw_store (dw_redis w))" and "Handle dw_api redisChannelPrefix m w = (None, w')"
    and "unmarshal_Event (slice (em_Value m)) = Some event" and "marshal_Event event = Some body"
    and "i \<in> live_instances (dw_redis w) (ev_RoomID event)" and "envelope_ok m"
    and "hub_inv h" and "hub_owned own h" and "room_conns h (ev_RoomID event) \<noteq> {}"
    and "\<forall>p. length (hub_send h p) < 256"
  shows "\<exists>payload h'. (channelName redisChannelPrefix i, payload) \<in> set (dw_sent w') \<and>
    consume_message (Dispatch (\<lambda>_. False)) payload h = (None, h') \<and>
    (\<forall>p. hub_send h' p = (if p \<in> room_conns h (ev_RoomID event) then hub_send h p @ [body] else hub_send h p))"
proof -
  from dw.Handle_effect [OF assms(2,1)] assms(3) obtain names s where valid: "Event_Validate event = None"
    and key: "slice (em_Key m) = ev_RoomID event" and names: "set names = live_instances (dw_redis w) (ev_RoomID event)"
    and s: "names \<noteq> [] \<longrightarrow> marshal_Message m = Some s"
    and sent: "dw_sent w' = dw_sent w @ map (\<lambda>i. (ChannelName redisChannelPrefix i, s)) names"
    by auto
  have "marshal_Message m = Some s" using s names assms(5) by (cases names) auto
  moreover obtain s' where "marshal_Message m = Some s'"
    "unmarshal_redisMessage s' = Some (m\<lparr>em_Headers := map_option sort_headers (em_Headers m)\<rparr>)"
    using assms(6) by (rule envelope_read_back)
  ultimately have "decode_payload s = Inr event" using assms(3) key by (simp add: decode_payload_def)
  then have t: "payload_text s = Some (ev_RoomID event, body)" using valid assms(4) by (simp add: payload_text_def)
  obtain h' where h': "consume_message (Dispatch (\<lambda>_. False)) s h = (None, h')"
    using consume_ok [OF assms(7,8) t assms(9)] assms(10) by (auto simp: sendCap_def)
  from hub.consume_delivers [OF h', of own] assms(7,8) t
  have "\<forall>p. hub_send h' p = (if p \<in> room_conns h (ev_RoomID event) then hub_send h p @ [body] else hub_send h p)" by simp
  moreover have "(channelName redisChannelPrefix i, s) \<in> set (dw_sent w')"
    using sent names assms(5) by (simp add: ChannelName_def channelName_def)
  ultimately show ?thesis using h' by blast
qed

theorem record_reaches_clients_witness:
  "\<exists>w' payload h'. Handle dw_api redisChannelPrefix (message_of sample_message) sample_world = (None, w') \<and>
    (''instance:ws1'', payload) \<in> set (dw_sent w') \<and>
    consume_message (Dispatch (\<lambda>_. False)) payload alice_hub = (None, h') \<and> hub_send h' 1 = [sample_text]"
proof -
  obtain w' where h: "Handle dw_api redisChannelPrefix (message_of sample_message) sample_world = (None, w')"
    using sample_handle_prefix by blast
  have v: "unmarshal_Event (slice (em_Value (message_of sample_message))) = Some sample_event"
    by (simp add: message_of_def sample_message_def slice_def sample_unmarshal)
  have r: "ev_RoomID sample_event = ''general''" by (simp add: sample_event_def)
  have ok: "envelope_ok (message_of sample_message)"
    by (simp add: envelope_ok_def message_of_def sample_message_def kafkaHeaders_def valid_time_def sample_time_def days_in_month_def)
  have conns: "room_conns alice_hub ''general'' = {1}" and len: "\<And>p. hub_send alice_hub p = []"
    by (auto simp: room_conns_def hub_view_def alice_hub_rooms split: if_splits)
  from record_reaches_clients [OF sample_world_inv h v sample_marshal _ ok alice_hub_inv, of "''ws1''"] obtain payload h' where
    "(channelName redisChannelPrefix ''ws1'', payload) \<in> set (dw_sent w')"
    "consume_message (Dispatch (\<lambda>_. False)) payload alice_hub = (None, h')" "hub_send h' 1 = [sample_text]"
    by (auto simp: r sample_live conns len)
  with h show ?thesis by (auto simp: channelName_def redisChannelPrefix_def)
qed

text \<open>An instance hears what is published for the name it gives to the presence service exactly when its
  \<open>INSTANCE_NAME\<close> is unset or equal to that name.\<close>

lemma instance_hears_its_channel:
  "channelName (ccfg_ChannelPrefix (consumer_config env)) (ccfg_InstanceName (consumer_config env))
     = ChannelName redisChannelPrefix (mc_Dial (GetCfg env)) \<longleftrightarrow>
   (case env ''INSTANCE_NAME'' of None \<Rightarrow> True | Some i \<Rightarrow> i = mc_Dial (GetCfg env))"
  by (simp add: consumer_config_def channelName_def ChannelName_def ms_GetEnv_def split: option.split)

end
