(* ===== verification/Migrations.thy ===== *)
theory Migrations
  imports Message_Store Envelope
begin

text \<open>
  The schema migrations of the message service (\<^verbatim>\<open>message_service/infra/postgres/migrate.go\<close>). The schema and the effect of
  an SQL statement on it are parameters; the table of applied versions is modelled. Every file is applied in one
  transaction under an advisory lock, so that the calls of several starting instances follow one another.
\<close>

subsection \<open>The program\<close>

record 'd mig_db =
  mg_schema :: 'd
  mg_table :: "(int \<times> string) list option"

text \<open>\<^verbatim>\<open>CREATE TABLE IF NOT EXISTS\<close> starts with an empty table.\<close>

definition applied_rows :: "'d mig_db \<Rightarrow> (int \<times> string) list" where
  "applied_rows db = (case mg_table db of None \<Rightarrow> [] | Some t \<Rightarrow> t)"

lemma applied_rows_Some [simp]: "mg_table db = Some t \<Longrightarrow> applied_rows db = t"
  by (simp add: applied_rows_def)

datatype mig_call = MBegin | MLock | MCreate | MCheck | MCommitCheck | MExec nat | MRecord | MCommit

datatype mig_error =
    PoolRequired | DirectoryRequired | ReadDirFailed | BadName string | BadVersion string | SharedVersion string string int
  | NoMigrations | ReadFileFailed string | MigrationFailed mig_call string

definition migrationVersion :: "string \<Rightarrow> mig_error + int" where
  "migrationVersion name =
     (case Cut name (CHR ''_'') of
        None \<Rightarrow> Inl (BadName name)
      | Some (prefix, _) \<Rightarrow>
          (case ParseInt prefix of
             None \<Rightarrow> Inl (BadVersion name)
           | Some version \<Rightarrow> if version < 1 then Inl (BadVersion name) else Inr version))"

text \<open>The loop over the directory: names, each with whether it is a directory.\<close>

fun collect_files :: "(string \<times> bool) list \<Rightarrow> (int \<times> string) list \<Rightarrow> string list \<Rightarrow> mig_error + string list" where
  "collect_files [] versions files = Inr files"
| "collect_files ((name, is_dir) # entries) versions files =
     (if \<not> is_dir \<and> HasSuffix name ''.up.sql'' then
        (case migrationVersion name of
           Inl e \<Rightarrow> Inl e
         | Inr version \<Rightarrow>
             (case map_of versions version of
                Some previous \<Rightarrow> Inl (SharedVersion previous name version)
              | None \<Rightarrow> collect_files entries ((version, name) # versions) (files @ [name])))
      else collect_files entries versions files)"

definition load_files :: "bool \<Rightarrow> string \<Rightarrow> (string \<times> bool) list option \<Rightarrow> mig_error + string list" where
  "load_files pool directory entries =
     (if \<not> pool then Inl PoolRequired
      else if TrimSpace directory = [] then Inl DirectoryRequired
      else case entries of
        None \<Rightarrow> Inl ReadDirFailed
      | Some es \<Rightarrow>
          (case collect_files es [] [] of
             Inl e \<Rightarrow> Inl e
           | Inr files \<Rightarrow> if files = [] then Inl NoMigrations else Inr (sort_by bytes_le files)))"

definition statements :: "string \<Rightarrow> string list" where
  "statements migration = filter (\<lambda>s. s \<noteq> []) (map TrimSpace (Split (CHR '';'') migration))"

text \<open>The index of the statement that fails, or the schema after all of them.\<close>

fun exec_statements ::
  "(string \<Rightarrow> 'd \<Rightarrow> 'd option) \<Rightarrow> (mig_call \<Rightarrow> outcome) \<Rightarrow> nat \<Rightarrow> string list \<Rightarrow> 'd \<Rightarrow> nat + 'd" where
  "exec_statements exec oc n [] d = Inr d"
| "exec_statements exec oc n (s # ss) d =
     (if oc (MExec n) \<noteq> Done then Inl n
      else case exec s d of None \<Rightarrow> Inl n | Some d1 \<Rightarrow> exec_statements exec oc (Suc n) ss d1)"

definition applyMigration ::
  "(string \<Rightarrow> 'd \<Rightarrow> 'd option) \<Rightarrow> (mig_call \<Rightarrow> outcome) \<Rightarrow> int \<Rightarrow> string \<Rightarrow> string \<Rightarrow> 'd mig_db \<Rightarrow> mig_error option \<times> 'd mig_db" where
  "applyMigration exec oc version name migration db =
     (if oc MBegin \<noteq> Done then (Some (MigrationFailed MBegin name), db)
      else if oc MLock \<noteq> Done then (Some (MigrationFailed MLock name), db)
      else if oc MCreate \<noteq> Done then (Some (MigrationFailed MCreate name), db)
      else let table = applied_rows db; tx = db\<lparr>mg_table := Some table\<rparr> in
        if oc MCheck \<noteq> Done then (Some (MigrationFailed MCheck name), db)
        else if version \<in> fst ` set table then
          (case oc MCommitCheck of
             Done \<Rightarrow> (None, tx)
           | Broken \<Rightarrow> (Some (MigrationFailed MCommitCheck name), db)
           | BrokenAfter \<Rightarrow> (Some (MigrationFailed MCommitCheck name), tx))
        else case exec_statements exec oc 0 (statements migration) (mg_schema tx) of
          Inl n \<Rightarrow> (Some (MigrationFailed (MExec n) name), db)
        | Inr schema \<Rightarrow>
            if oc MRecord \<noteq> Done then (Some (MigrationFailed MRecord name), db)
            else let tx1 = tx\<lparr>mg_schema := schema, mg_table := Some (table @ [(version, name)])\<rparr> in
              case oc MCommit of
                Done \<Rightarrow> (None, tx1)
              | Broken \<Rightarrow> (Some (MigrationFailed MCommit name), db)
              | BrokenAfter \<Rightarrow> (Some (MigrationFailed MCommit name), tx1))"

text \<open>One turn of the loop over the sorted files, and the loop.\<close>

definition run_file ::
  "(string \<Rightarrow> 'd \<Rightarrow> 'd option) \<Rightarrow> (string \<Rightarrow> string option) \<Rightarrow> (mig_call \<Rightarrow> outcome) \<Rightarrow> string \<Rightarrow> 'd mig_db \<Rightarrow> mig_error option \<times> 'd mig_db" where
  "run_file exec readfile oc name db =
     (case migrationVersion name of
        Inl e \<Rightarrow> (Some e, db)
      | Inr version \<Rightarrow>
          (case readfile name of
             None \<Rightarrow> (Some (ReadFileFailed name), db)
           | Some migration \<Rightarrow> applyMigration exec oc version name migration db))"

fun run_files ::
  "(string \<Rightarrow> 'd \<Rightarrow> 'd option) \<Rightarrow> (string \<Rightarrow> string option) \<Rightarrow> (nat \<Rightarrow> mig_call \<Rightarrow> outcome) \<Rightarrow> nat \<Rightarrow> string list \<Rightarrow> 'd mig_db
     \<Rightarrow> mig_error option \<times> 'd mig_db" where
  "run_files exec readfile ocs n [] db = (None, db)"
| "run_files exec readfile ocs n (name # names) db =
     (case run_file exec readfile (ocs n) name db of
        (Some e, db1) \<Rightarrow> (Some e, db1)
      | (None, db1) \<Rightarrow> run_files exec readfile ocs (Suc n) names db1)"

definition RunMigrations ::
  "(string \<Rightarrow> 'd \<Rightarrow> 'd option) \<Rightarrow> (string \<Rightarrow> string option) \<Rightarrow> (nat \<Rightarrow> mig_call \<Rightarrow> outcome) \<Rightarrow> bool \<Rightarrow> string \<Rightarrow> (string \<times> bool) list option
     \<Rightarrow> 'd mig_db \<Rightarrow> mig_error option \<times> 'd mig_db" where
  "RunMigrations exec readfile ocs pool directory entries db =
     (case load_files pool directory entries of
        Inl e \<Rightarrow> (Some e, db)
      | Inr files \<Rightarrow> run_files exec readfile ocs 0 files db)"

subsection \<open>The specification\<close>

text \<open>The schema after the statements of the files not recorded yet, in order, each file recorded with them.\<close>

fun run_all :: "(string \<Rightarrow> 'd \<Rightarrow> 'd option) \<Rightarrow> string list \<Rightarrow> 'd \<Rightarrow> 'd option" where
  "run_all exec [] d = Some d"
| "run_all exec (s # ss) d = Option.bind (exec s d) (run_all exec ss)"

definition recorded :: "'d mig_db \<Rightarrow> int set" where
  "recorded db = fst ` set (applied_rows db)"

definition migrate_file :: "(string \<Rightarrow> 'd \<Rightarrow> 'd option) \<Rightarrow> (string \<Rightarrow> string) \<Rightarrow> int \<times> string \<Rightarrow> 'd mig_db \<Rightarrow> 'd mig_db option" where
  "migrate_file exec content f db =
     (let table = applied_rows db in
      if fst f \<in> fst ` set table then Some (db\<lparr>mg_table := Some table\<rparr>)
      else map_option (\<lambda>d. \<lparr>mg_schema = d, mg_table = Some (table @ [f])\<rparr>) (run_all exec (statements (content (snd f))) (mg_schema db)))"

fun migrate_files :: "(string \<Rightarrow> 'd \<Rightarrow> 'd option) \<Rightarrow> (string \<Rightarrow> string) \<Rightarrow> (int \<times> string) list \<Rightarrow> 'd mig_db \<Rightarrow> 'd mig_db option" where
  "migrate_files exec content [] db = Some db"
| "migrate_files exec content (f # fs) db = Option.bind (migrate_file exec content f db) (migrate_files exec content fs)"

subsection \<open>A file is applied whole or not at all\<close>

lemma exec_statements_run_all:
  "exec_statements exec oc n ss d = Inr d' \<Longrightarrow> run_all exec ss d = Some d'"
  by (induction exec oc n ss d rule: exec_statements.induct) (auto split: if_splits option.splits)

lemma applyMigration_whole:
  fixes db :: "'d mig_db"
  assumes "applyMigration exec oc version name (content name) db = (e, db')"
  shows "(e = None \<longrightarrow> migrate_file exec content (version, name) db = Some db') \<and>
    (db' = db \<or> migrate_file exec content (version, name) db = Some db')"
  using assms
  by (auto simp: applyMigration_def migrate_file_def Let_def mig_db.defs split: if_splits option.splits sum.splits outcome.splits
      dest!: exec_statements_run_all)

definition version_of :: "string \<Rightarrow> int" where
  "version_of name = (case migrationVersion name of Inl _ \<Rightarrow> 0 | Inr v \<Rightarrow> v)"

definition with_versions :: "string list \<Rightarrow> (int \<times> string) list" where
  "with_versions files = map (\<lambda>name. (version_of name, name)) files"

lemma run_file_whole:
  assumes "run_file exec readfile oc name db = (e, db')" and "\<forall>m. readfile name = Some m \<longrightarrow> m = content name"
  shows "(e = None \<longrightarrow> migrate_file exec content (version_of name, name) db = Some db') \<and>
    (db' = db \<or> migrate_file exec content (version_of name, name) db = Some db')"
proof (cases "migrationVersion name")
  case (Inl x)
  with assms(1) show ?thesis by (auto simp: run_file_def)
next
  case (Inr v)
  show ?thesis
  proof (cases "readfile name")
    case None
    with assms(1) Inr show ?thesis by (auto simp: run_file_def)
  next
    case (Some m)
    then have "applyMigration exec oc v name (content name) db = (e, db')" using assms Inr by (simp add: run_file_def)
    from applyMigration_whole [of exec oc v name content, OF this] Inr show ?thesis by (simp add: version_of_def)
  qed
qed

text \<open>A file that is recorded is skipped.\<close>

lemma migrate_file_recorded: "\<lbrakk>fst f \<in> recorded db; mg_table db \<noteq> None\<rbrakk> \<Longrightarrow> migrate_file exec content f db = Some db"
  by (auto simp: migrate_file_def recorded_def)

lemma migrate_file_records:
  "migrate_file exec content f db = Some db' \<Longrightarrow> recorded db' = insert (fst f) (recorded db) \<and> mg_table db' \<noteq> None"
  by (auto simp: migrate_file_def recorded_def Let_def rev_image_eqI split: if_splits)

lemma migrate_files_records:
  "migrate_files exec content fs db = Some db' \<Longrightarrow> recorded db' = fst ` set fs \<union> recorded db \<and> (fs = [] \<or> mg_table db' \<noteq> None)"
proof (induction fs arbitrary: db)
  case (Cons f fs)
  then obtain db1 where m: "migrate_file exec content f db = Some db1" "migrate_files exec content fs db1 = Some db'"
    by (auto split: Option.bind_splits)
  from Cons.IH [OF m(2)] migrate_file_records [OF m(1)] m(2) show ?case by auto
qed simp

lemma migrate_files_append:
  "migrate_files exec content (fs @ gs) db = Option.bind (migrate_files exec content fs db) (migrate_files exec content gs)"
  by (induction fs arbitrary: db) (auto split: Option.bind_splits)

lemma migrate_files_done:
  assumes "migrate_files exec content (take k fs) db0 = Some db" and "n < k" and "n < length fs"
  shows "migrate_file exec content (fs ! n) db = Some db"
proof -
  have mem: "fs ! n \<in> set (take k fs)" using assms(2,3) by (auto simp: in_set_conv_nth intro!: exI [of _ n])
  then have "take k fs \<noteq> []" by (metis empty_iff empty_set)
  with migrate_files_records [OF assms(1)] mem show ?thesis by (intro migrate_file_recorded) auto
qed

lemma migrate_files_next:
  assumes "migrate_files exec content (take k fs) db0 = Some db" and "k < length fs"
    and "migrate_file exec content (fs ! k) db = Some db'"
  shows "migrate_files exec content (take (Suc k) fs) db0 = Some db'"
  using assms by (simp add: take_Suc_conv_app_nth migrate_files_append)

subsection \<open>Several instances start\<close>

text \<open>
  An instance of the service is before one of the files, or its run has failed; then it may be started again.
  The advisory lock makes the application of a file one step.
\<close>

datatype mig_state = AtFile nat | MigFailed mig_error

record 'd mig_world =
  mw_db :: "'d mig_db"
  mw_at :: "nat \<Rightarrow> mig_state"

inductive mig_step :: "(string \<Rightarrow> 'd \<Rightarrow> 'd option) \<Rightarrow> (string \<Rightarrow> string) \<Rightarrow> string list \<Rightarrow> 'd mig_world \<Rightarrow> 'd mig_world \<Rightarrow> bool"
  for exec content files where
  mig_applied: "\<lbrakk>mw_at x i = AtFile n; n < length files; \<forall>name m. readfile name = Some m \<longrightarrow> m = content name;
      run_file exec readfile oc (files ! n) (mw_db x) = (None, db')\<rbrakk> \<Longrightarrow>
    mig_step exec content files x (x\<lparr>mw_db := db', mw_at := (mw_at x)(i := AtFile (Suc n))\<rparr>)"
| mig_failed: "\<lbrakk>mw_at x i = AtFile n; n < length files; \<forall>name m. readfile name = Some m \<longrightarrow> m = content name;
      run_file exec readfile oc (files ! n) (mw_db x) = (Some e, db')\<rbrakk> \<Longrightarrow>
    mig_step exec content files x (x\<lparr>mw_db := db', mw_at := (mw_at x)(i := MigFailed e)\<rparr>)"
| mig_restart: "mw_at x i = MigFailed e \<Longrightarrow> mig_step exec content files x (x\<lparr>mw_at := (mw_at x)(i := AtFile 0)\<rparr>)"

definition mig_start :: "'d mig_db \<Rightarrow> 'd mig_world" where
  "mig_start db = \<lparr>mw_db = db, mw_at = (\<lambda>_. AtFile 0)\<rparr>"

definition mig_at :: "(string \<Rightarrow> 'd \<Rightarrow> 'd option) \<Rightarrow> (string \<Rightarrow> string) \<Rightarrow> string list \<Rightarrow> 'd mig_db \<Rightarrow> nat \<Rightarrow> 'd mig_world \<Rightarrow> bool" where
  "mig_at exec content files db0 k x \<longleftrightarrow> k \<le> length files \<and> (\<forall>i n. mw_at x i = AtFile n \<longrightarrow> n \<le> k) \<and>
     migrate_files exec content (take k (with_versions files)) db0 = Some (mw_db x)"

lemma with_versions_nth: "n < length files \<Longrightarrow> with_versions files ! n = (version_of (files ! n), files ! n)"
  by (simp add: with_versions_def)

lemma length_with_versions [simp]: "length (with_versions files) = length files"
  by (simp add: with_versions_def)

text \<open>What applying the file of an instance's position does to the common progress.\<close>

lemma mig_progress:
  assumes "mig_at exec content files db0 k x" and "mw_at x i = AtFile n" and "n < length files"
    and "migrate_file exec content (version_of (files ! n), files ! n) (mw_db x) = Some db'"
  shows "\<exists>j. k \<le> j \<and> Suc n \<le> j \<and> j \<le> length files \<and> migrate_files exec content (take j (with_versions files)) db0 = Some db'"
proof -
  have k: "k \<le> length files" "n \<le> k" "migrate_files exec content (take k (with_versions files)) db0 = Some (mw_db x)"
    using assms(1,2) by (auto simp: mig_at_def)
  show ?thesis
  proof (cases "n < k")
    case True
    with migrate_files_done [OF k(3) True] assms(3,4) k show ?thesis by (intro exI [of _ k]) (simp add: with_versions_nth)
  next
    case False
    with k(2) have "n = k" by simp
    with migrate_files_next [OF k(3), of db'] assms(3,4) show ?thesis by (intro exI [of _ "Suc k"]) (simp add: with_versions_nth)
  qed
qed

lemma mig_step_at:
  assumes "mig_step exec content files x y" and "mig_at exec content files db0 k x"
  shows "\<exists>j. mig_at exec content files db0 j y"
  using assms
proof (induction rule: mig_step.induct)
  case (mig_applied x i n readfile oc db')
  from run_file_whole [OF mig_applied(4)] mig_applied(3)
  have "migrate_file exec content (version_of (files ! n), files ! n) (mw_db x) = Some db'" by blast
  from mig_progress [OF mig_applied(5,1,2) this] obtain j where "k \<le> j" "Suc n \<le> j" "j \<le> length files"
    "migrate_files exec content (take j (with_versions files)) db0 = Some db'" by blast
  with mig_applied(5) have "mig_at exec content files db0 j (x\<lparr>mw_db := db', mw_at := (mw_at x)(i := AtFile (Suc n))\<rparr>)"
    by (fastforce simp: mig_at_def)
  then show ?case by blast
next
  case (mig_failed x i n readfile oc e db')
  from run_file_whole [OF mig_failed(4)] mig_failed(3)
  have "db' = mw_db x \<or> migrate_file exec content (version_of (files ! n), files ! n) (mw_db x) = Some db'" by blast
  then show ?case
  proof
    assume "db' = mw_db x"
    with mig_failed(5) have "mig_at exec content files db0 k (x\<lparr>mw_db := db', mw_at := (mw_at x)(i := MigFailed e)\<rparr>)"
      by (auto simp: mig_at_def)
    then show ?case by blast
  next
    assume "migrate_file exec content (version_of (files ! n), files ! n) (mw_db x) = Some db'"
    from mig_progress [OF mig_failed(5,1,2) this] obtain j where "k \<le> j" "j \<le> length files"
      "migrate_files exec content (take j (with_versions files)) db0 = Some db'" by blast
    with mig_failed(5) have "mig_at exec content files db0 j (x\<lparr>mw_db := db', mw_at := (mw_at x)(i := MigFailed e)\<rparr>)"
      by (fastforce simp: mig_at_def)
    then show ?case by blast
  qed
next
  case (mig_restart x i e)
  then have "mig_at exec content files db0 k (x\<lparr>mw_at := (mw_at x)(i := AtFile 0)\<rparr>)" by (auto simp: mig_at_def)
  then show ?case by blast
qed

lemma mig_steps_at:
  "(mig_step exec content files)\<^sup>*\<^sup>* (mig_start db0) x \<Longrightarrow> \<exists>k. mig_at exec content files db0 k x"
proof (induction rule: rtranclp_induct)
  case base
  have "mig_at exec content files db0 0 (mig_start db0)" by (simp add: mig_at_def mig_start_def)
  then show ?case by blast
next
  case (step y z)
  then show ?case using mig_step_at by blast
qed

text \<open>The files of a directory are read once each and have different versions.\<close>

lemma collect_files_versions:
  assumes "collect_files entries versions files = Inr fs" and "map snd versions = rev files"
    and "map fst versions = rev (map version_of files)" and "distinct (map fst versions)"
  shows "distinct (map version_of fs) \<and> (\<forall>name \<in> set fs. name \<in> set files \<or> migrationVersion name = Inr (version_of name))"
  using assms
proof (induction entries versions files rule: collect_files.induct)
  case (2 name is_dir entries versions files)
  show ?case
  proof (cases "\<not> is_dir \<and> HasSuffix name ''.up.sql''")
    case True
    then obtain v where v: "migrationVersion name = Inr v" "map_of versions v = None"
      "collect_files entries ((v, name) # versions) (files @ [name]) = Inr fs"
      using "2.prems"(1) by (auto split: sum.splits option.splits)
    have vo: "version_of name = v" using v(1) by (simp add: version_of_def)
    have "fst ` set versions = version_of ` set files" using arg_cong [OF "2.prems"(3), of set] by simp
    then have "v \<notin> version_of ` set files" using v(2) by (simp add: map_of_eq_None_iff)
    then have "distinct (map version_of fs) \<and> (\<forall>nm \<in> set fs. nm \<in> set (files @ [name]) \<or> migrationVersion nm = Inr (version_of nm))"
      using "2.IH"(1) [OF True v(1,2,3)] "2.prems" vo by simp
    with v(1) vo show ?thesis by auto
  next
    case False
    have "collect_files entries versions files = Inr fs" using "2.prems"(1) False by auto
    from "2.IH"(2) [OF False this] "2.prems"(2-4) show ?thesis by simp
  qed
next
  case (1 versions files)
  then have "distinct (rev (map version_of fs))" by simp
  then show ?case using 1 by simp
qed

lemma load_files_versions:
  assumes "load_files pool directory entries = Inr files"
  shows "distinct (map version_of files) \<and> files \<noteq> [] \<and> (\<forall>name \<in> set files. migrationVersion name = Inr (version_of name))"
proof -
  obtain es fs where fs: "collect_files es [] [] = Inr fs" "fs \<noteq> []" "files = sort_by bytes_le fs"
    using assms by (auto simp: load_files_def split: if_splits option.splits sum.splits)
  have m: "mset files = mset fs" by (simp add: fs(3))
  from collect_files_versions [OF fs(1)] have c: "distinct (map version_of fs)" "\<forall>name \<in> set fs. migrationVersion name = Inr (version_of name)"
    by simp_all
  have "mset (map version_of files) = mset (map version_of fs)" by (simp add: m)
  then have "distinct (map version_of files)" using c(1) by (metis mset_eq_imp_distinct_iff)
  moreover have "set files = set fs" using m by (metis set_mset_mset)
  ultimately show ?thesis using c(2) fs(2) by (metis set_empty)
qed

text \<open>C31: however many instances start at once, fail at any call and start again, the database always is that after
  a prefix of the files, each file whole: its statements run once, in the order of the names, and its version
  recorded with them. An instance that gets through its run leaves all files applied.\<close>

theorem migrations_converge:
  assumes "load_files pool directory entries = Inr files" and "(mig_step exec content files)\<^sup>*\<^sup>* (mig_start db0) x"
  shows "(\<exists>k \<le> length files. migrate_files exec content (take k (with_versions files)) db0 = Some (mw_db x)) \<and>
    (mw_at x i = AtFile (length files) \<longrightarrow> migrate_files exec content (with_versions files) db0 = Some (mw_db x) \<and>
      recorded (mw_db x) = version_of ` set files \<union> recorded db0) \<and> distinct (map version_of files)"
proof -
  obtain k where k: "mig_at exec content files db0 k x" using mig_steps_at [OF assms(2)] by blast
  then have "\<exists>k \<le> length files. migrate_files exec content (take k (with_versions files)) db0 = Some (mw_db x)"
    by (auto simp: mig_at_def)
  moreover have "migrate_files exec content (with_versions files) db0 = Some (mw_db x)" if "mw_at x i = AtFile (length files)"
  proof -
    have "k = length files" using k that by (fastforce simp: mig_at_def)
    with k show ?thesis by (simp add: mig_at_def)
  qed
  moreover have "recorded (mw_db x) = version_of ` set files \<union> recorded db0"
    if "migrate_files exec content (with_versions files) db0 = Some (mw_db x)"
    using migrate_files_records [OF that] by (simp add: with_versions_def image_image)
  ultimately show ?thesis using load_files_versions [OF assms(1)] by blast
qed

text \<open>Two instances over one file: the first is through, the second still before it.\<close>

definition demo_exec :: "string \<Rightarrow> nat \<Rightarrow> nat option" where
  "demo_exec s d = Some (Suc d)"

lemma demo_files: "load_files True ''m'' (Some [(''1_init.up.sql'', False)]) = Inr [''1_init.up.sql'']"
  by code_simp

lemma demo_run:
  "run_file demo_exec (\<lambda>_. Some ''a;b'') (\<lambda>_. Done) ''1_init.up.sql'' \<lparr>mg_schema = 0, mg_table = None\<rparr> =
     (None, \<lparr>mg_schema = 2, mg_table = Some [(1, ''1_init.up.sql'')]\<rparr>)"
  by code_simp

theorem migrations_converge_witness:
  "\<exists>x. (mig_step demo_exec (\<lambda>_. ''a;b'') [''1_init.up.sql''])\<^sup>*\<^sup>* (mig_start \<lparr>mg_schema = 0, mg_table = None\<rparr>) x \<and>
     mw_at x 0 = AtFile 1 \<and> mw_at x 1 = AtFile 0 \<and> recorded (mw_db x) = {1}"
proof -
  let ?s = "mig_start \<lparr>mg_schema = 0 :: nat, mg_table = None\<rparr>"
  let ?x = "?s\<lparr>mw_db := \<lparr>mg_schema = 2 :: nat, mg_table = Some [(1, ''1_init.up.sql'')]\<rparr>, mw_at := (mw_at ?s)(0 := AtFile (Suc 0))\<rparr>"
  have "mig_step demo_exec (\<lambda>_. ''a;b'') [''1_init.up.sql''] ?s ?x"
    by (rule mig_applied [where readfile = "\<lambda>_. Some ''a;b''" and oc = "\<lambda>_. Done"]) (simp_all add: mig_start_def demo_run)
  then have st: "(mig_step demo_exec (\<lambda>_. ''a;b'') [''1_init.up.sql''])\<^sup>*\<^sup>* ?s ?x" by blast
  have "version_of ''1_init.up.sql'' = 1" by code_simp
  then have "recorded (mw_db ?x) = {1}"
    using migrations_converge [OF demo_files st, of 0] by (simp add: mig_start_def recorded_def applied_rows_def)
  with st show ?thesis by (intro exI [of _ ?x]) (simp add: mig_start_def)
qed

text \<open>The whole run of one instance alone.\<close>

lemma run_files_result:
  assumes "run_files exec readfile ocs n files db = (None, db')" and "\<forall>name m. readfile name = Some m \<longrightarrow> m = content name"
  shows "migrate_files exec content (with_versions files) db = Some db'"
  using assms(1)
proof (induction files arbitrary: n db)
  case (Cons name names)
  obtain db1 where r: "run_file exec readfile (ocs n) name db = (None, db1)" "run_files exec readfile ocs (Suc n) names db1 = (None, db')"
    using Cons.prems by (auto split: prod.splits option.splits)
  have "migrate_file exec content (version_of name, name) db = Some db1"
    using run_file_whole [OF r(1), of content] assms(2) by simp
  with Cons.IH [OF r(2)] show ?case by (simp add: with_versions_def)
qed (simp add: with_versions_def)

lemma RunMigrations_result:
  assumes "RunMigrations exec readfile ocs pool directory entries db = (None, db')" and "\<forall>name m. readfile name = Some m \<longrightarrow> m = content name"
  shows "\<exists>files. load_files pool directory entries = Inr files \<and> migrate_files exec content (with_versions files) db = Some db'"
  using assms run_files_result by (auto simp: RunMigrations_def split: sum.splits)

text \<open>The order is that of the names, not of the versions.\<close>

lemma migrations_by_name:
  "load_files True ''m'' (Some [(''10_add.up.sql'', False), (''2_init.up.sql'', False)]) = Inr [''10_add.up.sql'', ''2_init.up.sql'']"
  by code_simp

end
