(* ===== verification/Single_Store.thy ===== *)
theory Single_Store
  imports Wire_Roundtrip Message_Store
begin

text \<open>
  The single-process variant of the chat (\<^verbatim>\<open>single-instance/internal\<close>): its storage
  (\<^verbatim>\<open>storage/messages.go\<close>, \<^verbatim>\<open>storage/outbox.go\<close>, \<^verbatim>\<open>storage/rooms.go\<close>, \<^verbatim>\<open>storage/users.go\<close>), the service that
  accepts messages (\<^verbatim>\<open>chat/service.go\<close>) and the relay that drains the outbox into the hub
  (\<^verbatim>\<open>outbox/relay.go\<close>). A failed transaction leaves the tables as they were, but not the sequences.
\<close>

subsection \<open>Tables\<close>

record chat_message =
  sm_ID :: int
  sm_RoomID :: string
  sm_UserID :: string
  sm_Body :: string
  sm_CreatedAt :: gotime

record named_row =
  nr_id :: string
  nr_name :: string
  nr_created_at :: gotime

record outbox_event_row =
  so_id :: int
  so_room_id :: string
  so_payload :: bytes
  so_dispatched :: bool

record s_db =
  sd_users :: "named_row list"
  sd_rooms :: "named_row list"
  sd_messages :: "chat_message list"
  sd_outbox :: "outbox_event_row list"
  sd_msg_seq :: int
  sd_out_seq :: int

record OutboxEvent =
  oe_ID :: int
  oe_RoomID :: string
  oe_Message :: chat_message

datatype s_call = SBegin | SInsert | SEnqueue | SCommit | SClaim | SMark | SQuery | SCreate

text \<open>
  The database's side of a call: whether it works, its clock, the identifiers it generates, and how it reads
  a text as a \<^verbatim>\<open>uuid\<close> (in canonical form) or as \<^verbatim>\<open>jsonb\<close>.
\<close>

record s_env =
  se_outcome :: "s_call \<Rightarrow> outcome"
  se_now :: gotime
  se_gen_uuid :: string
  se_uuid_in :: "string \<Rightarrow> string option"
  se_jsonb_in :: "bytes \<Rightarrow> bytes option"

text \<open>\<open>HubWaits\<close> is no error of the code: a hand-over to the hub that is not taken, so that the call has not returned.\<close>

datatype s_error =
    EmptyBody | BodyTooLong | MissingUserID | BeginTxFailed | CommitTxFailed | InsertMessageFailed
  | MarshalPayloadFailed | EnqueueFailed | ClaimFailed | DecodePayloadFailed int | MarkFailed
  | QueryFailed | CreateFailed | HubWaits

subsection \<open>Texts\<close>

definition marshal_chat :: "chat_message \<Rightarrow> bytes option" where
  "marshal_chat m =
     Option.bind (marshal_time (sm_CreatedAt m)) (\<lambda>t.
       Some (object_text [(''id'', show_int (sm_ID m)), (''room_id'', quote (sm_RoomID m)),
         (''user_id'', quote (sm_UserID m)), (''body'', quote (sm_Body m)), (''created_at'', t)]))"

definition zero_chat :: chat_message where
  "zero_chat = \<lparr>sm_ID = 0, sm_RoomID = [], sm_UserID = [], sm_Body = [], sm_CreatedAt = zero_time\<rparr>"

definition decode_chat :: "(string \<times> string) list \<Rightarrow> chat_message option" where
  "decode_chat ms =
     Option.bind (field decode_int 0 ''id'' ms) (\<lambda>i.
     Option.bind (field decode_string [] ''room_id'' ms) (\<lambda>r.
     Option.bind (field decode_string [] ''user_id'' ms) (\<lambda>u.
     Option.bind (field decode_string [] ''body'' ms) (\<lambda>b.
     Option.bind (field decode_time zero_time ''created_at'' ms) (\<lambda>t.
       Some \<lparr>sm_ID = i, sm_RoomID = r, sm_UserID = u, sm_Body = b, sm_CreatedAt = t\<rparr>)))))"

definition unmarshal_chat :: "bytes \<Rightarrow> chat_message option" where
  "unmarshal_chat = unmarshal decode_chat zero_chat"

subsection \<open>Transactions\<close>

definition rollback :: "s_db \<Rightarrow> s_db \<Rightarrow> s_db" where
  "rollback old new = old\<lparr>sd_msg_seq := sd_msg_seq new, sd_out_seq := sd_out_seq new\<rparr>"

text \<open>The second component of a transaction's state is what it does outside the database.\<close>

definition WithTx ::
  "s_env \<Rightarrow> (s_db \<Rightarrow> 'w \<Rightarrow> s_error option \<times> s_db \<times> 'w) \<Rightarrow> s_db \<Rightarrow> 'w \<Rightarrow> s_error option \<times> s_db \<times> 'w" where
  "WithTx env fn db w =
     (if se_outcome env SBegin \<noteq> Done then (Some BeginTxFailed, db, w)
      else case fn db w of
        (Some e, db1, w1) \<Rightarrow> (Some e, rollback db db1, w1)
      | (None, db1, w1) \<Rightarrow>
          (case se_outcome env SCommit of
             Done \<Rightarrow> (None, db1, w1)
           | Broken \<Rightarrow> (Some CommitTxFailed, rollback db db1, w1)
           | BrokenAfter \<Rightarrow> (Some CommitTxFailed, db1, w1)))"

definition InsertMessage :: "s_env \<Rightarrow> chat_message \<Rightarrow> s_db \<Rightarrow> (s_error + chat_message) \<times> s_db" where
  "InsertMessage env m db =
     (if se_outcome env SInsert \<noteq> Done then (Inl InsertMessageFailed, db)
      else case (se_uuid_in env (sm_RoomID m), se_uuid_in env (sm_UserID m)) of
        (Some r, Some u) \<Rightarrow>
          (let n = sd_msg_seq db + 1; db1 = db\<lparr>sd_msg_seq := n\<rparr> in
           if n > int64_max then (Inl InsertMessageFailed, db)
           else if r \<in> nr_id ` set (sd_rooms db) \<and> u \<in> nr_id ` set (sd_users db)
           then (Inr (m\<lparr>sm_ID := n, sm_CreatedAt := se_now env\<rparr>),
                 db1\<lparr>sd_messages := sd_messages db @
                   [\<lparr>sm_ID = n, sm_RoomID = r, sm_UserID = u, sm_Body = sm_Body m, sm_CreatedAt = se_now env\<rparr>]\<rparr>)
           else (Inl InsertMessageFailed, db1))
      | _ \<Rightarrow> (Inl InsertMessageFailed, db))"

definition EnqueueOutbox :: "s_env \<Rightarrow> string \<Rightarrow> bytes \<Rightarrow> s_db \<Rightarrow> s_error option \<times> s_db" where
  "EnqueueOutbox env roomID payload db =
     (if se_outcome env SEnqueue \<noteq> Done then (Some EnqueueFailed, db)
      else case (se_uuid_in env roomID, se_jsonb_in env payload) of
        (Some r, Some p) \<Rightarrow>
          (let n = sd_out_seq db + 1 in
           if n > int64_max then (Some EnqueueFailed, db)
           else (None, db\<lparr>sd_out_seq := n,
                          sd_outbox := sd_outbox db @ [\<lparr>so_id = n, so_room_id = r, so_payload = p, so_dispatched = False\<rparr>]\<rparr>))
      | _ \<Rightarrow> (Some EnqueueFailed, db))"

subsection \<open>The service\<close>

record Incoming =
  in_UserID :: string
  in_Body :: string

definition maxBodyLen :: nat where "maxBodyLen = 4000"

definition chat_tx :: "s_env \<Rightarrow> string \<Rightarrow> chat_message \<Rightarrow> s_db \<Rightarrow> unit \<Rightarrow> s_error option \<times> s_db \<times> unit" where
  "chat_tx env roomID msg db w =
     (case InsertMessage env msg db of
        (Inl e, db1) \<Rightarrow> (Some e, db1, w)
      | (Inr m, db1) \<Rightarrow>
          (case marshal_chat m of
             None \<Rightarrow> (Some MarshalPayloadFailed, db1, w)
           | Some payload \<Rightarrow>
               (case EnqueueOutbox env roomID payload db1 of (e, db2) \<Rightarrow> (e, db2, w))))"

definition chat_HandleIncoming :: "s_env \<Rightarrow> string \<Rightarrow> Incoming \<Rightarrow> s_db \<Rightarrow> s_error option \<times> s_db" where
  "chat_HandleIncoming env roomID inc db =
     (let body = TrimSpace (in_Body inc) in
      if body = [] then (Some EmptyBody, db)
      else if length body > maxBodyLen then (Some BodyTooLong, db)
      else if in_UserID inc = [] then (Some MissingUserID, db)
      else case WithTx env (chat_tx env roomID
          \<lparr>sm_ID = 0, sm_RoomID = roomID, sm_UserID = in_UserID inc, sm_Body = body, sm_CreatedAt = zero_time\<rparr>) db () of
        (e, db1, _) \<Rightarrow> (e, db1))"

subsection \<open>Rooms, users and history\<close>

text \<open>Both tables have a unique name. When the answer of an insert is lost, the row is there.\<close>

definition insert_named :: "s_env \<Rightarrow> string \<Rightarrow> named_row list \<Rightarrow> (s_error + named_row) \<times> named_row list" where
  "insert_named env name rows =
     (let r = \<lparr>nr_id = se_gen_uuid env, nr_name = name, nr_created_at = se_now env\<rparr> in
      if name \<in> nr_name ` set rows \<or> se_gen_uuid env \<in> nr_id ` set rows then (Inl CreateFailed, rows)
      else case se_outcome env SCreate of
        Done \<Rightarrow> (Inr r, rows @ [r])
      | Broken \<Rightarrow> (Inl CreateFailed, rows)
      | BrokenAfter \<Rightarrow> (Inl CreateFailed, rows @ [r]))"

definition CreateRoom :: "s_env \<Rightarrow> string \<Rightarrow> s_db \<Rightarrow> (s_error + named_row) \<times> s_db" where
  "CreateRoom env name db = (case insert_named env name (sd_rooms db) of (res, rows) \<Rightarrow> (res, db\<lparr>sd_rooms := rows\<rparr>))"

definition CreateUser :: "s_env \<Rightarrow> string \<Rightarrow> s_db \<Rightarrow> (s_error + named_row) \<times> s_db" where
  "CreateUser env username db = (case insert_named env username (sd_users db) of (res, rows) \<Rightarrow> (res, db\<lparr>sd_users := rows\<rparr>))"

definition newest_first :: "named_row list \<Rightarrow> named_row list" where
  "newest_first rows = sort_by (\<lambda>a b. instant (nr_created_at a) \<ge> instant (nr_created_at b)) rows"

definition ListRooms :: "s_env \<Rightarrow> s_db \<Rightarrow> s_error + named_row list" where
  "ListRooms env db = (if se_outcome env SQuery \<noteq> Done then Inl QueryFailed else Inr (newest_first (sd_rooms db)))"

definition ListUsers :: "s_env \<Rightarrow> s_db \<Rightarrow> s_error + named_row list" where
  "ListUsers env db = (if se_outcome env SQuery \<noteq> Done then Inl QueryFailed else Inr (newest_first (sd_users db)))"

definition history_rows :: "string \<Rightarrow> int \<Rightarrow> nat \<Rightarrow> chat_message list \<Rightarrow> chat_message list" where
  "history_rows room before limit ms =
     take limit (sort_by (\<lambda>a b. sm_ID a \<ge> sm_ID b)
       (filter (\<lambda>m. sm_RoomID m = room \<and> (before = 0 \<or> sm_ID m < before)) ms))"

definition History :: "s_env \<Rightarrow> string \<Rightarrow> int \<Rightarrow> nat \<Rightarrow> s_db \<Rightarrow> s_error + chat_message list" where
  "History env roomID before limit db =
     (if se_outcome env SQuery \<noteq> Done then Inl QueryFailed
      else case se_uuid_in env roomID of
        None \<Rightarrow> Inl QueryFailed
      | Some room \<Rightarrow> Inr (history_rows room before limit (sd_messages db)))"

subsection \<open>The outbox\<close>

definition undispatched :: "s_db \<Rightarrow> outbox_event_row list" where
  "undispatched db = sort_by (\<lambda>a b. so_id a \<le> so_id b) (filter (\<lambda>r. \<not> so_dispatched r) (sd_outbox db))"

fun decode_rows :: "outbox_event_row list \<Rightarrow> s_error + OutboxEvent list" where
  "decode_rows [] = Inr []"
| "decode_rows (r # rs) =
     (case unmarshal_chat (so_payload r) of
        None \<Rightarrow> Inl (DecodePayloadFailed (so_id r))
      | Some m \<Rightarrow>
          (case decode_rows rs of
             Inl e \<Rightarrow> Inl e
           | Inr es \<Rightarrow> Inr (\<lparr>oe_ID = so_id r, oe_RoomID = so_room_id r, oe_Message = m\<rparr> # es)))"

definition FetchUndispatched :: "s_env \<Rightarrow> nat \<Rightarrow> s_db \<Rightarrow> s_error + OutboxEvent list" where
  "FetchUndispatched env limit db =
     (if se_outcome env SClaim \<noteq> Done then Inl ClaimFailed else decode_rows (take limit (undispatched db)))"

definition mark_ids :: "int list \<Rightarrow> s_db \<Rightarrow> s_db" where
  "mark_ids ids db = db\<lparr>sd_outbox := map (\<lambda>r. if so_id r \<in> set ids then r\<lparr>so_dispatched := True\<rparr> else r) (sd_outbox db)\<rparr>"

definition MarkDispatched :: "s_env \<Rightarrow> int list \<Rightarrow> s_db \<Rightarrow> s_error option \<times> s_db" where
  "MarkDispatched env ids db =
     (if ids = [] then (None, db)
      else case se_outcome env SMark of
        Done \<Rightarrow> (None, mark_ids ids db)
      | Broken \<Rightarrow> (Some MarkFailed, db)
      | BrokenAfter \<Rightarrow> (Some MarkFailed, mark_ids ids db))"

fun dispatch_all ::
  "(OutboxEvent \<Rightarrow> 'w \<Rightarrow> s_error option \<times> 'w) \<Rightarrow> OutboxEvent list \<Rightarrow> 'w \<Rightarrow> s_error option \<times> 'w" where
  "dispatch_all dispatch [] w = (None, w)"
| "dispatch_all dispatch (e # es) w =
     (case dispatch e w of (Some err, w1) \<Rightarrow> (Some err, w1) | (None, w1) \<Rightarrow> dispatch_all dispatch es w1)"

definition batch_tx ::
  "s_env \<Rightarrow> nat \<Rightarrow> (OutboxEvent \<Rightarrow> 'w \<Rightarrow> s_error option \<times> 'w) \<Rightarrow> s_db \<Rightarrow> 'w \<Rightarrow> s_error option \<times> s_db \<times> 'w" where
  "batch_tx env limit dispatch db w =
     (case FetchUndispatched env limit db of
        Inl e \<Rightarrow> (Some e, db, w)
      | Inr events \<Rightarrow>
          if events = [] then (None, db, w)
          else case dispatch_all dispatch events w of
            (Some e, w1) \<Rightarrow> (Some e, db, w1)
          | (None, w1) \<Rightarrow> (case MarkDispatched env (map oe_ID events) db of (e, db1) \<Rightarrow> (e, db1, w1)))"

text \<open>The number of processed events is set before the commit; it is returned with the error of a failed one.\<close>

definition DispatchBatch ::
  "s_env \<Rightarrow> nat \<Rightarrow> (OutboxEvent \<Rightarrow> 'w \<Rightarrow> s_error option \<times> 'w) \<Rightarrow> s_db \<Rightarrow> 'w
     \<Rightarrow> (nat \<times> s_error option) \<times> s_db \<times> 'w" where
  "DispatchBatch env limit dispatch db w =
     (case WithTx env (batch_tx env limit dispatch) db w of
        (e, db1, w1) \<Rightarrow>
          ((if se_outcome env SBegin = Done \<and> fst (batch_tx env limit dispatch db w) = None
            then length (take limit (undispatched db)) else 0, e), db1, w1))"

subsection \<open>The relay\<close>

definition batchSize :: nat where "batchSize = 100"

text \<open>
  The hub's \<^verbatim>\<open>Broadcast\<close>, as the sequence of envelopes the hub has taken from its unbuffered channel: \<open>takes n\<close> says
  whether it ever takes the \<open>n\<close>-th of them. \<^const>\<open>None\<close>: the send blocks for ever. A message without a text is dropped.
\<close>

definition hub_Broadcast ::
  "(nat \<Rightarrow> bool) \<Rightarrow> string \<Rightarrow> chat_message \<Rightarrow> (string \<times> bytes) list \<Rightarrow> (string \<times> bytes) list option" where
  "hub_Broadcast takes roomID m sent =
     (case marshal_chat m of
        None \<Rightarrow> Some sent
      | Some payload \<Rightarrow> if takes (length sent) then Some (sent @ [(roomID, payload)]) else None)"

text \<open>While a hand-over waits, the transaction of its batch stays open and nothing of it is visible.\<close>

definition relay_dispatch ::
  "(nat \<Rightarrow> bool) \<Rightarrow> OutboxEvent \<Rightarrow> (string \<times> bytes) list \<Rightarrow> s_error option \<times> (string \<times> bytes) list" where
  "relay_dispatch takes e sent =
     (case hub_Broadcast takes (oe_RoomID e) (oe_Message e) sent of
        None \<Rightarrow> (Some HubWaits, sent)
      | Some sent1 \<Rightarrow> (None, sent1))"

lemma decode_rows_ids: "decode_rows rs = Inr es \<Longrightarrow> map oe_ID es = map so_id rs"
  by (induction rs arbitrary: es) (auto split: option.splits sum.splits)

lemma batch_tx_mark:
  assumes "batch_tx env limit dispatch db w = (None, db1, w1)"
  shows "db1 = mark_ids (map so_id (take limit (undispatched db))) db"
proof -
  obtain events where f: "FetchUndispatched env limit db = Inr events"
    using assms by (cases "FetchUndispatched env limit db") (auto simp: batch_tx_def)
  then have ids: "map oe_ID events = map so_id (take limit (undispatched db))"
    by (auto simp: FetchUndispatched_def split: if_splits dest: decode_rows_ids)
  show ?thesis
  proof (cases "events = []")
    case True
    then have "map so_id (take limit (undispatched db)) = []" using ids by simp
    then have "mark_ids (map so_id (take limit (undispatched db))) db = db" by (simp only: mark_ids_def) simp
    then show ?thesis using assms f True by (simp add: batch_tx_def)
  next
    case False
    then show ?thesis using assms f ids
      by (auto simp: batch_tx_def MarkDispatched_def split: prod.splits option.splits if_splits outcome.splits)
  qed
qed

lemma DispatchBatch_ok:
  assumes "DispatchBatch env limit dispatch db w = ((n, None), db1, w1)"
  shows "db1 = mark_ids (map so_id (take limit (undispatched db))) db \<and> n = length (take limit (undispatched db))"
proof -
  have "batch_tx env limit dispatch db w = (None, db1, w1)" "se_outcome env SBegin = Done"
    using assms by (auto simp: DispatchBatch_def WithTx_def split: prod.splits option.splits if_splits outcome.splits)
  with batch_tx_mark show ?thesis using assms by (auto simp: DispatchBatch_def split: prod.splits)
qed

text \<open>
  \<^verbatim>\<open>drain\<close> goes on until a batch is short. One element per batch: what the other goroutines do to the database
  before it, and the outcomes of its calls. The first result is \<^const>\<open>None\<close> when the drain has not returned: it
  waits for the hub, or the batches given are all full.
\<close>

fun drain ::
  "(nat \<Rightarrow> bool) \<Rightarrow> ((s_db \<Rightarrow> s_db) \<times> s_env) list \<Rightarrow> s_db \<Rightarrow> (string \<times> bytes) list
     \<Rightarrow> s_error option option \<times> s_db \<times> (string \<times> bytes) list" where
  "drain takes [] db sent = (None, db, sent)"
| "drain takes ((others, env) # batches) db sent =
     (case DispatchBatch env batchSize (relay_dispatch takes) (others db) sent of
        ((n, Some e), db1, sent1) \<Rightarrow> (if e = HubWaits then None else Some (Some e), db1, sent1)
      | ((n, None), db1, sent1) \<Rightarrow>
          if n < batchSize then (Some None, db1, sent1) else drain takes batches db1 sent1)"

text \<open>The relay's polls; a drain that does not return is the last one.\<close>

fun s_relay_Run ::
  "(nat \<Rightarrow> bool) \<Rightarrow> ((s_db \<Rightarrow> s_db) \<times> s_env) list list \<Rightarrow> s_db \<Rightarrow> (string \<times> bytes) list \<Rightarrow> s_db \<times> (string \<times> bytes) list" where
  "s_relay_Run takes [] db sent = (db, sent)"
| "s_relay_Run takes (batches # polls) db sent =
     (case drain takes batches db sent of
        (None, db1, sent1) \<Rightarrow> (db1, sent1)
      | (Some e, db1, sent1) \<Rightarrow> s_relay_Run takes polls db1 sent1)"

end
