(* ===== verification/Single_Props.thy ===== *)
theory Single_Props
  imports Single_Store Message_Props
begin

text \<open>
  The properties of the single-process variant: a message and its outbox event are stored together, the relay
  hands every event to the hub in the order of its number and marks it only then, and the pages of a room's
  history join without gap or repetition.
\<close>

subsection \<open>Sorting by a strict key\<close>

lemma sorted_wrt_set_unique:
  assumes "\<And>x y. R x y \<Longrightarrow> \<not> R y x"
  shows "\<lbrakk>sorted_wrt R xs; sorted_wrt R ys; set xs = set ys\<rbrakk> \<Longrightarrow> xs = ys"
proof (induction xs arbitrary: ys)
  case (Cons x xs)
  obtain y ys' where ys: "ys = y # ys'" using Cons.prems(3) by (cases ys) auto
  have irr: "\<not> R a a" for a using assms by blast
  have "x = y"
  proof (rule ccontr)
    assume "x \<noteq> y"
    then have "x \<in> set ys'" "y \<in> set xs" using Cons.prems(3) ys by auto
    with Cons.prems(1,2) ys assms show False by auto
  qed
  moreover have "x \<notin> set xs" "y \<notin> set ys'" using Cons.prems(1,2) ys irr by auto
  ultimately have "set xs = set ys'" using Cons.prems(3) ys by auto
  with Cons.IH [of ys'] Cons.prems(1,2) ys \<open>x = y\<close> show ?case by simp
qed simp

lemma strict_key:
  fixes key :: "'a \<Rightarrow> int"
  shows "\<lbrakk>sorted_wrt (\<lambda>a b. key a \<le> key b) ys; distinct (map key ys)\<rbrakk> \<Longrightarrow> sorted_wrt (\<lambda>a b. key a < key b) ys"
  by (induction ys) (auto simp: order_less_le)

lemma sort_by_strict:
  fixes key :: "'a \<Rightarrow> int"
  assumes "distinct (map key xs)"
  shows "sorted_wrt (\<lambda>a b. key a < key b) (sort_by (\<lambda>a b. key a \<le> key b) xs)"
proof (rule strict_key)
  show "sorted_wrt (\<lambda>a b. key a \<le> key b) (sort_by (\<lambda>a b. key a \<le> key b) xs)" by (rule sorted_sort_by) auto
qed (use assms in simp)

text \<open>Sorting a selection of the rows selects from the sorted rows.\<close>

lemma sort_by_filter:
  fixes key :: "'a \<Rightarrow> int"
  assumes "distinct (map key xs)"
  shows "sort_by (\<lambda>a b. key a \<le> key b) (filter P xs) = filter P (sort_by (\<lambda>a b. key a \<le> key b) xs)"
proof (rule sorted_wrt_set_unique [of "\<lambda>a b. key a < key b"])
  have "distinct (map key (filter P xs))" using assms by (induction xs) auto
  then show "sorted_wrt (\<lambda>a b. key a < key b) (sort_by (\<lambda>a b. key a \<le> key b) (filter P xs))" by (rule sort_by_strict)
  show "sorted_wrt (\<lambda>a b. key a < key b) (filter P (sort_by (\<lambda>a b. key a \<le> key b) xs))"
    by (rule sorted_wrt_filter [OF sort_by_strict [OF assms]])
qed auto

text \<open>In a strictly sorted list the elements after a position are those with a larger key.\<close>

lemma drop_sorted:
  fixes key :: "'a \<Rightarrow> int"
  shows "\<lbrakk>sorted_wrt (\<lambda>a b. key a < key b) xs; k < length xs\<rbrakk> \<Longrightarrow> filter (\<lambda>x. key (xs ! k) < key x) xs = drop (Suc k) xs"
proof (induction xs arbitrary: k)
  case (Cons x xs)
  show ?case
  proof (cases k)
    case 0
    have "filter (\<lambda>y. key x < key y) xs = xs" using Cons.prems(1) by (auto simp: filter_id_conv)
    with 0 show ?thesis by simp
  next
    case (Suc j)
    then have "key x < key (xs ! j)" using Cons.prems by auto
    then have "\<not> key (xs ! j) < key x" by simp
    with Suc Cons.IH [of j] Cons.prems show ?thesis by simp
  qed
qed simp

subsection \<open>History\<close>

definition room_history :: "string \<Rightarrow> int \<Rightarrow> chat_message list \<Rightarrow> chat_message list" where
  "room_history room before ms =
     sort_by (\<lambda>a b. - sm_ID a \<le> - sm_ID b) (filter (\<lambda>m. sm_RoomID m = room \<and> (before = 0 \<or> sm_ID m < before)) ms)"

lemma history_rows_take: "history_rows room before limit ms = take limit (room_history room before ms)"
  by (simp add: history_rows_def room_history_def)

lemma room_history_strict:
  assumes "distinct (map sm_ID ms)"
  shows "sorted_wrt (\<lambda>a b. - sm_ID a < - sm_ID b) (room_history room before ms)"
proof -
  have "distinct (map sm_ID (filter P ms))" for P using assms by (induction ms) auto
  then have "distinct (map (\<lambda>m. - sm_ID m) (filter P ms))" for P by (simp add: distinct_map inj_on_def)
  then show ?thesis unfolding room_history_def by (rule sort_by_strict)
qed

lemma room_history_cursor:
  assumes "distinct (map sm_ID ms)" and "0 < c" and "before = 0 \<or> c < before"
  shows "room_history room c ms = filter (\<lambda>m. - c < - sm_ID m) (room_history room before ms)"
proof -
  have d: "distinct (map (\<lambda>m. - sm_ID m) ms)" using assms(1) by (simp add: distinct_map inj_on_def)
  show ?thesis
    unfolding room_history_def sort_by_filter [OF d] filter_filter
    by (rule filter_cong) (use assms(2,3) in auto)
qed

text \<open>The pages of a room's history join: a full page, followed by the page that starts at its last message, is
  the page of both lengths together. Each page is sorted from the newest message on, belongs to the room and
  lies before its cursor.\<close>

lemma history_pages_join:
  assumes "distinct (map sm_ID ms)" and "\<forall>m \<in> set ms. 0 < sm_ID m" and "0 < k"
    and "page = history_rows room before k ms" and "length page = k"
  shows "page @ history_rows room (sm_ID (last page)) j ms = history_rows room before (k + j) ms \<and>
    sorted_wrt (\<lambda>a b. sm_ID a > sm_ID b) page \<and>
    (\<forall>m \<in> set page. m \<in> set ms \<and> sm_RoomID m = room \<and> (before = 0 \<or> sm_ID m < before))"
proof -
  let ?all = "room_history room before ms"
  have page: "page = take k ?all" using assms(4) by (simp add: history_rows_take)
  have set_all: "set ?all = {m \<in> set ms. sm_RoomID m = room \<and> (before = 0 \<or> sm_ID m < before)}"
    by (auto simp: room_history_def)
  have len: "k - 1 < length ?all" using assms(3,5) page by auto
  have lst: "last page = ?all ! (k - 1)"
    using page assms(3,5) len by (subst last_conv_nth) auto
  have mem: "last page \<in> set ?all" using lst len by simp
  have strict: "sorted_wrt (\<lambda>a b. - sm_ID a < - sm_ID b) ?all" by (rule room_history_strict [OF assms(1)])
  have "room_history room (sm_ID (last page)) ms = filter (\<lambda>m. - sm_ID (last page) < - sm_ID m) ?all"
    using mem set_all assms(2) by (intro room_history_cursor [OF assms(1)]) auto
  also have "\<dots> = drop k ?all" using drop_sorted [OF strict len] assms(3) lst by simp
  finally have "page @ history_rows room (sm_ID (last page)) j ms = take (k + j) ?all"
    by (simp add: history_rows_take page take_add)
  moreover have "sorted_wrt (\<lambda>a b. sm_ID a > sm_ID b) page"
    using sorted_wrt_take [OF strict, of k] page by simp
  moreover have "\<forall>m \<in> set page. m \<in> set ?all" using page by (auto dest: in_set_takeD)
  ultimately show ?thesis using set_all by (auto simp: history_rows_take)
qed

definition sample_chat :: "int \<Rightarrow> chat_message" where
  "sample_chat i = \<lparr>sm_ID = i, sm_RoomID = ''r1'', sm_UserID = ''u1'', sm_Body = ''hi'', sm_CreatedAt = sample_time\<rparr>"

theorem history_pages_join_witness:
  "map sm_ID (history_rows ''r1'' 0 2 (map sample_chat [1, 2, 3]) @
     history_rows ''r1'' 2 1 (map sample_chat [1, 2, 3])) = [3, 2, 1]"
  using history_pages_join [of "map sample_chat [1, 2, 3]" 2 "history_rows ''r1'' 0 2 (map sample_chat [1, 2, 3])" "''r1''" 0 1]
  by (simp add: history_rows_def sample_chat_def)

subsection \<open>Accepting a message\<close>

definition same_tables :: "s_db \<Rightarrow> s_db \<Rightarrow> bool" where
  "same_tables a b \<longleftrightarrow> sd_users a = sd_users b \<and> sd_rooms a = sd_rooms b \<and> sd_messages a = sd_messages b \<and> sd_outbox a = sd_outbox b"

lemma same_tables_rollback [simp]: "same_tables (rollback db db1) db"
  by (simp add: same_tables_def rollback_def)

lemma same_tables_refl [simp]: "same_tables db db"
  by (simp add: same_tables_def)

lemma InsertMessage_Inr:
  assumes "InsertMessage env m db = (Inr m', db1)"
  shows "\<exists>r u. se_uuid_in env (sm_RoomID m) = Some r \<and> se_uuid_in env (sm_UserID m) = Some u \<and>
    m' = m\<lparr>sm_ID := sd_msg_seq db + 1, sm_CreatedAt := se_now env\<rparr> \<and>
    db1 = db\<lparr>sd_msg_seq := sd_msg_seq db + 1, sd_messages := sd_messages db @ [\<lparr>sm_ID = sd_msg_seq db + 1, sm_RoomID = r,
      sm_UserID = u, sm_Body = sm_Body m, sm_CreatedAt = se_now env\<rparr>]\<rparr>"
  using assms by (auto simp: InsertMessage_def Let_def split: if_splits option.splits)

lemma EnqueueOutbox_None:
  assumes "EnqueueOutbox env room payload db = (None, db1)"
  shows "\<exists>r p. se_uuid_in env room = Some r \<and> se_jsonb_in env payload = Some p \<and>
    db1 = db\<lparr>sd_out_seq := sd_out_seq db + 1, sd_outbox := sd_outbox db @
      [\<lparr>so_id = sd_out_seq db + 1, so_room_id = r, so_payload = p, so_dispatched = False\<rparr>]\<rparr>"
  using assms by (auto simp: EnqueueOutbox_def Let_def split: if_splits option.splits)

text \<open>The rows of an accepted message: the message itself and the undispatched event that carries its text.\<close>

definition accepted_rows :: "s_env \<Rightarrow> string \<Rightarrow> Incoming \<Rightarrow> s_db \<Rightarrow> s_db \<Rightarrow> bool" where
  "accepted_rows env room inc db db' \<longleftrightarrow>
     (\<exists>r u payload p. se_uuid_in env room = Some r \<and> se_uuid_in env (in_UserID inc) = Some u \<and>
        marshal_chat \<lparr>sm_ID = sd_msg_seq db + 1, sm_RoomID = room, sm_UserID = in_UserID inc,
          sm_Body = TrimSpace (in_Body inc), sm_CreatedAt = se_now env\<rparr> = Some payload \<and> se_jsonb_in env payload = Some p \<and>
        sd_messages db' = sd_messages db @ [\<lparr>sm_ID = sd_msg_seq db + 1, sm_RoomID = r, sm_UserID = u,
          sm_Body = TrimSpace (in_Body inc), sm_CreatedAt = se_now env\<rparr>] \<and>
        sd_outbox db' = sd_outbox db @ [\<lparr>so_id = sd_out_seq db + 1, so_room_id = r, so_payload = p, so_dispatched = False\<rparr>] \<and>
        sd_users db' = sd_users db \<and> sd_rooms db' = sd_rooms db)"

lemma chat_tx_rows:
  assumes "chat_tx env room \<lparr>sm_ID = 0, sm_RoomID = room, sm_UserID = in_UserID inc, sm_Body = TrimSpace (in_Body inc),
      sm_CreatedAt = zero_time\<rparr> db () = (None, db', ())"
  shows "accepted_rows env room inc db db'"
proof -
  let ?m = "\<lparr>sm_ID = 0, sm_RoomID = room, sm_UserID = in_UserID inc, sm_Body = TrimSpace (in_Body inc), sm_CreatedAt = zero_time\<rparr>"
  obtain m db1 payload where i: "InsertMessage env ?m db = (Inr m, db1)" and p: "marshal_chat m = Some payload"
    and e: "EnqueueOutbox env room payload db1 = (None, db')"
    using assms by (auto simp: chat_tx_def split: prod.splits sum.splits option.splits)
  from InsertMessage_Inr [OF i] EnqueueOutbox_None [OF e] p show ?thesis
    by (auto simp: accepted_rows_def)
qed

lemma chat_stored:
  assumes "chat_HandleIncoming env room inc db = (e, db')"
  shows "(e = None \<longrightarrow> accepted_rows env room inc db db' \<and> TrimSpace (in_Body inc) \<noteq> [] \<and> length (TrimSpace (in_Body inc)) \<le> 4000) \<and>
    (e \<noteq> None \<longrightarrow> same_tables db' db \<or> e = Some CommitTxFailed \<and> se_outcome env SCommit = BrokenAfter \<and> accepted_rows env room inc db db')"
proof (cases "TrimSpace (in_Body inc) = [] \<or> length (TrimSpace (in_Body inc)) > 4000 \<or> in_UserID inc = []")
  case True
  then have "\<exists>x. e = Some x \<and> db' = db"
    using assms unfolding chat_HandleIncoming_def Let_def maxBodyLen_def by (auto split: if_splits)
  then show ?thesis by auto
next
  case False
  let ?m = "\<lparr>sm_ID = 0, sm_RoomID = room, sm_UserID = in_UserID inc, sm_Body = TrimSpace (in_Body inc), sm_CreatedAt = zero_time\<rparr>"
  have w: "WithTx env (chat_tx env room ?m) db () = (e, db', ())"
    using assms False by (auto simp: chat_HandleIncoming_def Let_def maxBodyLen_def split: prod.splits)
  obtain e1 db1 where t: "chat_tx env room ?m db () = (e1, db1, ())" by (metis unit.exhaust prod.collapse)
  show ?thesis
  proof (cases e1)
    case None
    with chat_tx_rows t have "accepted_rows env room inc db db1" by simp
    with w t None False show ?thesis by (auto simp: WithTx_def split: if_splits outcome.splits)
  next
    case (Some x)
    with w t show ?thesis by (auto simp: WithTx_def split: if_splits)
  qed
qed

text \<open>C22: a frame is stored with its outbox event or not at all: without error both rows are added, with the trimmed
  body of 1 to 4000 bytes; with an error no table changes, unless the commit's acknowledgement was lost, and then
  both rows are there.\<close>

theorem chat_stored_with_event:
  assumes "chat_HandleIncoming env room inc db = (e, db')"
  shows "(e = None \<longrightarrow> accepted_rows env room inc db db' \<and> TrimSpace (in_Body inc) \<noteq> [] \<and> length (TrimSpace (in_Body inc)) \<le> 4000) \<and>
    (e \<noteq> None \<longrightarrow> same_tables db' db \<or> e = Some CommitTxFailed \<and> se_outcome env SCommit = BrokenAfter \<and> accepted_rows env room inc db db')"
  by (rule chat_stored [OF assms])

definition s_healthy :: s_env where
  "s_healthy = \<lparr>se_outcome = (\<lambda>_. Done), se_now = sample_time, se_gen_uuid = ''r1'', se_uuid_in = Some, se_jsonb_in = Some\<rparr>"

definition sample_sdb :: s_db where
  "sample_sdb = \<lparr>sd_users = [\<lparr>nr_id = ''u1'', nr_name = ''ann'', nr_created_at = sample_time\<rparr>],
     sd_rooms = [\<lparr>nr_id = ''r1'', nr_name = ''general'', nr_created_at = sample_time\<rparr>],
     sd_messages = [], sd_outbox = [], sd_msg_seq = 0, sd_out_seq = 0\<rparr>"

definition sample_incoming :: Incoming where
  "sample_incoming = \<lparr>in_UserID = ''u1'', in_Body = '' hi ''\<rparr>"

lemma sample_chat_text: "\<exists>payload. marshal_chat (sample_chat i) = Some payload"
  by (simp add: marshal_chat_def sample_chat_def marshal_time_def sample_time_def)

lemma sample_trim: "TrimSpace '' hi '' = ''hi''"
  by code_simp

lemma sample_incoming_ok: "\<exists>db'. chat_HandleIncoming s_healthy ''r1'' sample_incoming sample_sdb = (None, db')"
proof -
  obtain payload where "marshal_chat (sample_chat 1) = Some payload" using sample_chat_text by blast
  then show ?thesis
    by (simp add: chat_HandleIncoming_def WithTx_def chat_tx_def InsertMessage_def EnqueueOutbox_def Let_def s_healthy_def
        sample_sdb_def sample_incoming_def sample_trim maxBodyLen_def sample_chat_def)
qed

theorem chat_stored_with_event_witness:
  "\<exists>db'. chat_HandleIncoming s_healthy ''r1'' sample_incoming sample_sdb = (None, db') \<and> length (sd_messages db') = 1 \<and>
    length (sd_outbox db') = 1"
proof -
  obtain db' where d: "chat_HandleIncoming s_healthy ''r1'' sample_incoming sample_sdb = (None, db')"
    using sample_incoming_ok by blast
  from chat_stored_with_event [OF d] have "length (sd_messages db') = 1 \<and> length (sd_outbox db') = 1"
    by (auto simp: accepted_rows_def sample_sdb_def)
  with d show ?thesis by blast
qed

subsection \<open>Draining the outbox\<close>

text \<open>What the hub gets for an outbox row whose payload can be read.\<close>

definition row_text :: "outbox_event_row \<Rightarrow> (string \<times> bytes) option" where
  "row_text r = Option.bind (unmarshal_chat (so_payload r)) (\<lambda>m. map_option (Pair (so_room_id r)) (marshal_chat m))"

definition row_envelopes :: "outbox_event_row list \<Rightarrow> (string \<times> bytes) list" where
  "row_envelopes rs = List.map_filter row_text rs"

lemma row_envelopes_simps [simp]:
  "row_envelopes [] = []"
  "row_envelopes (r # rs) = (case row_text r of None \<Rightarrow> row_envelopes rs | Some t \<Rightarrow> t # row_envelopes rs)"
  "row_envelopes (xs @ ys) = row_envelopes xs @ row_envelopes ys"
  unfolding row_envelopes_def by (simp_all add: map_filter_simps) (simp add: List.map_filter_def)

lemma mset_row_envelopes: "mset xs = mset ys \<Longrightarrow> mset (row_envelopes xs) = mset (row_envelopes ys)"
  unfolding row_envelopes_def List.map_filter_def mset_map mset_filter by simp

text \<open>A batch handed to the hub: all of it, or the hub has stopped taking.\<close>

lemma decode_rows_dispatch:
  "\<lbrakk>decode_rows rs = Inr es; dispatch_all (relay_dispatch takes) es sent = (d, sent1)\<rbrakk> \<Longrightarrow>
     (\<exists>given. sent1 = sent @ given) \<and> (d = None \<and> sent1 = sent @ row_envelopes rs \<or> d = Some HubWaits \<and> (\<exists>n. \<not> takes n))"
proof (induction rs arbitrary: es sent)
  case (Cons r rs)
  then obtain m es' where m: "unmarshal_chat (so_payload r) = Some m" and es: "decode_rows rs = Inr es'"
    "es = \<lparr>oe_ID = so_id r, oe_RoomID = so_room_id r, oe_Message = m\<rparr> # es'"
    by (auto split: option.splits sum.splits)
  show ?case
  proof (cases "hub_Broadcast takes (so_room_id r) m sent")
    case None
    then have "\<not> takes (length sent)" by (simp add: hub_Broadcast_def split: option.splits if_splits)
    with None Cons.prems(2) es(2) show ?thesis by (auto simp: relay_dispatch_def)
  next
    case (Some sent2)
    then have s2: "sent2 @ row_envelopes rs = sent @ row_envelopes (r # rs)" "\<exists>given. sent2 = sent @ given"
      using m by (auto simp: hub_Broadcast_def row_text_def split: option.splits if_splits)
    have "dispatch_all (relay_dispatch takes) es' sent2 = (d, sent1)"
      using Some Cons.prems(2) es(2)
      by (simp add: relay_dispatch_def [of takes "\<lparr>oe_ID = so_id r, oe_RoomID = so_room_id r, oe_Message = m\<rparr>"])
    from Cons.IH [OF es(1) this] s2 show ?thesis by auto
  qed
qed simp

lemma batch_tx_effect:
  assumes "batch_tx env limit (relay_dispatch takes) db sent = (e, db1, sent1)"
  shows "(\<exists>given. sent1 = sent @ given) \<and>
    (e = None \<longrightarrow> db1 = mark_ids (map so_id (take limit (undispatched db))) db \<and> sent1 = sent @ row_envelopes (take limit (undispatched db)))"
proof (cases "FetchUndispatched env limit db")
  case (Inl x)
  with assms show ?thesis by (auto simp: batch_tx_def)
next
  case (Inr events)
  then have dec: "decode_rows (take limit (undispatched db)) = Inr events" by (simp add: FetchUndispatched_def split: if_splits)
  obtain d sent2 where d: "dispatch_all (relay_dispatch takes) events sent = (d, sent2)" by fastforce
  note eff = decode_rows_dispatch [OF dec d]
  have "sent1 = sent2" "e = None \<longrightarrow> d = None"
    using assms Inr d by (auto simp: batch_tx_def split: if_splits prod.splits option.splits)
  then show ?thesis using eff batch_tx_mark [of env limit "relay_dispatch takes" db sent db1 sent1] assms by (cases e) auto
qed

lemma DispatchBatch_effect:
  assumes "DispatchBatch env limit (relay_dispatch takes) db sent = ((n, e), db1, sent1)"
  shows "set sent \<subseteq> set sent1 \<and> (sd_outbox db1 = sd_outbox db \<or>
    sd_outbox db1 = sd_outbox (mark_ids (map so_id (take limit (undispatched db))) db) \<and>
    decode_rows (take limit (undispatched db)) \<in> range Inr \<and> set (row_envelopes (take limit (undispatched db))) \<subseteq> set sent1)"
proof (cases "se_outcome env SBegin = Done")
  case False
  with assms show ?thesis by (auto simp: DispatchBatch_def WithTx_def)
next
  case True
  obtain e2 db2 sent2 where t: "batch_tx env limit (relay_dispatch takes) db sent = (e2, db2, sent2)" using prod_cases3 by blast
  have dec: "e2 = None \<Longrightarrow> decode_rows (take limit (undispatched db)) \<in> range Inr"
    using t by (cases "FetchUndispatched env limit db") (auto simp: batch_tx_def FetchUndispatched_def split: if_splits)
  have "sent1 = sent2" "db1 = db2 \<and> e2 = None \<or> sd_outbox db1 = sd_outbox db"
    using assms t True by (auto simp: DispatchBatch_def WithTx_def rollback_def split: option.splits outcome.splits)
  with batch_tx_effect [OF t] dec show ?thesis by auto
qed

lemma DispatchBatch_sent:
  assumes "DispatchBatch env limit (relay_dispatch takes) db sent = ((n, None), db1, sent1)"
  shows "sent1 = sent @ row_envelopes (take limit (undispatched db))"
proof -
  have "batch_tx env limit (relay_dispatch takes) db sent = (None, db1, sent1)"
    using assms by (auto simp: DispatchBatch_def WithTx_def split: prod.splits option.splits if_splits outcome.splits)
  from batch_tx_effect [OF this] show ?thesis by simp
qed

lemma filter_not_taken: "distinct (map f xs) \<Longrightarrow> filter (\<lambda>x. f x \<notin> f ` set (take k xs)) xs = drop k xs"
proof -
  assume d: "distinct (map f xs)"
  then have "distinct (map f (take k xs @ drop k xs))" by simp
  then have "f ` set (take k xs) \<inter> f ` set (drop k xs) = {}" unfolding map_append distinct_append by simp
  then have "filter (\<lambda>x. f x \<notin> f ` set (take k xs)) (take k xs @ drop k xs) = drop k xs"
    unfolding filter_append by (auto simp: filter_id_conv filter_empty_conv)
  then show ?thesis by simp
qed

lemma undispatched_mark:
  assumes "distinct (map so_id (sd_outbox db))"
  shows "undispatched (mark_ids (map so_id (take k (undispatched db))) db) = drop k (undispatched db)"
proof -
  define U where "U = undispatched db"
  let ?ids = "so_id ` set (take k U)"
  have f: "filter (\<lambda>r. \<not> so_dispatched r) (map (\<lambda>r. if so_id r \<in> ?ids then r\<lparr>so_dispatched := True\<rparr> else r) rows)
      = filter (\<lambda>r. so_id r \<notin> ?ids) (filter (\<lambda>r. \<not> so_dispatched r) rows)" for rows
    by (induction rows) auto
  have d: "distinct (map so_id (filter (\<lambda>r. \<not> so_dispatched r) (sd_outbox db)))"
    using assms by (simp add: distinct_map_filter)
  have U: "U = sort_by (\<lambda>a b. so_id a \<le> so_id b) (filter (\<lambda>r. \<not> so_dispatched r) (sd_outbox db))"
    by (simp add: U_def undispatched_def)
  have o: "sd_outbox (mark_ids (map so_id (take k U)) db) =
      map (\<lambda>r. if so_id r \<in> ?ids then r\<lparr>so_dispatched := True\<rparr> else r) (sd_outbox db)"
    by (simp add: mark_ids_def)
  have "undispatched (mark_ids (map so_id (take k U)) db) =
      sort_by (\<lambda>a b. so_id a \<le> so_id b) (filter (\<lambda>r. so_id r \<notin> ?ids) (filter (\<lambda>r. \<not> so_dispatched r) (sd_outbox db)))"
    by (simp only: undispatched_def o f)
  also have "\<dots> = filter (\<lambda>r. so_id r \<notin> ?ids) U" unfolding sort_by_filter [OF d] U ..
  also have "\<dots> = drop k U" using d by (intro filter_not_taken) (simp add: U)
  finally show ?thesis by (simp add: U_def)
qed

lemma decode_rows_Inr: "\<forall>r \<in> set rs. unmarshal_chat (so_payload r) \<noteq> None \<Longrightarrow> \<exists>es. decode_rows rs = Inr es"
  by (induction rs) (auto split: option.split)

lemma DispatchBatch_healthy:
  assumes "se_outcome env = (\<lambda>_. Done)" and "\<forall>r \<in> set (undispatched db). unmarshal_chat (so_payload r) \<noteq> None"
    and "\<forall>n. takes n"
  shows "DispatchBatch env limit (relay_dispatch takes) db sent =
    ((length (take limit (undispatched db)), None), mark_ids (map so_id (take limit (undispatched db))) db,
     sent @ row_envelopes (take limit (undispatched db)))"
proof -
  obtain es where dec: "decode_rows (take limit (undispatched db)) = Inr es"
    using decode_rows_Inr [of "take limit (undispatched db)"] assms(2) by (auto dest: in_set_takeD)
  obtain d sent2 where d: "dispatch_all (relay_dispatch takes) es sent = (d, sent2)" by fastforce
  then have "d = None" using decode_rows_dispatch [OF dec d] assms(3) by blast
  then have "\<exists>db1 sent1. batch_tx env limit (relay_dispatch takes) db sent = (None, db1, sent1)"
    using dec assms(1) d by (simp add: batch_tx_def FetchUndispatched_def MarkDispatched_def)
  then obtain db1 sent1 where t: "batch_tx env limit (relay_dispatch takes) db sent = (None, db1, sent1)" by blast
  with batch_tx_effect [OF t] assms(1) show ?thesis by (simp add: DispatchBatch_def WithTx_def)
qed

lemma mark_ids_ids [simp]: "map so_id (sd_outbox (mark_ids ids db)) = map so_id (sd_outbox db)"
  by (simp add: mark_ids_def)

text \<open>Rows that other goroutines commit; whatever they do, rows are added only.\<close>

definition insert_rows :: "outbox_event_row list \<Rightarrow> s_db \<Rightarrow> s_db" where
  "insert_rows new db = db\<lparr>sd_outbox := sd_outbox db @ new\<rparr>"

definition only_inserts :: "(s_db \<Rightarrow> s_db) \<Rightarrow> bool" where
  "only_inserts others \<longleftrightarrow> (\<forall>d. distinct (map so_id (sd_outbox d)) \<longrightarrow>
     (\<exists>new. sd_outbox (others d) = sd_outbox d @ new \<and> distinct (map so_id (sd_outbox (others d))) \<and> (\<forall>r \<in> set new. \<not> so_dispatched r)))"

definition mark_done :: "outbox_event_row \<Rightarrow> outbox_event_row" where
  "mark_done r = r\<lparr>so_dispatched := True\<rparr>"

lemma mark_done_simps [simp]: "so_dispatched r \<Longrightarrow> mark_done r = r" "mark_done (r\<lparr>so_dispatched := True\<rparr>) = mark_done r"
  by (cases r, simp add: mark_done_def)+

lemma mark_done_ids: "map mark_done (sd_outbox (mark_ids ids db)) = map mark_done (sd_outbox db)"
  by (simp add: mark_ids_def)

text \<open>A short batch leaves nothing undispatched.\<close>

lemma mark_all_done:
  assumes "sd_outbox db1 = sd_outbox (mark_ids (map so_id (undispatched db)) db)"
  shows "sd_outbox db1 = map mark_done (sd_outbox db)" and "undispatched db1 = []"
proof -
  show o: "sd_outbox db1 = map mark_done (sd_outbox db)"
    using assms by (auto simp: mark_ids_def mark_done_def [symmetric] undispatched_def)
  show "undispatched db1 = []" by (auto simp: undispatched_def o mark_done_def filter_empty_conv)
qed

lemma undispatched_insert:
  assumes "\<forall>r \<in> set new. \<not> so_dispatched r"
  shows "mset (undispatched (insert_rows new db)) = mset (undispatched db @ new)"
  using assms by (simp add: undispatched_def insert_rows_def filter_id_conv)

lemma drain_all:
  assumes "\<forall>n. takes n" and "\<forall>(new, env) \<in> set its. se_outcome env = (\<lambda>_. Done)"
    and "distinct (map so_id (sd_outbox db @ concat (map fst its)))"
    and "\<forall>r \<in> set (undispatched db @ concat (map fst its)). \<not> so_dispatched r \<and> unmarshal_chat (so_payload r) \<noteq> None"
    and "length (undispatched db @ concat (map fst its)) < batchSize * length its"
  shows "\<exists>db' k given. drain takes (map (\<lambda>(new, env). (insert_rows new, env)) its) db sent = (Some None, db', sent @ given) \<and>
    sd_outbox db' = map mark_done (sd_outbox db @ concat (map fst (take k its))) \<and>
    mset given = mset (row_envelopes (undispatched db @ concat (map fst (take k its)))) \<and>
    (concat (map fst its) = [] \<longrightarrow> given = row_envelopes (undispatched db))"
  using assms
proof (induction its arbitrary: db sent)
  case (Cons x its)
  obtain new env where x: "x = (new, env)" by fastforce
  let ?db = "insert_rows new db" and ?rest = "concat (map fst its)"
  let ?U = "undispatched ?db"
  let ?ids = "map so_id (take batchSize ?U)"
  have mU: "mset ?U = mset (undispatched db @ new)" using undispatched_insert Cons.prems(4) x by simp
  then have sU: "set ?U = set (undispatched db) \<union> set new" "length ?U = length (undispatched db) + length new"
    using mset_eq_setD [OF mU] mset_eq_length [OF mU] by simp_all
  have b: "DispatchBatch env batchSize (relay_dispatch takes) ?db sent =
      ((length (take batchSize ?U), None), mark_ids ?ids ?db, sent @ row_envelopes (take batchSize ?U))"
    using DispatchBatch_healthy [of env ?db takes batchSize sent] Cons.prems x sU(1) by auto
  have U0: "?U = undispatched db" if "new = []" using that by (simp add: insert_rows_def)
  show ?case
  proof (cases "length (take batchSize ?U) < batchSize")
    case True
    then have all: "take batchSize ?U = ?U" by simp
    note fin = mark_all_done [of "mark_ids ?ids ?db" ?db, unfolded all]
    have "drain takes (map (\<lambda>(new, env). (insert_rows new, env)) (x # its)) db sent = (Some None, mark_ids ?ids ?db, sent @ row_envelopes ?U)"
      using True b all x by simp
    moreover have "sd_outbox (mark_ids ?ids ?db) = map mark_done (sd_outbox db @ concat (map fst (take 1 (x # its))))"
      using fin(1) all x by (simp add: insert_rows_def)
    moreover have "mset (row_envelopes ?U) = mset (row_envelopes (undispatched db @ concat (map fst (take 1 (x # its)))))"
      using mset_row_envelopes [OF mU] x by simp
    ultimately show ?thesis using U0 x by (intro exI [of _ "mark_ids ?ids ?db"] exI [of _ 1] exI [of _ "row_envelopes ?U"]) auto
  next
    case False
    let ?d = "mark_ids ?ids ?db"
    have dist: "distinct (map so_id (sd_outbox ?db))" using Cons.prems(3) x by (simp add: insert_rows_def Int_Un_distrib)
    have rest: "undispatched ?d = drop batchSize ?U" by (rule undispatched_mark [OF dist])
    have "\<forall>(new, env) \<in> set its. se_outcome env = (\<lambda>_. Done)" using Cons.prems(2) by simp
    moreover have "distinct (map so_id (sd_outbox ?d @ ?rest))" using Cons.prems(3) x by (simp add: insert_rows_def)
    moreover have "\<forall>r \<in> set (undispatched ?d @ ?rest). \<not> so_dispatched r \<and> unmarshal_chat (so_payload r) \<noteq> None"
      using Cons.prems(4) x sU(1) unfolding rest by (auto dest!: in_set_dropD)
    moreover have "length (undispatched ?d @ ?rest) < batchSize * length its"
      using Cons.prems(5) False x sU(2) unfolding rest by simp
    ultimately obtain db' k given where d: "drain takes (map (\<lambda>(new, env). (insert_rows new, env)) its) ?d (sent @ row_envelopes (take batchSize ?U))
        = (Some None, db', (sent @ row_envelopes (take batchSize ?U)) @ given)"
      and o: "sd_outbox db' = map mark_done (sd_outbox ?d @ concat (map fst (take k its)))"
      and m: "mset given = mset (row_envelopes (undispatched ?d @ concat (map fst (take k its))))"
      and g0: "?rest = [] \<longrightarrow> given = row_envelopes (undispatched ?d)"
      using Cons.IH [OF Cons.prems(1), of ?d "sent @ row_envelopes (take batchSize ?U)"] by blast
    have split: "row_envelopes (take batchSize ?U) @ row_envelopes (drop batchSize ?U) = row_envelopes ?U"
      by (simp flip: row_envelopes_simps(3))
    have "drain takes (map (\<lambda>(new, env). (insert_rows new, env)) (x # its)) db sent
        = (Some None, db', sent @ row_envelopes (take batchSize ?U) @ given)" using False b d x by simp
    moreover have "sd_outbox db' = map mark_done (sd_outbox db @ concat (map fst (take (Suc k) (x # its))))"
      using o x mark_done_ids [of ?ids ?db] by (simp add: insert_rows_def)
    moreover have "mset (row_envelopes (take batchSize ?U) @ given)
        = mset (row_envelopes (undispatched db @ concat (map fst (take (Suc k) (x # its)))))"
      using m rest split mset_row_envelopes [OF mU] x by (simp flip: split)
    moreover have "row_envelopes (take batchSize ?U) @ given = row_envelopes (undispatched db)" if "concat (map fst (x # its)) = []"
      using that g0 rest split U0 x by simp
    ultimately show ?thesis by blast
  qed
qed (simp add: batchSize_def)

text \<open>C23: while the hub takes every envelope, the database answers and every payload can be read, a drain ends
  although messages keep being stored between its batches: as soon as the batches have room for the rows
  that were undispatched and those added meanwhile. It then has handed each of them that was there at its
  last batch to the hub exactly once (in the order of their numbers when none was added) and marked all.\<close>

theorem drain_dispatches_all:
  assumes "\<forall>n. takes n" and "\<forall>(new, env) \<in> set its. se_outcome env = (\<lambda>_. Done)"
    and "distinct (map so_id (sd_outbox db @ concat (map fst its)))"
    and "\<forall>r \<in> set (undispatched db @ concat (map fst its)). \<not> so_dispatched r \<and> unmarshal_chat (so_payload r) \<noteq> None"
    and "length (undispatched db @ concat (map fst its)) < 100 * length its"
  shows "\<exists>db' k given. drain takes (map (\<lambda>(new, env). (insert_rows new, env)) its) db sent = (Some None, db', sent @ given) \<and>
    sd_outbox db' = map mark_done (sd_outbox db @ concat (map fst (take k its))) \<and>
    mset given = mset (row_envelopes (undispatched db @ concat (map fst (take k its)))) \<and>
    (concat (map fst its) = [] \<longrightarrow> given = row_envelopes (undispatched db))"
  using assms(5) by (intro drain_all [OF assms(1-4)]) (simp add: batchSize_def)

definition sample_outbox_row :: "int \<Rightarrow> bytes \<Rightarrow> outbox_event_row" where
  "sample_outbox_row i p = \<lparr>so_id = i, so_room_id = ''r1'', so_payload = p, so_dispatched = False\<rparr>"

lemma chat_field_values:
  "field_values ''id'' [(''id'', a), (''room_id'', b), (''user_id'', c), (''body'', d), (''created_at'', e)] = [a]"
  "field_values ''room_id'' [(''id'', a), (''room_id'', b), (''user_id'', c), (''body'', d), (''created_at'', e)] = [b]"
  "field_values ''user_id'' [(''id'', a), (''room_id'', b), (''user_id'', c), (''body'', d), (''created_at'', e)] = [c]"
  "field_values ''body'' [(''id'', a), (''room_id'', b), (''user_id'', c), (''body'', d), (''created_at'', e)] = [d]"
  "field_values ''created_at'' [(''id'', a), (''room_id'', b), (''user_id'', c), (''body'', d), (''created_at'', e)] = [e]"
  by code_simp+

lemma plain_chat_names: "plain ''id''" "plain ''user_id''" "plain ''body''"
  by (simp_all add: plain_simps quote_ascii_def)

text \<open>A stored message is read back from its text.\<close>

lemma chat_roundtrip:
  assumes "marshal_chat m = Some s" and "valid_time (sm_CreatedAt m)" and "in_int64 (sm_ID m)"
    and "utf8_valid (sm_RoomID m)" and "utf8_valid (sm_UserID m)" and "utf8_valid (sm_Body m)"
  shows "unmarshal_chat s = Some m"
proof -
  obtain t where t: "marshal_time (sm_CreatedAt m) = Some t" using marshal_time_valid assms(2) by blast
  let ?kvs = "[(''id'', show_int (sm_ID m)), (''room_id'', quote (sm_RoomID m)), (''user_id'', quote (sm_UserID m)),
    (''body'', quote (sm_Body m)), (''created_at'', t)]"
  have s: "s = object_text ?kvs" using assms(1) t by (simp add: marshal_chat_def)
  have "unmarshal_chat s = decode_chat ?kvs"
    unfolding unmarshal_chat_def s
    by (rule unmarshal_struct) (use marshal_time_token [OF t] in \<open>simp add: token_string token_int plain_chat_names\<close>)
  then show ?thesis
    by (simp add: decode_chat_def field_def chat_field_values decode_string_quote decode_int_show
        marshal_time_decode [OF t] assms)
qed

lemma sample_chat_back:
  assumes "in_int64 i"
  shows "\<exists>p. marshal_chat (sample_chat i) = Some p \<and> unmarshal_chat p = Some (sample_chat i)"
proof -
  obtain p where p: "marshal_chat (sample_chat i) = Some p" using sample_chat_text by blast
  have "valid_time (sm_CreatedAt (sample_chat i))" by (simp add: sample_chat_def valid_time_def sample_time_def days_in_month_def)
  moreover have "utf8_valid ''r1''" "utf8_valid ''u1''" "utf8_valid ''hi''" by (simp_all add: utf8_valid_ascii)
  ultimately show ?thesis using chat_roundtrip [OF p] p assms by (simp add: sample_chat_def)
qed

theorem drain_dispatches_all_witness:
  "\<exists>p1 p2 p3 db' given. drain (\<lambda>_. True) [(insert_rows [sample_outbox_row 3 p3], s_healthy)]
      (sample_sdb\<lparr>sd_outbox := [sample_outbox_row 2 p2, sample_outbox_row 1 p1]\<rparr>) [] = (Some None, db', given) \<and>
    {#(''r1'', p1), (''r1'', p2)#} \<subseteq># mset given \<and> undispatched db' = []"
proof -
  have "\<exists>p. marshal_chat (sample_chat i) = Some p \<and> unmarshal_chat p = Some (sample_chat i)" if "i \<in> {1, 2, 3}" for i
    using that sample_chat_back [of i] by (auto simp: in_int64_def)
  then obtain p where p: "\<And>i. i \<in> {1, 2, 3} \<Longrightarrow> marshal_chat (sample_chat i) = Some (p i) \<and> unmarshal_chat (p i) = Some (sample_chat i)"
    by metis
  let ?row = "\<lambda>i. sample_outbox_row i (p i)"
  let ?db = "sample_sdb\<lparr>sd_outbox := [?row 2, ?row 1]\<rparr>" and ?its = "[([?row 3], s_healthy)]"
  have u: "undispatched ?db = [?row 1, ?row 2]" by (simp add: undispatched_def sample_outbox_row_def)
  have "\<exists>db' k given. drain (\<lambda>_. True) (map (\<lambda>(new, env). (insert_rows new, env)) ?its) ?db [] = (Some None, db', [] @ given) \<and>
      sd_outbox db' = map mark_done (sd_outbox ?db @ concat (map fst (take k ?its))) \<and>
      mset given = mset (row_envelopes (undispatched ?db @ concat (map fst (take k ?its)))) \<and>
      (concat (map fst ?its) = [] \<longrightarrow> given = row_envelopes (undispatched ?db))"
    by (rule drain_dispatches_all) (use p u in \<open>auto simp: s_healthy_def sample_outbox_row_def\<close>)
  then obtain db' k given where d: "drain (\<lambda>_. True) (map (\<lambda>(new, env). (insert_rows new, env)) ?its) ?db [] = (Some None, db', given)"
    and o: "sd_outbox db' = map mark_done (sd_outbox ?db @ concat (map fst (take k ?its)))"
    and m: "mset given = mset (row_envelopes (undispatched ?db @ concat (map fst (take k ?its))))" by auto
  have "row_envelopes (undispatched ?db) = [(''r1'', p 1), (''r1'', p 2)]"
    unfolding u using p [of 1] p [of 2] by (simp add: row_text_def sample_outbox_row_def)
  with m have "{#(''r1'', p 1), (''r1'', p 2)#} \<subseteq># mset given" by simp
  moreover have "undispatched db' = []" by (auto simp: undispatched_def o mark_done_def filter_empty_conv)
  ultimately show ?thesis using d by (intro exI [of _ "p 1"] exI [of _ "p 2"] exI [of _ "p 3"] exI [of _ db'] exI [of _ given]) simp
qed

text \<open>The rows that are marked, apart from those in \<open>D\<close>, have been handed to the hub.\<close>

definition handed :: "int set \<Rightarrow> (string \<times> bytes) list \<Rightarrow> s_db \<Rightarrow> bool" where
  "handed D sent db \<longleftrightarrow> distinct (map so_id (sd_outbox db)) \<and>
     (\<forall>r \<in> set (sd_outbox db). so_dispatched r \<longrightarrow> so_id r \<in> D \<or>
        unmarshal_chat (so_payload r) \<noteq> None \<and> (\<forall>t. row_text r = Some t \<longrightarrow> t \<in> set sent))"

lemma decode_rows_all: "decode_rows rs = Inr es \<Longrightarrow> r \<in> set rs \<Longrightarrow> unmarshal_chat (so_payload r) \<noteq> None"
  by (induction rs arbitrary: es) (auto split: option.splits sum.splits)

lemma row_text_envelopes: "\<lbrakk>row_text r = Some t; r \<in> set rs\<rbrakk> \<Longrightarrow> t \<in> set (row_envelopes rs)"
  by (force simp: row_envelopes_def map_filter_def)

lemma DispatchBatch_handed:
  assumes "DispatchBatch env limit (relay_dispatch takes) db sent = ((n, e), db1, sent1)" and "handed D sent db"
  shows "handed D sent1 db1"
proof -
  let ?rs = "take limit (undispatched db)"
  note eff = DispatchBatch_effect [OF assms(1)]
  show ?thesis
  proof (cases "sd_outbox db1 = sd_outbox db")
    case True
    with eff assms(2) show ?thesis by (auto simp: handed_def)
  next
    case False
    then have o: "sd_outbox db1 = map (\<lambda>r. if so_id r \<in> so_id ` set ?rs then r\<lparr>so_dispatched := True\<rparr> else r) (sd_outbox db)"
      and sent: "set (row_envelopes ?rs) \<subseteq> set sent1" "set sent \<subseteq> set sent1" and "decode_rows ?rs \<in> range Inr"
      using eff by (auto simp: mark_ids_def)
    then obtain es where dec: "decode_rows ?rs = Inr es" by blast
    have d: "distinct (map so_id (sd_outbox db))" using assms(2) by (simp add: handed_def)
    have claimed: "r \<in> set ?rs" if "r \<in> set (sd_outbox db)" "so_id r \<in> so_id ` set ?rs" for r
    proof -
      from that(2) obtain r' where r': "r' \<in> set ?rs" "so_id r' = so_id r" by auto
      then have "r' \<in> set (sd_outbox db)" by (auto dest!: in_set_takeD simp: undispatched_def)
      with d that(1) r'(2) have "r' = r" by (auto simp: distinct_map inj_on_def)
      with r' show ?thesis by simp
    qed
    have ok: "so_id r \<in> D \<or> unmarshal_chat (so_payload r) \<noteq> None \<and> (\<forall>t. row_text r = Some t \<longrightarrow> t \<in> set sent1)"
      if "r \<in> set (sd_outbox db)" "so_dispatched r \<or> so_id r \<in> so_id ` set ?rs" for r
    proof (cases "so_id r \<in> so_id ` set ?rs")
      case True
      from claimed [OF that(1) True] show ?thesis
        using decode_rows_all [OF dec] row_text_envelopes sent(1) by blast
    next
      case False
      with that(2) have "so_dispatched r" by blast
      then show ?thesis using that(1) assms(2) sent(2) unfolding handed_def by blast
    qed
    have "so_id r \<in> D \<or> unmarshal_chat (so_payload r) \<noteq> None \<and> (\<forall>t. row_text r = Some t \<longrightarrow> t \<in> set sent1)"
      if "r \<in> set (sd_outbox db1)" "so_dispatched r" for r
    proof -
      from that(1) o obtain r0 where r0: "r0 \<in> set (sd_outbox db)"
        "r = (if so_id r0 \<in> so_id ` set ?rs then r0\<lparr>so_dispatched := True\<rparr> else r0)" by auto
      then have "so_dispatched r0 \<or> so_id r0 \<in> so_id ` set ?rs" "so_id r = so_id r0" "so_payload r = so_payload r0"
        "row_text r = row_text r0" using that(2) by (auto simp: row_text_def split: if_splits)
      with ok [OF r0(1)] show ?thesis by simp
    qed
    moreover have "map so_id (sd_outbox db1) = map so_id (sd_outbox db)" by (simp add: o)
    ultimately show ?thesis using d unfolding handed_def by simp
  qed
qed

lemma insert_handed:
  assumes "handed D sent db" and "only_inserts others"
  shows "handed D sent (others db)"
proof -
  have "distinct (map so_id (sd_outbox db))" using assms(1) by (simp add: handed_def)
  then obtain new where "sd_outbox (others db) = sd_outbox db @ new" "distinct (map so_id (sd_outbox (others db)))"
    "\<forall>r \<in> set new. \<not> so_dispatched r"
    using assms(2) by (auto simp: only_inserts_def)
  then show ?thesis using assms(1) by (auto simp: handed_def)
qed

lemma drain_handed:
  "\<lbrakk>drain takes batches db sent = (e, db1, sent1); handed D sent db; \<forall>(others, env) \<in> set batches. only_inserts others\<rbrakk> \<Longrightarrow>
     handed D sent1 db1"
proof (induction batches arbitrary: db sent)
  case (Cons b batches)
  obtain others env where x: "b = (others, env)" by fastforce
  obtain n err db2 sent2 where b: "DispatchBatch env batchSize (relay_dispatch takes) (others db) sent = ((n, err), db2, sent2)"
    by (metis surj_pair)
  have "handed D sent (others db)" using insert_handed Cons.prems(2,3) x by auto
  then have h: "handed D sent2 db2" by (rule DispatchBatch_handed [OF b])
  show ?case
  proof (cases "err = None \<and> \<not> n < batchSize")
    case True
    with Cons.IH [OF _ h] Cons.prems b x show ?thesis by auto
  next
    case False
    with Cons.prems(1) b x h show ?thesis by (auto split: option.splits if_splits)
  qed
qed simp

text \<open>A drain that returns without error has handed over all that was undispatched when it began.\<close>

lemma drain_returned:
  "\<lbrakk>drain takes batches db sent = (Some None, db1, sent1); distinct (map so_id (sd_outbox db));
    \<forall>(others, env) \<in> set batches. only_inserts others\<rbrakk> \<Longrightarrow>
     undispatched db1 = [] \<and> (\<exists>given. sent1 = sent @ given \<and> set (row_envelopes (undispatched db)) \<subseteq> set given)"
proof (induction batches arbitrary: db sent)
  case (Cons b batches)
  obtain others env where x: "b = (others, env)" by fastforce
  let ?db = "others db"
  obtain n err db2 sent2 where b: "DispatchBatch env batchSize (relay_dispatch takes) ?db sent = ((n, err), db2, sent2)"
    by (metis surj_pair)
  have err: "err = None" using Cons.prems(1) b x by (auto split: option.splits if_splits)
  note ok = DispatchBatch_ok [OF b [unfolded err]] DispatchBatch_sent [OF b [unfolded err]]
  have "only_inserts others" using Cons.prems(3) x by simp
  then obtain new where new: "sd_outbox ?db = sd_outbox db @ new" and dist: "distinct (map so_id (sd_outbox ?db))"
    using Cons.prems(2) unfolding only_inserts_def by blast
  have "set (undispatched db) \<subseteq> set (undispatched ?db)" by (auto simp: undispatched_def new)
  then have sub: "set (row_envelopes (undispatched db)) \<subseteq> set (row_envelopes (undispatched ?db))"
    by (auto simp: row_envelopes_def List.map_filter_def)
  show ?case
  proof (cases "n < batchSize")
    case True
    then have all: "take batchSize (undispatched ?db) = undispatched ?db" using ok(1) by simp
    have "db1 = db2" "sent1 = sent2" using Cons.prems(1) b x err True by simp_all
    with ok all mark_all_done(2) [of db2 ?db] sub show ?thesis by auto
  next
    case False
    then have d: "drain takes batches db2 sent2 = (Some None, db1, sent1)" using Cons.prems(1) b x err by simp
    have "distinct (map so_id (sd_outbox db2))" using dist ok(1) by simp
    then obtain given where g: "undispatched db1 = []" "sent1 = sent2 @ given" "set (row_envelopes (undispatched db2)) \<subseteq> set given"
      using Cons.IH [OF d] Cons.prems(3) by auto
    have "undispatched db2 = drop batchSize (undispatched ?db)" using undispatched_mark [OF dist] ok(1) by simp
    then have "row_envelopes (undispatched ?db) = row_envelopes (take batchSize (undispatched ?db)) @ row_envelopes (undispatched db2)"
      by (simp flip: row_envelopes_simps(3))
    with g ok(2) sub show ?thesis by auto
  qed
qed simp

text \<open>C24: whatever fails, whether the hub takes what it is given or not, and however often the relay polls, no event is
  marked as dispatched before it was read and handed to the hub, while messages keep being stored: every row marked
  at the end was marked at the start or its message has gone to the hub.\<close>

theorem relay_marks_only_dispatched:
  assumes "s_relay_Run takes polls db [] = (db', sent)" and "distinct (map so_id (sd_outbox db))"
    and "\<forall>batches \<in> set polls. \<forall>(others, env) \<in> set batches. \<forall>d. distinct (map so_id (sd_outbox d)) \<longrightarrow>
      (\<exists>new. sd_outbox (others d) = sd_outbox d @ new \<and> distinct (map so_id (sd_outbox (others d))) \<and> (\<forall>r \<in> set new. \<not> so_dispatched r))"
  shows "\<forall>r \<in> set (sd_outbox db'). so_dispatched r \<longrightarrow>
    (\<exists>r0 \<in> set (sd_outbox db). so_dispatched r0 \<and> so_id r0 = so_id r) \<or>
    (\<exists>m. unmarshal_chat (so_payload r) = Some m \<and> (\<forall>t. marshal_chat m = Some t \<longrightarrow> (so_room_id r, t) \<in> set sent))"
proof -
  define D where "D = so_id ` {r \<in> set (sd_outbox db). so_dispatched r}"
  have ins: "\<forall>(others, env) \<in> set batches. only_inserts others" if "batches \<in> set polls" for batches
    using assms(3) that unfolding only_inserts_def by blast
  have "handed D sent' db2"
    if "s_relay_Run takes ps d s = (db2, sent')" "handed D s d" "set ps \<subseteq> set polls" for ps d s db2 sent'
    using that
  proof (induction ps arbitrary: d s)
    case (Cons batches ps)
    obtain e d1 s1 where dr: "drain takes batches d s = (e, d1, s1)" using prod_cases3 by blast
    have "handed D s1 d1" by (rule drain_handed [OF dr Cons.prems(2) ins]) (use Cons.prems(3) in simp)
    with Cons.IH [of d1 s1] Cons.prems dr show ?case by (cases e) simp_all
  qed simp
  then have "handed D sent db'" using assms(1,2) by (auto simp: handed_def D_def)
  then show ?thesis by (fastforce simp: handed_def D_def row_text_def)
qed

theorem relay_marks_only_dispatched_witness:
  "\<exists>p1. let (db', sent) = s_relay_Run (\<lambda>_. True) [[(id, s_healthy)], [(id, s_healthy)]]
      (sample_sdb\<lparr>sd_outbox := [sample_outbox_row 1 p1]\<rparr>) [] in
    \<forall>r \<in> set (sd_outbox db'). so_dispatched r \<longrightarrow>
      (\<exists>m. unmarshal_chat (so_payload r) = Some m \<and> (\<forall>t. marshal_chat m = Some t \<longrightarrow> (so_room_id r, t) \<in> set sent))"
proof -
  obtain p1 where p1: "marshal_chat (sample_chat 1) = Some p1" using sample_chat_text by blast
  let ?db = "sample_sdb\<lparr>sd_outbox := [sample_outbox_row 1 p1]\<rparr>"
  obtain db' sent where r: "s_relay_Run (\<lambda>_. True) [[(id, s_healthy)], [(id, s_healthy)]] ?db [] = (db', sent)" by fastforce
  have "\<not> (\<exists>r0 \<in> set (sd_outbox ?db). so_dispatched r0 \<and> so_id r0 = so_id x)" for x by (simp add: sample_outbox_row_def)
  with relay_marks_only_dispatched [OF r] r show ?thesis by (intro exI [of _ p1]) auto
qed

end
