(* ===== verification/Single_Hub.thy ===== *)
theory Single_Hub
  imports Single_Store
begin

text \<open>
  The hub of the single-process variant (\<^verbatim>\<open>single-instance/internal/hub\<close>): one goroutine, \<^verbatim>\<open>Hub.Run\<close>, owns the
  rooms and takes registrations, removals and broadcasts from unbuffered channels; each connection has a
  reader (\<^verbatim>\<open>ReadPump\<close>) and a writer (\<^verbatim>\<open>WritePump\<close>) with a buffer of 256 messages between hub and writer.
  The goroutines are the steps of a state machine. A send on a closed channel and the closing of a closed
  channel panic in Go; they are values of the operations here.
\<close>

subsection \<open>The hub's operations\<close>

type_synonym client_id = nat

record s_hub =
  sh_rooms :: "(string \<times> client_id list) list"
  sh_send :: "client_id \<Rightarrow> bytes list"
  sh_closed :: "client_id \<Rightarrow> bool"

datatype panic = CloseOfClosed | SendOnClosed

definition sendBuffer :: nat where "sendBuffer = 256"

definition hub_New :: s_hub where
  "hub_New = \<lparr>sh_rooms = [], sh_send = (\<lambda>_. []), sh_closed = (\<lambda>_. False)\<rparr>"

definition room_members :: "s_hub \<Rightarrow> string \<Rightarrow> client_id list" where
  "room_members h r = (case map_of (sh_rooms h) r of None \<Rightarrow> [] | Some cs \<Rightarrow> cs)"

definition run_register :: "client_id \<Rightarrow> string \<Rightarrow> s_hub \<Rightarrow> s_hub" where
  "run_register c roomID h =
     (let room = room_members h roomID in
      h\<lparr>sh_rooms := AList.update roomID (if c \<in> set room then room else room @ [c]) (sh_rooms h)\<rparr>)"

definition run_unregister :: "client_id \<Rightarrow> string \<Rightarrow> s_hub \<Rightarrow> panic + s_hub" where
  "run_unregister c roomID h =
     (case map_of (sh_rooms h) roomID of
        None \<Rightarrow> Inr h
      | Some room \<Rightarrow>
          if c \<notin> set room then Inr h
          else if sh_closed h c then Inl CloseOfClosed
          else let room' = removeAll c room in
            Inr (h\<lparr>sh_closed := (sh_closed h)(c := True),
                   sh_rooms := (if room' = [] then AList.delete roomID (sh_rooms h) else AList.update roomID room' (sh_rooms h))\<rparr>))"

text \<open>One send of the broadcast loop; it waits (\<^const>\<open>None\<close>) while the buffer is full.\<close>

definition run_send :: "client_id \<Rightarrow> bytes \<Rightarrow> s_hub \<Rightarrow> panic + s_hub option" where
  "run_send c payload h =
     (if sh_closed h c then Inl SendOnClosed
      else if length (sh_send h c) < sendBuffer
      then Inr (Some (h\<lparr>sh_send := (sh_send h)(c := sh_send h c @ [payload])\<rparr>))
      else Inr None)"

subsection \<open>The goroutines\<close>

datatype reader = NotConnected | Registering | Reading | Unregistering | Gone

datatype writer = NotStarted | Running | Stopped

text \<open>
  The state: the hub; whether \<^verbatim>\<open>Run\<close> waits for a command or is in the broadcast loop, with the payload and the
  clients it has not reached; each client's room, reader and writer; what was written to its socket and what a failed
  write has lost. The log of all broadcasts and the place in it where a client joined record the history.
\<close>

record s_proc =
  sx_hub :: s_hub
  sx_pc :: "(bytes \<times> client_id list) option"
  sx_room :: "client_id \<Rightarrow> string"
  sx_reader :: "client_id \<Rightarrow> reader"
  sx_writer :: "client_id \<Rightarrow> writer"
  sx_written :: "client_id \<Rightarrow> bytes list"
  sx_lost :: "client_id \<Rightarrow> bytes list"
  sx_log :: "(string \<times> bytes) list"
  sx_since :: "client_id \<Rightarrow> nat"
  sx_panic :: bool

definition s_start :: s_proc where
  "s_start = \<lparr>sx_hub = hub_New, sx_pc = None, sx_room = (\<lambda>_. []), sx_reader = (\<lambda>_. NotConnected), sx_writer = (\<lambda>_. NotStarted),
     sx_written = (\<lambda>_. []), sx_lost = (\<lambda>_. []), sx_log = [], sx_since = (\<lambda>_. 0), sx_panic = False\<rparr>"

text \<open>\<^verbatim>\<open>handleWS\<close> up to the registration; a request without room is refused.\<close>

definition handleWS :: "string \<Rightarrow> client_id \<Rightarrow> s_proc \<Rightarrow> s_proc option" where
  "handleWS roomID c x =
     (if roomID = [] then None
      else Some (x\<lparr>sx_room := (sx_room x)(c := roomID), sx_reader := (sx_reader x)(c := Registering)\<rparr>))"

definition take_register :: "client_id \<Rightarrow> s_proc \<Rightarrow> s_proc" where
  "take_register c x =
     x\<lparr>sx_hub := run_register c (sx_room x c) (sx_hub x), sx_reader := (sx_reader x)(c := Reading),
       sx_writer := (sx_writer x)(c := Running), sx_since := (sx_since x)(c := length (sx_log x))\<rparr>"

definition take_unregister :: "client_id \<Rightarrow> s_proc \<Rightarrow> s_proc" where
  "take_unregister c x =
     (case run_unregister c (sx_room x c) (sx_hub x) of
        Inl _ \<Rightarrow> x\<lparr>sx_panic := True\<rparr>
      | Inr h \<Rightarrow> x\<lparr>sx_hub := h, sx_reader := (sx_reader x)(c := Gone)\<rparr>)"

definition take_broadcast :: "string \<Rightarrow> bytes \<Rightarrow> s_proc \<Rightarrow> s_proc" where
  "take_broadcast roomID payload x =
     x\<lparr>sx_pc := Some (payload, room_members (sx_hub x) roomID), sx_log := sx_log x @ [(roomID, payload)]\<rparr>"

definition send_next :: "client_id \<Rightarrow> bytes \<Rightarrow> client_id list \<Rightarrow> s_proc \<Rightarrow> s_proc option" where
  "send_next c payload cs x =
     (case run_send c payload (sx_hub x) of
        Inl _ \<Rightarrow> Some (x\<lparr>sx_panic := True\<rparr>)
      | Inr None \<Rightarrow> None
      | Inr (Some h) \<Rightarrow> Some (x\<lparr>sx_hub := h, sx_pc := Some (payload, remove1 c cs)\<rparr>))"

text \<open>
  The writer's next message: written, or lost with the writer stopped. A closed and empty channel ends the
  writer after the close frame; a failed ping or the end of the server ends it too.
\<close>

definition WritePump_message :: "bool \<Rightarrow> client_id \<Rightarrow> s_proc \<Rightarrow> s_proc option" where
  "WritePump_message written c x =
     (case sh_send (sx_hub x) c of
        [] \<Rightarrow> if sh_closed (sx_hub x) c then Some (x\<lparr>sx_writer := (sx_writer x)(c := Stopped)\<rparr>) else None
      | m # ms \<Rightarrow>
          (let x1 = x\<lparr>sx_hub := (sx_hub x)\<lparr>sh_send := (sh_send (sx_hub x))(c := ms)\<rparr>\<rparr> in
           if written then Some (x1\<lparr>sx_written := (sx_written x)(c := sx_written x c @ [m])\<rparr>)
           else Some (x1\<lparr>sx_lost := (sx_lost x)(c := sx_lost x c @ [m]), sx_writer := (sx_writer x)(c := Stopped)\<rparr>)))"

datatype write_event = ServerDone | MessageReady bool | PingTick bool

fun WritePump_select :: "write_event \<Rightarrow> client_id \<Rightarrow> s_proc \<Rightarrow> s_proc option" where
  "WritePump_select ServerDone c x = Some (x\<lparr>sx_writer := (sx_writer x)(c := Stopped)\<rparr>)"
| "WritePump_select (MessageReady written) c x = WritePump_message written c x"
| "WritePump_select (PingTick written) c x = (if written then Some x else Some (x\<lparr>sx_writer := (sx_writer x)(c := Stopped)\<rparr>))"

inductive s_step :: "s_proc \<Rightarrow> s_proc \<Rightarrow> bool" where
  s_connect: "\<lbrakk>sx_reader x c = NotConnected; handleWS r c x = Some y\<rbrakk> \<Longrightarrow> s_step x y"
| s_register: "\<lbrakk>sx_pc x = None; sx_reader x c = Registering\<rbrakk> \<Longrightarrow> s_step x (take_register c x)"
| s_read_end: "sx_reader x c = Reading \<Longrightarrow> s_step x (x\<lparr>sx_reader := (sx_reader x)(c := Unregistering)\<rparr>)"
| s_unregister: "\<lbrakk>sx_pc x = None; sx_reader x c = Unregistering\<rbrakk> \<Longrightarrow> s_step x (take_unregister c x)"
| s_broadcast: "sx_pc x = None \<Longrightarrow> s_step x (take_broadcast r p x)"
| s_send: "\<lbrakk>sx_pc x = Some (p, cs); c \<in> set cs; send_next c p cs x = Some y\<rbrakk> \<Longrightarrow> s_step x y"
| s_fan_end: "sx_pc x = Some (p, []) \<Longrightarrow> s_step x (x\<lparr>sx_pc := None\<rparr>)"
| s_write: "\<lbrakk>sx_writer x c = Running; WritePump_select ev c x = Some y\<rbrakk> \<Longrightarrow> s_step x y"

inductive s_reachable :: "s_proc \<Rightarrow> bool" where
  s_init: "s_reachable s_start"
| s_next: "\<lbrakk>s_reachable x; s_step x y\<rbrakk> \<Longrightarrow> s_reachable y"

subsection \<open>The invariant\<close>

definition joined :: "s_proc \<Rightarrow> client_id \<Rightarrow> bool" where
  "joined x c \<longleftrightarrow> sx_reader x c = Reading \<or> sx_reader x c = Unregistering"

definition unsent :: "s_proc \<Rightarrow> client_id \<Rightarrow> bytes list" where
  "unsent x c = (case sx_pc x of None \<Rightarrow> [] | Some (p, cs) \<Rightarrow> if c \<in> set cs then [p] else [])"

text \<open>The payloads broadcast to a client's room since it joined.\<close>

definition due :: "s_proc \<Rightarrow> client_id \<Rightarrow> bytes list" where
  "due x c = map snd (filter (\<lambda>e. fst e = sx_room x c) (drop (sx_since x c) (sx_log x)))"

definition received :: "s_proc \<Rightarrow> client_id \<Rightarrow> bytes list" where
  "received x c = sx_written x c @ sx_lost x c @ sh_send (sx_hub x) c"

definition rooms_ok :: "s_proc \<Rightarrow> bool" where
  "rooms_ok x \<longleftrightarrow> distinct (map fst (sh_rooms (sx_hub x))) \<and>
     (\<forall>r. distinct (room_members (sx_hub x) r)) \<and>
     (\<forall>r c. c \<in> set (room_members (sx_hub x) r) \<longleftrightarrow> joined x c \<and> sx_room x c = r)"

definition client_ok :: "s_proc \<Rightarrow> client_id \<Rightarrow> bool" where
  "client_ok x c \<longleftrightarrow>
     (sh_closed (sx_hub x) c \<longleftrightarrow> sx_reader x c = Gone) \<and> length (sh_send (sx_hub x) c) \<le> sendBuffer \<and>
     (sx_writer x c \<noteq> Stopped \<longrightarrow> sx_lost x c = []) \<and>
     (sx_reader x c = NotConnected \<or> sx_reader x c = Registering \<longrightarrow> sx_writer x c = NotStarted \<and> received x c = []) \<and>
     (joined x c \<longrightarrow> sx_since x c \<le> length (sx_log x) \<and> received x c @ unsent x c = due x c)"

definition s_inv :: "s_proc \<Rightarrow> bool" where
  "s_inv x \<longleftrightarrow> \<not> sx_panic x \<and> rooms_ok x \<and> (\<forall>c. client_ok x c) \<and>
     (\<forall>p cs. sx_pc x = Some (p, cs) \<longrightarrow> distinct cs \<and> (\<forall>c \<in> set cs. joined x c))"

end
