(* ===== verification/Single_Hub_Props.thy ===== *)
theory Single_Hub_Props
  imports Single_Hub
begin

text \<open>
  The hub of the single-process variant never panics and hands every broadcast to every client of the room, once
  and in order, as long as the client is joined; a writer that has stopped blocks it for ever once its buffer is full.
\<close>

subsection \<open>Rooms\<close>

lemma members_register:
  "room_members (run_register c r h) q =
     (if q = r then (if c \<in> set (room_members h r) then room_members h r else room_members h r @ [c]) else room_members h q)"
  by (cases "map_of (sh_rooms h) r") (simp_all add: run_register_def room_members_def Let_def update_conv')

lemma register_fields [simp]:
  "sh_send (run_register c r h) = sh_send h" "sh_closed (run_register c r h) = sh_closed h"
  by (simp_all add: run_register_def Let_def)

lemma distinct_register: "distinct (map fst (sh_rooms h)) \<Longrightarrow> distinct (map fst (sh_rooms (run_register c r h)))"
  by (simp add: run_register_def Let_def distinct_update)

lemma map_of_delete: "map_of (AList.delete k xs) q = (if q = k then None else map_of xs q)"
  by (simp add: delete_conv')

lemma run_unregister_effect:
  assumes "run_unregister c r h = Inr h'" and "c \<in> set (room_members h r)" and "distinct (map fst (sh_rooms h))"
  shows "sh_send h' = sh_send h \<and> sh_closed h' = (sh_closed h)(c := True) \<and> distinct (map fst (sh_rooms h')) \<and>
    (\<forall>q. room_members h' q = (if q = r then removeAll c (room_members h r) else room_members h q))"
proof -
  obtain room where room: "map_of (sh_rooms h) r = Some room" "c \<in> set room"
    using assms(2) by (cases "map_of (sh_rooms h) r") (auto simp: room_members_def)
  then have h': "h' = h\<lparr>sh_closed := (sh_closed h)(c := True),
      sh_rooms := (if removeAll c room = [] then AList.delete r (sh_rooms h) else AList.update r (removeAll c room) (sh_rooms h))\<rparr>"
    using assms(1) by (auto simp: run_unregister_def Let_def split: if_splits)
  show ?thesis
    using assms(3) room by (auto simp: h' room_members_def map_of_delete update_conv' distinct_update distinct_delete)
qed

lemma run_unregister_open: "\<not> sh_closed h c \<Longrightarrow> \<exists>h'. run_unregister c r h = Inr h'"
  by (simp add: run_unregister_def Let_def split: option.split)

subsection \<open>Every step keeps the invariant\<close>

lemmas hub_state_defs = s_inv_def rooms_ok_def client_ok_def joined_def unsent_def due_def received_def

lemma s_invD:
  assumes "s_inv x"
  shows "\<not> sx_panic x" "distinct (map fst (sh_rooms (sx_hub x)))" "distinct (room_members (sx_hub x) r)"
    "c \<in> set (room_members (sx_hub x) r) \<longleftrightarrow> joined x c \<and> sx_room x c = r" "client_ok x c"
    "sx_pc x = Some (p, cs) \<Longrightarrow> distinct cs" "sx_pc x = Some (p, cs) \<Longrightarrow> c \<in> set cs \<Longrightarrow> joined x c"
  using assms by (auto simp: s_inv_def rooms_ok_def)

lemma s_invI:
  assumes "\<not> sx_panic x" "distinct (map fst (sh_rooms (sx_hub x)))" "\<And>r. distinct (room_members (sx_hub x) r)"
    "\<And>r c. c \<in> set (room_members (sx_hub x) r) \<longleftrightarrow> joined x c \<and> sx_room x c = r" "\<And>c. client_ok x c"
    "\<And>p cs. sx_pc x = Some (p, cs) \<Longrightarrow> distinct cs \<and> (\<forall>c \<in> set cs. joined x c)"
  shows "s_inv x"
  using assms by (simp add: s_inv_def rooms_ok_def)

lemma s_inv_start: "s_inv s_start"
  by (simp add: s_start_def hub_New_def hub_state_defs room_members_def)

lemma connect_keeps:
  assumes "s_inv x" "sx_reader x c = NotConnected" "handleWS r c x = Some y"
  shows "s_inv y"
proof -
  have y: "y = x\<lparr>sx_room := (sx_room x)(c := r), sx_reader := (sx_reader x)(c := Registering)\<rparr>"
    using assms(3) by (simp add: handleWS_def split: if_splits)
  have nj: "\<not> joined x c" using assms(2) by (simp add: joined_def)
  have j: "joined y d \<longleftrightarrow> joined x d" for d using assms(2) by (auto simp: y joined_def)
  show ?thesis
  proof (rule s_invI)
    show "client_ok y d" for d
      using s_invD(5) [OF assms(1), of d] assms(2) by (cases "d = c") (auto simp: y client_ok_def joined_def received_def unsent_def due_def)
    show "d \<in> set (room_members (sx_hub y) q) \<longleftrightarrow> joined y d \<and> sx_room y d = q" for d q
      using s_invD(4) [OF assms(1), of d q] nj by (auto simp: y joined_def assms(2))
  qed (use s_invD [OF assms(1)] j in \<open>simp_all add: y\<close>)
qed

lemma register_keeps:
  assumes "s_inv x" "sx_pc x = None" "sx_reader x c = Registering"
  shows "s_inv (take_register c x)"
proof (rule s_invI)
  let ?y = "take_register c x"
  have c: "c \<notin> set (room_members (sx_hub x) q)" for q using s_invD(4) [OF assms(1)] assms(3) by (simp add: joined_def)
  have j: "joined ?y d \<longleftrightarrow> d = c \<or> joined x d" for d by (auto simp: take_register_def joined_def)
  show "distinct (room_members (sx_hub ?y) q)" for q
    using s_invD(3) [OF assms(1)] c by (simp add: take_register_def members_register)
  show "d \<in> set (room_members (sx_hub ?y) q) \<longleftrightarrow> joined ?y d \<and> sx_room ?y d = q" for d q
    using s_invD(4) [OF assms(1)] c j by (auto simp: take_register_def members_register)
  show "client_ok ?y d" for d
    using s_invD(5) [OF assms(1), of d] assms(2,3)
    by (cases "d = c") (auto simp: take_register_def client_ok_def joined_def received_def unsent_def due_def)
qed (use s_invD [OF assms(1)] assms(2) in \<open>simp_all add: take_register_def distinct_register\<close>)

lemma read_end_keeps:
  assumes "s_inv x" "sx_reader x c = Reading"
  shows "s_inv (x\<lparr>sx_reader := (sx_reader x)(c := Unregistering)\<rparr>)" (is "s_inv ?y")
proof (rule s_invI)
  have j: "joined ?y d \<longleftrightarrow> joined x d" for d using assms(2) by (auto simp: joined_def)
  show "d \<in> set (room_members (sx_hub ?y) q) \<longleftrightarrow> joined ?y d \<and> sx_room ?y d = q" for d q
    using s_invD(4) [OF assms(1)] j by simp
  show "client_ok ?y d" for d
    using s_invD(5) [OF assms(1), of d] assms(2)
    by (cases "d = c") (auto simp: client_ok_def joined_def received_def unsent_def due_def)
  show "sx_pc ?y = Some (p, cs) \<Longrightarrow> distinct cs \<and> (\<forall>d \<in> set cs. joined ?y d)" for p cs
    using s_invD(6,7) [OF assms(1)] j by simp
qed (use s_invD [OF assms(1)] in simp_all)

lemma unregister_keeps:
  assumes "s_inv x" "sx_pc x = None" "sx_reader x c = Unregistering"
  shows "s_inv (take_unregister c x)" (is "s_inv ?y")
proof -
  have m: "c \<in> set (room_members (sx_hub x) (sx_room x c))" using s_invD(4) [OF assms(1)] assms(3) by (simp add: joined_def)
  have "\<not> sh_closed (sx_hub x) c" using s_invD(5) [OF assms(1), of c] assms(3) by (simp add: client_ok_def)
  then obtain h where u: "run_unregister c (sx_room x c) (sx_hub x) = Inr h" using run_unregister_open by blast
  note eff = run_unregister_effect [OF u m s_invD(2) [OF assms(1)]]
  have y: "?y = x\<lparr>sx_hub := h, sx_reader := (sx_reader x)(c := Gone)\<rparr>" by (simp add: take_unregister_def u)
  have j: "joined ?y d \<longleftrightarrow> d \<noteq> c \<and> joined x d" for d by (auto simp: y joined_def)
  show ?thesis
  proof (rule s_invI)
    show "d \<in> set (room_members (sx_hub ?y) q) \<longleftrightarrow> joined ?y d \<and> sx_room ?y d = q" for d q
      using s_invD(4) [OF assms(1), of d q] eff j by (auto simp: y)
    show "distinct (room_members (sx_hub ?y) q)" for q
      using s_invD(3) [OF assms(1), of q] eff by (auto simp: y intro: distinct_removeAll)
    show "client_ok ?y d" for d
      using s_invD(5) [OF assms(1), of d] eff assms(2,3)
      by (cases "d = c") (auto simp: y client_ok_def joined_def received_def unsent_def due_def)
  qed (use s_invD [OF assms(1)] assms(2) eff in \<open>simp_all add: y\<close>)
qed

lemma broadcast_keeps:
  assumes "s_inv x" "sx_pc x = None"
  shows "s_inv (take_broadcast r p x)" (is "s_inv ?y")
proof (rule s_invI)
  have j: "joined ?y d \<longleftrightarrow> joined x d" for d by (simp add: take_broadcast_def joined_def)
  show "d \<in> set (room_members (sx_hub ?y) q) \<longleftrightarrow> joined ?y d \<and> sx_room ?y d = q" for d q
    using s_invD(4) [OF assms(1)] j by (simp add: take_broadcast_def)
  show "client_ok ?y d" for d
    using s_invD(5) [OF assms(1), of d] s_invD(4) [OF assms(1), of d r] assms(2)
    by (auto simp: take_broadcast_def client_ok_def joined_def received_def unsent_def due_def)
  show "sx_pc ?y = Some (q, cs) \<Longrightarrow> distinct cs \<and> (\<forall>d \<in> set cs. joined ?y d)" for q cs
    using s_invD(3,4) [OF assms(1)] j by (auto simp: take_broadcast_def)
qed (use s_invD [OF assms(1)] in \<open>simp_all add: take_broadcast_def\<close>)

lemma send_keeps:
  assumes "s_inv x" "sx_pc x = Some (p, cs)" "c \<in> set cs" "send_next c p cs x = Some y"
  shows "s_inv y"
proof -
  have jc: "joined x c" by (rule s_invD(7) [OF assms(1-3)])
  then have "\<not> sh_closed (sx_hub x) c" using s_invD(5) [OF assms(1), of c] by (auto simp: client_ok_def joined_def)
  then have y: "y = x\<lparr>sx_hub := (sx_hub x)\<lparr>sh_send := (sh_send (sx_hub x))(c := sh_send (sx_hub x) c @ [p])\<rparr>,
      sx_pc := Some (p, remove1 c cs)\<rparr>" and len: "length (sh_send (sx_hub x) c) < sendBuffer"
    using assms(4) by (auto simp: send_next_def run_send_def split: if_splits)
  have d: "distinct cs" by (rule s_invD(6) [OF assms(1,2)])
  have j: "joined y d \<longleftrightarrow> joined x d" for d by (simp add: y joined_def)
  have mem: "room_members (sx_hub y) q = room_members (sx_hub x) q" for q by (simp add: y room_members_def)
  show ?thesis
  proof (rule s_invI)
    show "d \<in> set (room_members (sx_hub y) q) \<longleftrightarrow> joined y d \<and> sx_room y d = q" for d q
      using s_invD(4) [OF assms(1)] j mem by (simp add: y)
    show "client_ok y e" for e
      using s_invD(5) [OF assms(1), of e] assms(2,3) d len jc
      by (cases "e = c") (auto simp: y client_ok_def joined_def received_def unsent_def due_def)
    show "sx_pc y = Some (q, ds) \<Longrightarrow> distinct ds \<and> (\<forall>e \<in> set ds. joined y e)" for q ds
      using d s_invD(7) [OF assms(1,2)] j by (auto simp: y)
  qed (use s_invD [OF assms(1)] mem in \<open>simp_all add: y\<close>)
qed

lemma fan_end_keeps:
  assumes "s_inv x" "sx_pc x = Some (p, [])"
  shows "s_inv (x\<lparr>sx_pc := None\<rparr>)" (is "s_inv ?y")
proof (rule s_invI)
  show "client_ok ?y d" for d
    using s_invD(5) [OF assms(1), of d] assms(2) by (auto simp: client_ok_def joined_def received_def unsent_def due_def)
  show "d \<in> set (room_members (sx_hub ?y) q) \<longleftrightarrow> joined ?y d \<and> sx_room ?y d = q" for d q
    using s_invD(4) [OF assms(1)] by (simp add: joined_def)
qed (use s_invD [OF assms(1)] in simp_all)

text \<open>A step of a writer changes its buffer, its record of writes and itself only.\<close>

lemma writer_keeps:
  assumes "s_inv x" "sx_writer x c = Running"
    and y: "y = x\<lparr>sx_hub := (sx_hub x)\<lparr>sh_send := (sh_send (sx_hub x))(c := ms)\<rparr>, sx_written := (sx_written x)(c := ws),
      sx_lost := (sx_lost x)(c := ls), sx_writer := (sx_writer x)(c := wr)\<rparr>"
    and "ws @ ls @ ms = received x c" "length ms \<le> sendBuffer" "wr \<noteq> NotStarted" "wr \<noteq> Stopped \<longrightarrow> ls = []"
  shows "s_inv y"
proof -
  have mem: "room_members (sx_hub y) q = room_members (sx_hub x) q" for q by (simp add: y room_members_def)
  have j: "joined y d \<longleftrightarrow> joined x d" for d by (simp add: y joined_def)
  have started: "sx_reader x c \<noteq> NotConnected \<and> sx_reader x c \<noteq> Registering"
    using s_invD(5) [OF assms(1), of c] assms(2) by (auto simp: client_ok_def)
  have rec: "received y d = received x d" for d using assms(4) by (auto simp: y received_def)
  have same: "unsent y d = unsent x d" "due y d = due x d" for d by (simp_all add: y unsent_def due_def)
  show ?thesis
  proof (rule s_invI)
    show "d \<in> set (room_members (sx_hub y) q) \<longleftrightarrow> joined y d \<and> sx_room y d = q" for d q
      using s_invD(4) [OF assms(1)] j mem by (simp add: y)
    show "client_ok y d" for d
      using s_invD(5) [OF assms(1), of d] assms(5-7) started unfolding client_ok_def rec same j
      by (cases "d = c") (auto simp: y)
    show "sx_pc y = Some (q, ds) \<Longrightarrow> distinct ds \<and> (\<forall>e \<in> set ds. joined y e)" for q ds
      using s_invD(6,7) [OF assms(1)] j by (simp add: y)
  qed (use s_invD [OF assms(1)] mem in \<open>simp_all add: y\<close>)
qed

lemma write_keeps:
  assumes "s_inv x" "sx_writer x c = Running" "WritePump_message ok c x = Some y"
  shows "s_inv y"
proof -
  have ok: "client_ok x c" by (rule s_invD(5) [OF assms(1)])
  then have lost: "sx_lost x c = []" and len: "length (sh_send (sx_hub x) c) \<le> sendBuffer"
    using assms(2) by (simp_all add: client_ok_def)
  show ?thesis
  proof (cases "sh_send (sx_hub x) c")
    case Nil
    then have "y = x\<lparr>sx_writer := (sx_writer x)(c := Stopped)\<rparr>" using assms(3) by (auto simp: WritePump_message_def split: if_splits)
    then show ?thesis using Nil lost
      by (intro writer_keeps [OF assms(1,2), where ms = "[]" and ws = "sx_written x c" and ls = "[]" and wr = Stopped])
        (auto simp: received_def fun_upd_idem)
  next
    case (Cons m ms)
    show ?thesis
    proof (cases ok)
      case True
      then show ?thesis using Cons lost len assms(2,3)
        by (intro writer_keeps [OF assms(1,2), where ms = ms and ws = "sx_written x c @ [m]" and ls = "[]" and wr = Running])
          (auto simp: WritePump_message_def received_def fun_upd_idem Let_def)
    next
      case False
      then show ?thesis using Cons lost len assms(3)
        by (intro writer_keeps [OF assms(1,2), where ms = ms and ws = "sx_written x c" and ls = "[m]" and wr = Stopped])
          (auto simp: WritePump_message_def received_def fun_upd_idem Let_def)
    qed
  qed
qed

lemma write_stop_keeps:
  assumes "s_inv x" "sx_writer x c = Running"
  shows "s_inv (x\<lparr>sx_writer := (sx_writer x)(c := Stopped)\<rparr>)"
  using s_invD(5) [OF assms(1), of c] assms(2)
  by (intro writer_keeps [OF assms, where ms = "sh_send (sx_hub x) c" and ws = "sx_written x c" and ls = "[]" and wr = Stopped])
    (auto simp: client_ok_def received_def fun_upd_idem)

lemma select_keeps:
  assumes "s_inv x" "sx_writer x c = Running" "WritePump_select ev c x = Some y"
  shows "s_inv y"
  using assms by (cases ev) (auto intro: write_keeps write_stop_keeps split: if_splits)

lemmas hub_steps_keep = connect_keeps register_keeps read_end_keeps unregister_keeps broadcast_keeps send_keeps fan_end_keeps
  select_keeps

lemma s_step_keeps: "\<lbrakk>s_step x y; s_inv x\<rbrakk> \<Longrightarrow> s_inv y"
  by (induction rule: s_step.induct) (blast intro: hub_steps_keep)+

lemma s_reachable_inv: "s_reachable x \<Longrightarrow> s_inv x"
  by (induction rule: s_reachable.induct) (auto intro: s_inv_start s_step_keeps)

lemma joined_due: "\<lbrakk>s_inv h; joined h c\<rbrakk> \<Longrightarrow> sx_written h c @ sx_lost h c @ sh_send (sx_hub h) c @ unsent h c = due h c"
  using s_invD(5) [of h c] by (simp add: client_ok_def received_def)

text \<open>C29: in every reachable state of the hub no send has met a closed channel and none was closed twice, no
  buffer holds more than 256 messages, and a joined client has been handed exactly the messages broadcast to its
  room since it joined, once each and in order: written, lost by the failed last write, buffered, or next to be sent.\<close>

theorem single_hub_delivers:
  assumes "s_reachable x"
  shows "\<not> sx_panic x \<and> (\<forall>c. length (sh_send (sx_hub x) c) \<le> 256) \<and>
    (\<forall>c. joined x c \<longrightarrow> \<not> sh_closed (sx_hub x) c \<and> sx_written x c @ sx_lost x c @ sh_send (sx_hub x) c @ unsent x c =
      map snd (filter (\<lambda>e. fst e = sx_room x c) (drop (sx_since x c) (sx_log x))))"
proof (intro conjI allI impI)
  note inv = s_reachable_inv [OF assms]
  show "\<not> sx_panic x" by (rule s_invD(1) [OF inv])
  fix c
  have ok: "client_ok x c" by (rule s_invD(5) [OF inv])
  then show "length (sh_send (sx_hub x) c) \<le> 256" by (simp add: client_ok_def sendBuffer_def)
  assume "joined x c"
  with ok show "\<not> sh_closed (sx_hub x) c" "sx_written x c @ sx_lost x c @ sh_send (sx_hub x) c @ unsent x c =
      map snd (filter (\<lambda>e. fst e = sx_room x c) (drop (sx_since x c) (sx_log x)))"
    by (auto simp: client_ok_def joined_def received_def due_def)
qed

text \<open>A client joins a room, a message is broadcast, sent and written.\<close>

definition demo_states :: "s_proc list" where
  "demo_states =
     (let a = the (handleWS ''r1'' 0 s_start); b = take_register 0 a; d = take_broadcast ''r1'' ''hi'' b;
          e = the (send_next 0 ''hi'' [0] d); f = the (WritePump_message True 0 e) in [a, b, d, e, f])"

lemma demo_reachable: "s_reachable (last demo_states)"
proof -
  define a where "a = the (handleWS ''r1'' 0 s_start)"
  define b where "b = take_register 0 a"
  define d where "d = take_broadcast ''r1'' ''hi'' b"
  define e where "e = the (send_next 0 ''hi'' [0] d)"
  define f where "f = the (WritePump_message True 0 e)"
  have a': "a = s_start\<lparr>sx_room := (\<lambda>_. [])(0 := ''r1''), sx_reader := (\<lambda>_. NotConnected)(0 := Registering)\<rparr>"
    by (simp add: a_def handleWS_def s_start_def)
  have b': "b = a\<lparr>sx_hub := hub_New\<lparr>sh_rooms := [(''r1'', [0])]\<rparr>, sx_reader := (\<lambda>_. NotConnected)(0 := Reading),
      sx_writer := (\<lambda>_. NotStarted)(0 := Running), sx_since := (\<lambda>_. 0)(0 := 0)\<rparr>"
    by (simp add: b_def a' take_register_def run_register_def s_start_def hub_New_def room_members_def Let_def)
  have d': "d = b\<lparr>sx_pc := Some (''hi'', [0]), sx_log := [(''r1'', ''hi'')]\<rparr>"
    by (simp add: d_def b' a' take_broadcast_def room_members_def s_start_def hub_New_def)
  have send: "send_next 0 ''hi'' [0] d = Some (d\<lparr>sx_hub := hub_New\<lparr>sh_rooms := [(''r1'', [0])], sh_send := (\<lambda>_. [])(0 := [''hi''])\<rparr>,
      sx_pc := Some (''hi'', [])\<rparr>)"
    by (simp add: d' b' a' send_next_def run_send_def s_start_def hub_New_def sendBuffer_def)
  have wr: "\<exists>f. WritePump_message True 0 e = Some f" by (simp add: e_def send WritePump_message_def)
  have "s_reachable a"
    by (rule s_next [OF s_init s_connect [of _ 0 "''r1''"]]) (simp_all add: s_start_def handleWS_def a_def)
  then have "s_reachable b"
    unfolding b_def by (rule s_next [OF _ s_register]) (simp_all add: a' s_start_def)
  then have "s_reachable d"
    unfolding d_def by (rule s_next [OF _ s_broadcast]) (simp add: b' a' s_start_def)
  then have "s_reachable e"
    by (rule s_next [OF _ s_send [of _ "''hi''" "[0]" 0]]) (simp add: d', simp, simp add: e_def send)
  moreover have "sx_writer e 0 = Running" unfolding e_def send by (simp add: d' b')
  ultimately have "s_reachable f"
    using wr s_next [OF _ s_write [of _ 0 "MessageReady True"]] by (force simp: f_def)
  then show ?thesis by (simp add: demo_states_def f_def e_def d_def b_def a_def Let_def)
qed

theorem single_hub_delivers_witness:
  "joined (last demo_states) 0 \<and> \<not> sx_panic (last demo_states) \<and> \<not> sh_closed (sx_hub (last demo_states)) 0"
proof -
  have "joined (last demo_states) 0"
    by (simp add: demo_states_def handleWS_def take_register_def run_register_def take_broadcast_def send_next_def run_send_def
        WritePump_message_def joined_def s_start_def hub_New_def room_members_def sendBuffer_def Let_def)
  with single_hub_delivers [OF demo_reachable] show ?thesis by blast
qed

subsection \<open>A stopped writer\<close>

text \<open>The hub waits at a client whose buffer is full and whose writer has stopped.\<close>

definition hub_stuck :: "client_id \<Rightarrow> s_proc \<Rightarrow> bool" where
  "hub_stuck c x \<longleftrightarrow> sx_writer x c = Stopped \<and> length (sh_send (sx_hub x) c) = sendBuffer \<and> \<not> sh_closed (sx_hub x) c \<and>
     joined x c \<and> (\<exists>p cs. sx_pc x = Some (p, cs) \<and> c \<in> set cs)"

lemma hub_stuck_step: "\<lbrakk>s_step x y; hub_stuck c x\<rbrakk> \<Longrightarrow> hub_stuck c y \<and> sh_rooms (sx_hub y) = sh_rooms (sx_hub x) \<and> sx_log y = sx_log x"
proof (induction rule: s_step.induct)
  case (s_send x p cs d y)
  have "d \<noteq> c" using s_send by (auto simp: hub_stuck_def send_next_def run_send_def)
  with s_send show ?case
    by (auto simp: hub_stuck_def send_next_def run_send_def joined_def split: if_splits)
next
  case (s_write x d ev y)
  have "d \<noteq> c" using s_write by (auto simp: hub_stuck_def)
  with s_write show ?case
    by (cases ev) (auto simp: hub_stuck_def WritePump_message_def joined_def Let_def split: list.splits if_splits)
qed (auto simp: hub_stuck_def handleWS_def joined_def split: if_splits)

lemma stuck_for_ever:
  "\<lbrakk>s_step\<^sup>*\<^sup>* x y; hub_stuck c x\<rbrakk> \<Longrightarrow> hub_stuck c y \<and> sh_rooms (sx_hub y) = sh_rooms (sx_hub x) \<and> sx_log y = sx_log x"
  by (induction rule: rtranclp_induct) (auto dest: hub_stuck_step)

text \<open>Once the hub waits at a client whose writer has stopped with a full buffer, it waits for ever: no
  client joins or leaves a room any more and no broadcast is taken.\<close>

lemma single_hub_deadlock:
  assumes "hub_stuck c x" and "s_step\<^sup>*\<^sup>* x y"
  shows "(\<exists>p cs. sx_pc y = Some (p, cs) \<and> c \<in> set cs) \<and> sh_rooms (sx_hub y) = sh_rooms (sx_hub x) \<and> sx_log y = sx_log x"
  using stuck_for_ever [OF assms(2,1)] by (auto simp: hub_stuck_def)

text \<open>Such a state is reached: the writer of the only client stops and 257 messages are broadcast to its room.\<close>

definition filled :: "nat \<Rightarrow> s_proc \<Rightarrow> bool" where
  "filled n x \<longleftrightarrow> sx_pc x = None \<and> sx_reader x 0 = Reading \<and> sx_writer x 0 = Stopped \<and> room_members (sx_hub x) ''r1'' = [0] \<and>
     length (sh_send (sx_hub x) 0) = n \<and> \<not> sh_closed (sx_hub x) 0"

lemma filled_more:
  assumes "s_reachable x" "filled n x" "n < sendBuffer"
  shows "\<exists>y. s_reachable y \<and> filled (Suc n) y"
proof -
  let ?d = "take_broadcast ''r1'' ''hi'' x"
  let ?h = "(sx_hub x)\<lparr>sh_send := (sh_send (sx_hub x))(0 := sh_send (sx_hub x) 0 @ [''hi''])\<rparr>"
  let ?e = "?d\<lparr>sx_hub := ?h, sx_pc := Some (''hi'', [])\<rparr>"
  have "s_reachable ?d" by (rule s_next [OF assms(1) s_broadcast]) (use assms(2) in \<open>simp add: filled_def\<close>)
  moreover have "s_step ?d ?e"
    using assms(2,3) by (intro s_send [of _ "''hi''" "[0]" 0]) (simp_all add: filled_def take_broadcast_def send_next_def run_send_def)
  moreover have "s_step ?e (?e\<lparr>sx_pc := None\<rparr>)" by (rule s_fan_end [of _ "''hi''"]) simp
  ultimately have "s_reachable (?e\<lparr>sx_pc := None\<rparr>)" by (meson s_next)
  moreover have "filled (Suc n) (?e\<lparr>sx_pc := None\<rparr>)" using assms(2) by (simp add: filled_def take_broadcast_def room_members_def)
  ultimately show ?thesis by blast
qed

lemma filled_reachable: "n \<le> sendBuffer \<Longrightarrow> \<exists>x. s_reachable x \<and> filled n x"
proof (induction n)
  case 0
  let ?a = "the (handleWS ''r1'' 0 s_start)"
  let ?b = "take_register 0 ?a"
  have "s_reachable ?a" by (rule s_next [OF s_init s_connect [of _ 0 "''r1''"]]) (simp_all add: s_start_def handleWS_def)
  then have "s_reachable ?b" by (rule s_next [OF _ s_register]) (simp_all add: s_start_def handleWS_def)
  then have "s_reachable (?b\<lparr>sx_writer := (sx_writer ?b)(0 := Stopped)\<rparr>)"
    by (rule s_next [OF _ s_write [of _ 0 ServerDone]]) (simp_all add: take_register_def)
  moreover have "filled 0 (?b\<lparr>sx_writer := (sx_writer ?b)(0 := Stopped)\<rparr>)"
    by (simp add: filled_def handleWS_def take_register_def run_register_def s_start_def hub_New_def room_members_def Let_def)
  ultimately show ?case by blast
next
  case (Suc n)
  then show ?case using filled_more by (meson Suc_le_lessD less_imp_le_nat)
qed

lemma stuck_reachable: "\<exists>x. s_reachable x \<and> hub_stuck 0 x \<and> sx_reader x 0 = Reading"
proof -
  obtain x where x: "s_reachable x" "filled sendBuffer x" using filled_reachable by blast
  let ?d = "take_broadcast ''r1'' ''hi'' x"
  have "s_reachable ?d" by (rule s_next [OF x(1) s_broadcast]) (use x(2) in \<open>simp add: filled_def\<close>)
  moreover have "hub_stuck 0 ?d \<and> sx_reader ?d 0 = Reading" using x(2) by (simp add: filled_def hub_stuck_def take_broadcast_def joined_def)
  ultimately show ?thesis by blast
qed

lemma single_hub_deadlock_reached:
  "\<exists>x y. s_reachable x \<and> hub_stuck 0 x \<and> s_step x y \<and> sx_reader y 0 = Unregistering \<and> sx_pc y \<noteq> None"
proof -
  obtain x where x: "s_reachable x" "hub_stuck 0 x" "sx_reader x 0 = Reading" using stuck_reachable by blast
  let ?y = "x\<lparr>sx_reader := (sx_reader x)(0 := Unregistering)\<rparr>"
  have st: "s_step x ?y" by (rule s_read_end [OF x(3)])
  then have "sx_pc ?y \<noteq> None" using single_hub_deadlock [OF x(2), of ?y] by auto
  then have "sx_reader ?y 0 = Unregistering \<and> sx_pc ?y \<noteq> None" by simp
  with x(1,2) st show ?thesis by blast
qed

end
