(* ===== verification/Single_System.thy ===== *)
theory Single_System
  imports Single_Props Single_Hub_Props
begin

text \<open>
  The whole of the single instance: a frame is stored with its event, the relay drains the outbox into the hub, and
  the hub hands the text to the clients of the room.
\<close>





end
