(* ===== verification/Go_Url.thy ===== *)
theory Go_Url
  imports Envelope
begin

text \<open>
  Query strings as Go's \<^verbatim>\<open>net/url\<close> writes and reads them: \<^verbatim>\<open>QueryEscape\<close> and \<^verbatim>\<open>QueryUnescape\<close>,
  \<^verbatim>\<open>Values.Set\<close>, \<^verbatim>\<open>Values.Encode\<close> (keys sorted) and \<^verbatim>\<open>URL.Query\<close>, which skips the pieces it cannot read and
  gives nothing for more than 10000 of them. What is encoded is read back.
\<close>

subsection \<open>Escapes\<close>

definition unreserved :: "char \<Rightarrow> bool" where
  "unreserved c \<longleftrightarrow> 48 \<le> byte_val c \<and> byte_val c \<le> 57 \<or> 65 \<le> byte_val c \<and> byte_val c \<le> 90 \<or>
     97 \<le> byte_val c \<and> byte_val c \<le> 122 \<or> c \<in> {CHR ''-'', CHR ''_'', CHR ''.'', CHR ''~''}"

definition upperhex :: "nat \<Rightarrow> char" where
  "upperhex n = (if n < 10 then char_of (48 + n) else char_of (55 + n))"

definition escape_char :: "char \<Rightarrow> string" where
  "escape_char c =
     (if unreserved c then [c]
      else if c = CHR '' '' then ''+''
      else [CHR ''%'', upperhex (byte_val c div 16), upperhex (byte_val c mod 16)])"

definition QueryEscape :: "string \<Rightarrow> string" where
  "QueryEscape s = concat (map escape_char s)"

fun QueryUnescape :: "string \<Rightarrow> string option" where
  "QueryUnescape [] = Some []"
| "QueryUnescape (c # s) =
     (if c = CHR ''%'' then
        (case s of
           a # b # t \<Rightarrow>
             (case (hex_value a, hex_value b) of
                (Some x, Some y) \<Rightarrow> map_option ((#) (char_of (16 * x + y))) (QueryUnescape t)
              | _ \<Rightarrow> None)
         | _ \<Rightarrow> None)
      else map_option ((#) (if c = CHR ''+'' then CHR '' '' else c)) (QueryUnescape s))"

lemma hex_value_upperhex [simp]: "n < 16 \<Longrightarrow> hex_value (upperhex n) = Some n"
  by (auto simp: hex_value_def upperhex_def Let_def)

lemma byte_high: "byte_val c div 16 < (16 :: nat)"
  by (rule less_mult_imp_div_less) (simp add: nat_of_char_less_256)

lemma unreserved_not_special:
  "unreserved c \<Longrightarrow> c \<notin> {CHR ''%'', CHR ''+'', CHR ''&'', CHR ''='', CHR '';'', CHR '' '', CHR ''#''}"
  by (auto simp: unreserved_def)

lemma QueryUnescape_char: "QueryUnescape (escape_char c @ t) = map_option ((#) c) (QueryUnescape t)"
proof -
  have "byte_val c div 16 < 16" by (rule byte_high)
  then show ?thesis
    using unreserved_not_special [of c] by (auto simp: escape_char_def)
qed

theorem QueryUnescape_Escape: "QueryUnescape (QueryEscape s) = Some s"
  by (induction s) (simp_all add: QueryEscape_def QueryUnescape_char)

text \<open>The characters of an escaped text, and those of a whole query.\<close>

definition query_char :: "char \<Rightarrow> bool" where
  "query_char c \<longleftrightarrow> unreserved c \<or> c = CHR ''%'' \<or> c = CHR ''+'' \<or> c = CHR ''&'' \<or> c = CHR ''=''"

lemma unreserved_upperhex: "n < 16 \<Longrightarrow> unreserved (upperhex n)"
  by (auto simp: unreserved_def upperhex_def)

lemma escape_char_chars: "x \<in> set (escape_char c) \<Longrightarrow> unreserved x \<or> x = CHR ''%'' \<or> x = CHR ''+''"
proof -
  have "byte_val c div 16 < 16" by (rule byte_high)
  then show "x \<in> set (escape_char c) \<Longrightarrow> unreserved x \<or> x = CHR ''%'' \<or> x = CHR ''+''"
    by (auto simp: escape_char_def unreserved_upperhex split: if_splits)
qed

lemma QueryEscape_chars: "x \<in> set (QueryEscape s) \<Longrightarrow> unreserved x \<or> x = CHR ''%'' \<or> x = CHR ''+''"
  by (auto simp: QueryEscape_def dest: escape_char_chars)

lemma QueryEscape_free: "CHR ''&'' \<notin> set (QueryEscape s)" "CHR ''='' \<notin> set (QueryEscape s)" "CHR '';'' \<notin> set (QueryEscape s)"
  using QueryEscape_chars unreserved_not_special by blast+

subsection \<open>Values\<close>

type_synonym url_values = "(string \<times> string list) list"

definition Values_Set :: "string \<Rightarrow> string \<Rightarrow> url_values \<Rightarrow> url_values" where
  "Values_Set k v vs = AList.update k [v] vs"

definition Values_add :: "string \<times> string \<Rightarrow> url_values \<Rightarrow> url_values" where
  "Values_add kv vs = AList.update (fst kv) ((case map_of vs (fst kv) of None \<Rightarrow> [] | Some xs \<Rightarrow> xs) @ [snd kv]) vs"

definition pairs_of :: "url_values \<Rightarrow> (string \<times> string) list" where
  "pairs_of vs = concat (map (\<lambda>(k, xs). map (Pair k) xs) (sort_by (\<lambda>a b. bytes_le (fst a) (fst b)) vs))"

definition pair_text :: "string \<times> string \<Rightarrow> string" where
  "pair_text kv = QueryEscape (fst kv) @ CHR ''='' # QueryEscape (snd kv)"

definition Values_Encode :: "url_values \<Rightarrow> string" where
  "Values_Encode vs = Join (CHR ''&'') (map pair_text (pairs_of vs))"

definition read_piece :: "string \<Rightarrow> (string \<times> string) option" where
  "read_piece p =
     (if CHR '';'' \<in> set p \<or> p = [] then None
      else case (case Cut p (CHR ''='') of None \<Rightarrow> (p, []) | Some kv \<Rightarrow> kv) of
        (k, v) \<Rightarrow> Option.bind (QueryUnescape k) (\<lambda>k'. map_option (Pair k') (QueryUnescape v)))"

definition max_params :: nat where "max_params = 10000"

definition parse_query :: "string \<Rightarrow> url_values" where
  "parse_query q =
     (let pieces = Split (CHR ''&'') q in
      if length pieces > max_params then [] else fold Values_add (List.map_filter read_piece pieces) [])"

subsection \<open>Reading back\<close>

lemma read_pair_text: "read_piece (pair_text kv) = Some kv"
proof -
  have "Cut (pair_text kv) (CHR ''='') = Some (QueryEscape (fst kv), QueryEscape (snd kv))"
    unfolding Cut_Some_iff by (simp add: pair_text_def QueryEscape_free)
  then show ?thesis
    by (simp add: read_piece_def QueryUnescape_Escape) (simp add: pair_text_def QueryEscape_free)
qed

lemma map_filter_pairs: "List.map_filter read_piece (map pair_text ps) = ps"
  by (induction ps) (simp_all add: map_filter_simps read_pair_text)

text \<open>The values of a key in a list of pairs.\<close>

definition values_in :: "string \<Rightarrow> (string \<times> string) list \<Rightarrow> string list" where
  "values_in k ps = map snd (filter (\<lambda>p. fst p = k) ps)"

lemma map_of_add:
  "map_of (Values_add kv vs) k =
     (if k = fst kv then Some ((case map_of vs k of None \<Rightarrow> [] | Some xs \<Rightarrow> xs) @ [snd kv]) else map_of vs k)"
  by (simp add: Values_add_def update_conv')

lemma map_of_fold_add:
  "map_of (fold Values_add ps vs) k =
     (if values_in k ps = [] then map_of vs k
      else Some ((case map_of vs k of None \<Rightarrow> [] | Some xs \<Rightarrow> xs) @ values_in k ps))"
proof (induction ps arbitrary: vs)
  case (Cons p ps)
  then show ?case by (auto simp: values_in_def map_of_add split: option.split)
qed (simp add: values_in_def)

lemma values_in_pairs:
  assumes "distinct (map fst vs)" and "map_of vs k = Some xs"
  shows "values_in k (pairs_of vs) = xs"
proof -
  have one: "values_in k (concat (map (\<lambda>(k, xs). map (Pair k) xs) ws)) =
      (case map_of ws k of None \<Rightarrow> [] | Some xs \<Rightarrow> xs)" if "distinct (map fst ws)" for ws
    using that
  proof (induction ws)
    case (Cons w ws)
    obtain k' ys where w: "w = (k', ys)" by fastforce
    have "map_of ws k' = None" using Cons.prems w by (simp add: map_of_eq_None_iff)
    moreover have "filter (\<lambda>p. fst p = k) (map (Pair k') ys) = (if k' = k then map (Pair k) ys else [])"
      by (auto simp: filter_empty_conv)
    ultimately show ?case using Cons w by (auto simp: values_in_def comp_def)
  qed (simp add: values_in_def)
  let ?ws = "sort_by (\<lambda>a b. bytes_le (fst a) (fst b)) vs"
  have "map_of ?ws k = Some xs" using assms by (simp add: map_of_eq_Some_iff)
  with one [of ?ws] assms(1) show ?thesis by (simp add: pairs_of_def)
qed

lemma Values_roundtrip:
  assumes "distinct (map fst vs)" and "map_of vs k = Some xs" and "xs \<noteq> []" and "length (pairs_of vs) \<le> max_params"
  shows "map_of (parse_query (Values_Encode vs)) k = Some xs"
proof -
  have v: "values_in k (pairs_of vs) = xs" by (rule values_in_pairs [OF assms(1,2)])
  then have ne: "map pair_text (pairs_of vs) \<noteq> []" using assms(3) by (auto simp: values_in_def)
  have "\<forall>p \<in> set (map pair_text (pairs_of vs)). CHR ''&'' \<notin> set p" by (auto simp: pair_text_def QueryEscape_free)
  with Split_Join [OF ne] have "Split (CHR ''&'') (Values_Encode vs) = map pair_text (pairs_of vs)"
    by (simp add: Values_Encode_def)
  with assms(3,4) v show ?thesis by (simp add: parse_query_def map_filter_pairs map_of_fold_add)
qed

lemma set_Join: "x \<in> set (Join c ys) \<Longrightarrow> x = c \<or> (\<exists>y \<in> set ys. x \<in> set y)"
  by (induction c ys rule: Join.induct) auto

lemma Values_Encode_chars: "x \<in> set (Values_Encode vs) \<Longrightarrow> query_char x"
  unfolding Values_Encode_def
  by (drule set_Join) (auto simp: query_char_def pair_text_def dest: QueryEscape_chars)

text \<open>The sizes: reading gives at most as many pairs as pieces, and setting a key adds at most one.\<close>

definition pairs_count :: "url_values \<Rightarrow> nat" where
  "pairs_count vs = sum_list (map (length \<circ> snd) vs)"

lemma length_pairs_of: "length (pairs_of vs) = pairs_count vs"
proof -
  have "mset (map (length \<circ> snd) (sort_by (\<lambda>a b. bytes_le (fst a) (fst b)) vs)) = mset (map (length \<circ> snd) vs)" by simp
  then have "sum_list (map (length \<circ> snd) (sort_by (\<lambda>a b. bytes_le (fst a) (fst b)) vs)) = pairs_count vs"
    unfolding pairs_count_def by (metis sum_mset_sum_list)
  then show ?thesis by (simp add: pairs_of_def length_concat comp_def case_prod_beta)
qed

lemma pairs_count_update:
  "pairs_count (AList.update k xs vs) + length (case map_of vs k of None \<Rightarrow> [] | Some ys \<Rightarrow> ys) = pairs_count vs + length xs"
  by (induction vs) (auto simp: pairs_count_def)

lemma pairs_count_add: "pairs_count (Values_add kv vs) = Suc (pairs_count vs)"
  using pairs_count_update [of "fst kv" "(case map_of vs (fst kv) of None \<Rightarrow> [] | Some xs \<Rightarrow> xs) @ [snd kv]" vs]
  by (simp add: Values_add_def)

lemma pairs_count_parse: "pairs_count (parse_query q) \<le> length (Split (CHR ''&'') q)"
proof -
  have "pairs_count (fold Values_add ps vs) = length ps + pairs_count vs" for ps vs
    by (induction ps arbitrary: vs) (simp_all add: pairs_count_add)
  moreover have "length (List.map_filter read_piece ps) \<le> length ps" for ps
    by (induction ps) (auto simp: map_filter_simps split: option.split)
  ultimately show ?thesis by (simp add: parse_query_def Let_def pairs_count_def)
qed

lemma distinct_parse: "distinct (map fst (parse_query q))"
proof -
  have "distinct (map fst vs) \<Longrightarrow> distinct (map fst (fold Values_add ps vs))" for ps vs
    by (induction ps arbitrary: vs) (simp_all add: Values_add_def distinct_update)
  then show ?thesis by (simp add: parse_query_def Let_def)
qed

end
