(* ===== verification/Single_Http.thy ===== *)
theory Single_Http
  imports Single_Store Go_Url Ws_Handler
begin

text \<open>
  The HTTP side of the single-process variant (\<^verbatim>\<open>single-instance/internal/transport\<close>): the REST handlers of
  \<^verbatim>\<open>http.go\<close>, each a function from a request to a response and the database after it, and what \<^verbatim>\<open>ws.go\<close> does
  with the frames of a connection. A request is accepted with its path value, query and body.
\<close>

subsection \<open>Responses\<close>

record http_response =
  hr_status :: nat
  hr_type :: string
  hr_body :: bytes

definition http_Error :: "string \<Rightarrow> nat \<Rightarrow> http_response" where
  "http_Error msg code = \<lparr>hr_status = code, hr_type = ''text/plain; charset=utf-8'', hr_body = msg @ [CHR 0x0A]\<rparr>"

text \<open>A value that cannot be encoded leaves the body empty; the status has been written before.\<close>

definition writeJSON :: "nat \<Rightarrow> bytes option \<Rightarrow> http_response" where
  "writeJSON status v =
     \<lparr>hr_status = status, hr_type = ''application/json'', hr_body = (case v of None \<Rightarrow> [] | Some t \<Rightarrow> t @ [CHR 0x0A])\<rparr>"

definition array_text :: "bytes list \<Rightarrow> bytes" where
  "array_text ts = CHR ''['' # Join (CHR '','') ts @ '']''"

definition marshal_list :: "('a \<Rightarrow> bytes option) \<Rightarrow> 'a list \<Rightarrow> bytes option" where
  "marshal_list marshal xs = map_option array_text (those (map marshal xs))"

definition marshal_Room :: "named_row \<Rightarrow> bytes option" where
  "marshal_Room r = map_option (\<lambda>t. object_text [(''id'', quote (nr_id r)), (''name'', quote (nr_name r)), (''created_at'', t)])
     (marshal_time (nr_created_at r))"

definition marshal_User :: "named_row \<Rightarrow> bytes option" where
  "marshal_User r = map_option (\<lambda>t. object_text [(''id'', quote (nr_id r)), (''username'', quote (nr_name r)), (''created_at'', t)])
     (marshal_time (nr_created_at r))"

subsection \<open>Requests\<close>

text \<open>\<^verbatim>\<open>json.Decoder.Decode\<close> reads the first value of the body and leaves what follows it.\<close>

definition decode_first :: "((string \<times> string) list \<Rightarrow> 'a option) \<Rightarrow> 'a \<Rightarrow> bytes \<Rightarrow> 'a option" where
  "decode_first dec zero body =
     (let s = skip_ws body in
      case value_end s of None \<Rightarrow> None | Some rest \<Rightarrow> unmarshal dec zero (raw s rest))"

definition handleHealth :: http_response where
  "handleHealth = \<lparr>hr_status = 200, hr_type = ''text/plain; charset=utf-8'', hr_body = ''ok''\<rparr>"

definition handleListRooms :: "s_env \<Rightarrow> s_db \<Rightarrow> http_response" where
  "handleListRooms env db =
     (case ListRooms env db of
        Inl _ \<Rightarrow> http_Error ''list rooms failed'' 500
      | Inr rooms \<Rightarrow> writeJSON 200 (marshal_list marshal_Room rooms))"

definition handleCreateRoom :: "s_env \<Rightarrow> bytes \<Rightarrow> s_db \<Rightarrow> http_response \<times> s_db" where
  "handleCreateRoom env body db =
     (case decode_first (field decode_string [] ''name'') [] body of
        None \<Rightarrow> (http_Error (''invalid body: expected {'' @ quote ''name'' @ '': ...}'') 400, db)
      | Some name \<Rightarrow>
          if name = [] then (http_Error (''invalid body: expected {'' @ quote ''name'' @ '': ...}'') 400, db)
          else case CreateRoom env name db of
            (Inl _, db1) \<Rightarrow> (http_Error ''create room failed'' 500, db1)
          | (Inr room, db1) \<Rightarrow> (writeJSON 201 (marshal_Room room), db1))"

definition handleListUsers :: "s_env \<Rightarrow> s_db \<Rightarrow> http_response" where
  "handleListUsers env db =
     (case ListUsers env db of
        Inl _ \<Rightarrow> http_Error ''list users failed'' 500
      | Inr users \<Rightarrow> writeJSON 200 (marshal_list marshal_User users))"

definition handleCreateUser :: "s_env \<Rightarrow> bytes \<Rightarrow> s_db \<Rightarrow> http_response \<times> s_db" where
  "handleCreateUser env body db =
     (case decode_first (field decode_string [] ''username'') [] body of
        None \<Rightarrow> (http_Error (''invalid body: expected {'' @ quote ''username'' @ '': ...}'') 400, db)
      | Some username \<Rightarrow>
          if username = [] then (http_Error (''invalid body: expected {'' @ quote ''username'' @ '': ...}'') 400, db)
          else case CreateUser env username db of
            (Inl _, db1) \<Rightarrow> (http_Error ''create user failed'' 500, db1)
          | (Inr user, db1) \<Rightarrow> (writeJSON 201 (marshal_User user), db1))"

definition defaultHistoryLimit :: int where "defaultHistoryLimit = 50"

definition maxHistoryLimit :: int where "maxHistoryLimit = 200"

definition before_param :: "string \<Rightarrow> int option" where
  "before_param v =
     (if v = [] then Some 0
      else case ParseInt v of None \<Rightarrow> None | Some n \<Rightarrow> if n < 0 then None else Some n)"

definition limit_param :: "string \<Rightarrow> int option" where
  "limit_param v =
     (if v = [] then Some defaultHistoryLimit
      else case ParseInt v of None \<Rightarrow> None | Some n \<Rightarrow> if n \<le> 0 \<or> n > maxHistoryLimit then None else Some n)"

definition handleHistory :: "s_env \<Rightarrow> string \<Rightarrow> string \<Rightarrow> s_db \<Rightarrow> http_response" where
  "handleHistory env roomID query db =
     (case before_param (url_Get (parse_query query) ''before'') of
        None \<Rightarrow> http_Error ''invalid before cursor'' 400
      | Some before \<Rightarrow>
     (case limit_param (url_Get (parse_query query) ''limit'') of
        None \<Rightarrow> http_Error ''invalid limit (1..200)'' 400
      | Some limit \<Rightarrow>
     (case History env roomID before (nat limit) db of
        Inl _ \<Rightarrow> http_Error ''history failed'' 500
      | Inr msgs \<Rightarrow> writeJSON 200 (marshal_list marshal_chat msgs))))"

subsection \<open>Frames of a connection\<close>

definition decode_Incoming :: "(string \<times> string) list \<Rightarrow> Incoming option" where
  "decode_Incoming ms =
     Option.bind (field decode_string [] ''user_id'' ms) (\<lambda>u.
     Option.bind (field decode_string [] ''body'' ms) (\<lambda>b. Some \<lparr>in_UserID = u, in_Body = b\<rparr>))"

definition unmarshal_Incoming :: "bytes \<Rightarrow> Incoming option" where
  "unmarshal_Incoming = unmarshal decode_Incoming \<lparr>in_UserID = [], in_Body = []\<rparr>"

definition on_message :: "s_env \<Rightarrow> string \<Rightarrow> bytes \<Rightarrow> s_db \<Rightarrow> s_db" where
  "on_message env roomID data db =
     (case unmarshal_Incoming data of None \<Rightarrow> db | Some inc \<Rightarrow> snd (chat_HandleIncoming env roomID inc db))"

text \<open>\<^verbatim>\<open>ReadPump\<close> over the frames it reads before the read fails; then the client is unregistered.\<close>

fun ReadPump :: "(bytes \<Rightarrow> 'w \<Rightarrow> 'w) \<Rightarrow> ('w \<Rightarrow> 'w) \<Rightarrow> bytes list \<Rightarrow> 'w \<Rightarrow> 'w" where
  "ReadPump onMessage unregister [] w = unregister w"
| "ReadPump onMessage unregister (data # rest) w = ReadPump onMessage unregister rest (onMessage data w)"

subsection \<open>What the endpoints answer\<close>

lemma before_param_range: "before_param v = Some n \<Longrightarrow> 0 \<le> n \<and> in_int64 n"
  by (auto simp: before_param_def in_int64_def dest: ParseInt_in_int64 split: if_splits option.splits)

lemma limit_param_range: "limit_param v = Some n \<Longrightarrow> 1 \<le> n \<and> n \<le> 200"
  by (auto simp: limit_param_def defaultHistoryLimit_def maxHistoryLimit_def split: if_splits option.splits)

lemma show_int_not_Nil: "show_int i \<noteq> []"
  using show_nat_not_Nil by (simp add: show_int_def)

lemma params_read:
  assumes "0 \<le> b" "in_int64 b" "1 \<le> l" "l \<le> 200"
  shows "before_param (show_int b) = Some b" "limit_param (show_int l) = Some l"
proof -
  have "in_int64 l" using assms(3,4) by (simp add: in_int64_def)
  with assms show "before_param (show_int b) = Some b" "limit_param (show_int l) = Some l"
    by (simp_all add: before_param_def limit_param_def ParseInt_show_int show_int_not_Nil maxHistoryLimit_def)
qed

lemma history_query:
  "url_Get (parse_query (Values_Encode [(''before'', [u]), (''limit'', [v])])) ''before'' = u"
  "url_Get (parse_query (Values_Encode [(''before'', [u]), (''limit'', [v])])) ''limit'' = v"
proof -
  let ?vs = "[(''before'', [u]), (''limit'', [v])]"
  have len: "length (pairs_of ?vs) \<le> max_params" by (simp add: length_pairs_of pairs_count_def max_params_def)
  have "map_of (parse_query (Values_Encode ?vs)) ''before'' = Some [u]" "map_of (parse_query (Values_Encode ?vs)) ''limit'' = Some [v]"
    by (rule Values_roundtrip [OF _ _ _ len]; simp)+
  then show "url_Get (parse_query (Values_Encode ?vs)) ''before'' = u" "url_Get (parse_query (Values_Encode ?vs)) ''limit'' = v"
    by (simp_all add: url_Get_def)
qed

end
