(* ===== verification/Single_Http_Props.thy ===== *)
theory Single_Http_Props
  imports Single_Http Single_Props
begin

text \<open>
  The history endpoint of the single-process variant: what a well-formed request is answered with, and that no
  request gets more than 200 messages or messages of another room.
\<close>

lemma handleHistory_200:
  assumes "hr_status (handleHistory env roomID q db) = 200"
  shows "\<exists>before limit room. 0 \<le> before \<and> 1 \<le> limit \<and> limit \<le> 200 \<and> se_uuid_in env roomID = Some room \<and>
    handleHistory env roomID q db = writeJSON 200 (marshal_list marshal_chat (history_rows room before (nat limit) (sd_messages db)))"
proof -
  obtain before where b: "before_param (url_Get (parse_query q) ''before'') = Some before"
    using assms by (auto simp: handleHistory_def http_Error_def split: option.splits)
  obtain limit where l: "limit_param (url_Get (parse_query q) ''limit'') = Some limit"
    using assms b by (auto simp: handleHistory_def http_Error_def split: option.splits)
  obtain room where "se_uuid_in env roomID = Some room" "se_outcome env SQuery = Done"
    using assms b l by (auto simp: handleHistory_def History_def http_Error_def split: option.splits if_splits)
  with b l before_param_range [OF b] limit_param_range [OF l] show ?thesis
    by (intro exI [of _ before] exI [of _ limit] exI [of _ room]) (simp add: handleHistory_def History_def)
qed

lemma history_rows_page:
  assumes "distinct (map sm_ID ms)"
  shows "length (history_rows room before k ms) \<le> k \<and> sorted_wrt (\<lambda>a b. sm_ID a > sm_ID b) (history_rows room before k ms) \<and>
    (\<forall>m \<in> set (history_rows room before k ms). m \<in> set ms \<and> sm_RoomID m = room \<and> (before = 0 \<or> sm_ID m < before))"
proof -
  let ?all = "room_history room before ms"
  have "sorted_wrt (\<lambda>a b. - sm_ID a < - sm_ID b) (take k ?all)" by (rule sorted_wrt_take [OF room_history_strict [OF assms]])
  then have "sorted_wrt (\<lambda>a b. sm_ID a > sm_ID b) (take k ?all)" by simp
  moreover have "m \<in> set ms \<and> sm_RoomID m = room \<and> (before = 0 \<or> sm_ID m < before)" if "m \<in> set (take k ?all)" for m
    using in_set_takeD [OF that] by (simp add: room_history_def)
  moreover have "length (take k ?all) \<le> k" by simp
  ultimately show ?thesis unfolding history_rows_take by blast
qed

text \<open>C30: a request for the page of \<open>l\<close> messages before \<open>b\<close>, as the query text spells it, is answered with the JSON
  array of exactly that page; and whatever the query, an answer with status 200 holds at most 200 messages, all of
  the requested room, from the newest on and without repetition.\<close>

theorem history_endpoint:
  assumes "distinct (map sm_ID (sd_messages db))" and "0 \<le> b" and "in_int64 b" and "1 \<le> l" and "l \<le> 200"
    and "se_outcome env SQuery = Done" and "se_uuid_in env roomID = Some room"
  shows "handleHistory env roomID (Values_Encode [(''before'', [show_int b]), (''limit'', [show_int l])]) db =
      writeJSON 200 (marshal_list marshal_chat (history_rows room b (nat l) (sd_messages db))) \<and>
    (hr_status (handleHistory env roomID q db) = 200 \<longrightarrow>
      (\<exists>page. handleHistory env roomID q db = writeJSON 200 (marshal_list marshal_chat page) \<and> length page \<le> 200 \<and>
        sorted_wrt (\<lambda>a b. sm_ID a > sm_ID b) page \<and> (\<forall>m \<in> set page. m \<in> set (sd_messages db) \<and> sm_RoomID m = room)))"
proof
  show "handleHistory env roomID (Values_Encode [(''before'', [show_int b]), (''limit'', [show_int l])]) db =
      writeJSON 200 (marshal_list marshal_chat (history_rows room b (nat l) (sd_messages db)))"
    unfolding handleHistory_def history_query using assms(2-7) by (simp add: params_read History_def)
  show "hr_status (handleHistory env roomID q db) = 200 \<longrightarrow>
      (\<exists>page. handleHistory env roomID q db = writeJSON 200 (marshal_list marshal_chat page) \<and> length page \<le> 200 \<and>
        sorted_wrt (\<lambda>a b. sm_ID a > sm_ID b) page \<and> (\<forall>m \<in> set page. m \<in> set (sd_messages db) \<and> sm_RoomID m = room))"
  proof
    assume "hr_status (handleHistory env roomID q db) = 200"
    from handleHistory_200 [OF this] obtain before limit where h: "limit \<le> 200"
      "handleHistory env roomID q db = writeJSON 200 (marshal_list marshal_chat (history_rows room before (nat limit) (sd_messages db)))"
      using assms(7) by auto
    let ?page = "history_rows room before (nat limit) (sd_messages db)"
    note p = history_rows_page [OF assms(1), of room before "nat limit"]
    have "length ?page \<le> 200" using p h(1) by linarith
    with p h(2) show "\<exists>page. handleHistory env roomID q db = writeJSON 200 (marshal_list marshal_chat page) \<and> length page \<le> 200 \<and>
        sorted_wrt (\<lambda>a b. sm_ID a > sm_ID b) page \<and> (\<forall>m \<in> set page. m \<in> set (sd_messages db) \<and> sm_RoomID m = room)"
      by blast
  qed
qed

theorem history_endpoint_witness:
  "handleHistory s_healthy ''r1'' (Values_Encode [(''before'', [show_int 3]), (''limit'', [show_int 1])])
     (sample_sdb\<lparr>sd_messages := map sample_chat [1, 2, 3]\<rparr>) = writeJSON 200 (marshal_list marshal_chat [sample_chat 2])"
proof -
  have "history_rows ''r1'' 3 1 (map sample_chat [1, 2, 3]) = [sample_chat 2]" by (simp add: history_rows_def sample_chat_def)
  then show ?thesis
    using history_endpoint [of "sample_sdb\<lparr>sd_messages := map sample_chat [1, 2, 3]\<rparr>" 3 1 s_healthy "''r1''" "''r1''"]
    by (simp add: sample_chat_def s_healthy_def in_int64_def)
qed

end
