(* ===== verification/Naive_Relay.thy ===== *)
theory Naive_Relay
  imports Single_Store
begin

text \<open>
  The relays of the \<^verbatim>\<open>naive-scale\<close> variant: every instance drains the same outbox, and a batch is claimed with
  \<^verbatim>\<open>FOR UPDATE SKIP LOCKED\<close> (\<^verbatim>\<open>naive-scale/internal/storage/outbox.go\<close>). The transaction of a batch is split into its
  steps: the claim locks its rows, the hand-overs follow one by one, and the commit marks the rows and frees the locks.
  A hand-over publishes to the room's Redis channel (\<^verbatim>\<open>naive-scale/internal/hub/hub.go\<close>).
\<close>

subsection \<open>Claim and hand-over\<close>

definition roomChannelPrefix :: string where "roomChannelPrefix = ''room:''"

definition roomChannel :: "string \<Rightarrow> string" where
  "roomChannel roomID = roomChannelPrefix @ roomID"

text \<open>
  One attempt of a publication, and whether it reaches Redis. A publication that fails is logged only, like a message
  that cannot be encoded; but the client of Redis, which the hub leaves at its defaults, first makes the attempt
  again, up to \<open>retries\<close> times (below), also when only the answer was lost.
\<close>

definition n_Broadcast :: "bool \<Rightarrow> string \<Rightarrow> chat_message \<Rightarrow> (string \<times> bytes) list \<Rightarrow> (string \<times> bytes) list" where
  "n_Broadcast published roomID m pub =
     (case marshal_chat m of
        None \<Rightarrow> pub
      | Some payload \<Rightarrow> if published then pub @ [(roomChannel roomID, payload)] else pub)"

definition claim_rows :: "nat \<Rightarrow> (int \<Rightarrow> bool) \<Rightarrow> s_db \<Rightarrow> outbox_event_row list" where
  "claim_rows limit locked db = take limit (filter (\<lambda>r. \<not> locked (so_id r)) (undispatched db))"

datatype n_tx = NIdle | NClaimed "OutboxEvent list" "OutboxEvent list"

text \<open>
  The instances' transactions, with the events handed over and those still to be; what was published; how often the
  publication of the event handed over last was tried again; and, as history, the numbers of all events handed over,
  of those whose transaction then ended without a commit, and of those published by a retry.
\<close>

record n_world =
  nw_db :: s_db
  nw_tx :: "nat \<Rightarrow> n_tx"
  nw_pub :: "(string \<times> bytes) list"
  nw_sent :: "int list"
  nw_failed :: "int list"
  nw_tries :: "nat \<Rightarrow> nat"
  nw_retried :: "int list"

fun tx_handed :: "n_tx \<Rightarrow> int set" where
  "tx_handed NIdle = {}"
| "tx_handed (NClaimed handed rest) = oe_ID ` set handed"

fun tx_locks :: "n_tx \<Rightarrow> int set" where
  "tx_locks NIdle = {}"
| "tx_locks (NClaimed handed rest) = oe_ID ` set (handed @ rest)"

definition n_locked :: "n_world \<Rightarrow> int \<Rightarrow> bool" where
  "n_locked w n \<longleftrightarrow> (\<exists>i. n \<in> tx_locks (nw_tx w i))"

definition n_claim :: "nat \<Rightarrow> n_world \<Rightarrow> n_world" where
  "n_claim i w =
     (case decode_rows (claim_rows batchSize (n_locked w) (nw_db w)) of
        Inl _ \<Rightarrow> w
      | Inr events \<Rightarrow> if events = [] then w else w\<lparr>nw_tx := (nw_tx w)(i := NClaimed [] events)\<rparr>)"

definition n_hand :: "nat \<Rightarrow> bool \<Rightarrow> OutboxEvent list \<Rightarrow> OutboxEvent \<Rightarrow> OutboxEvent list \<Rightarrow> n_world \<Rightarrow> n_world" where
  "n_hand i published handed e rest w =
     w\<lparr>nw_tx := (nw_tx w)(i := NClaimed (handed @ [e]) rest), nw_pub := n_Broadcast published (oe_RoomID e) (oe_Message e) (nw_pub w),
       nw_sent := nw_sent w @ [oe_ID e], nw_tries := (nw_tries w)(i := 0)\<rparr>"

definition n_retry :: "nat \<Rightarrow> bool \<Rightarrow> OutboxEvent \<Rightarrow> n_world \<Rightarrow> n_world" where
  "n_retry i published e w =
     w\<lparr>nw_pub := n_Broadcast published (oe_RoomID e) (oe_Message e) (nw_pub w), nw_tries := (nw_tries w)(i := Suc (nw_tries w i)),
       nw_retried := (if published then nw_retried w @ [oe_ID e] else nw_retried w)\<rparr>"

definition n_commit :: "nat \<Rightarrow> OutboxEvent list \<Rightarrow> n_world \<Rightarrow> n_world" where
  "n_commit i handed w = w\<lparr>nw_db := mark_ids (map oe_ID handed) (nw_db w), nw_tx := (nw_tx w)(i := NIdle)\<rparr>"

definition n_abort :: "nat \<Rightarrow> OutboxEvent list \<Rightarrow> n_world \<Rightarrow> n_world" where
  "n_abort i handed w = w\<lparr>nw_tx := (nw_tx w)(i := NIdle), nw_failed := nw_failed w @ map oe_ID handed\<rparr>"

text \<open>
  The steps of all instances. \<open>n_stored\<close>: a stored message's row is committed, in any order of the numbers. \<open>n_aborted\<close>: the
  instance crashes, is stopped, or an error of the update or the commit rolls the transaction back.
\<close>

inductive n_step :: "nat \<Rightarrow> n_world \<Rightarrow> n_world \<Rightarrow> bool" for retries where
  n_claimed: "nw_tx w i = NIdle \<Longrightarrow> n_step retries w (n_claim i w)"
| n_handed: "nw_tx w i = NClaimed handed (e # rest) \<Longrightarrow> n_step retries w (n_hand i published handed e rest w)"
| n_tried_again: "\<lbrakk>nw_tx w i = NClaimed (handed @ [e]) rest; nw_tries w i < retries\<rbrakk> \<Longrightarrow> n_step retries w (n_retry i published e w)"
| n_committed: "nw_tx w i = NClaimed handed [] \<Longrightarrow> n_step retries w (n_commit i handed w)"
| n_aborted: "nw_tx w i = NClaimed handed rest \<Longrightarrow> n_step retries w (n_abort i handed w)"
| n_stored: "\<lbrakk>so_id r \<notin> so_id ` set (sd_outbox (nw_db w)); \<not> so_dispatched r\<rbrakk> \<Longrightarrow>
    n_step retries w (w\<lparr>nw_db := (nw_db w)\<lparr>sd_outbox := sd_outbox (nw_db w) @ [r]\<rparr>\<rparr>)"

definition n_start :: "s_db \<Rightarrow> n_world" where
  "n_start db = \<lparr>nw_db = db, nw_tx = (\<lambda>_. NIdle), nw_pub = [], nw_sent = [], nw_failed = [],
     nw_tries = (\<lambda>_. 0), nw_retried = []\<rparr>"

subsection \<open>The invariant\<close>

definition marked :: "s_db \<Rightarrow> int set" where
  "marked db = so_id ` {r \<in> set (sd_outbox db). so_dispatched r}"

definition open_ids :: "s_db \<Rightarrow> int set" where
  "open_ids db = so_id ` {r \<in> set (sd_outbox db). \<not> so_dispatched r}"

fun tx_distinct :: "n_tx \<Rightarrow> bool" where
  "tx_distinct NIdle = True"
| "tx_distinct (NClaimed handed rest) = distinct (map oe_ID (handed @ rest))"

definition n_inv :: "int set \<Rightarrow> n_world \<Rightarrow> bool" where
  "n_inv D w \<longleftrightarrow> distinct (map so_id (sd_outbox (nw_db w))) \<and> D \<subseteq> marked (nw_db w) \<and>
     (\<forall>i. tx_distinct (nw_tx w i) \<and> tx_locks (nw_tx w i) \<subseteq> open_ids (nw_db w)) \<and>
     (\<forall>i j. i \<noteq> j \<longrightarrow> tx_locks (nw_tx w i) \<inter> tx_locks (nw_tx w j) = {}) \<and>
     (\<forall>n. count_list (nw_sent w) n = count_list (nw_failed w) n + (if n \<in> marked (nw_db w) - D then 1 else 0) +
        (if \<exists>i. n \<in> tx_handed (nw_tx w i) then 1 else 0))"

lemma handed_locked: "tx_handed t \<subseteq> tx_locks t"
  by (cases t) auto

lemma marked_open_disjoint: "distinct (map so_id (sd_outbox db)) \<Longrightarrow> marked db \<inter> open_ids db = {}"
  by (auto simp: marked_def open_ids_def distinct_map inj_on_def)

lemma count_list_append: "count_list (xs @ ys) n = count_list xs n + count_list ys n"
  by (induction xs) auto

lemma count_list_distinct: "distinct xs \<Longrightarrow> count_list xs n = (if n \<in> set xs then 1 else 0)"
  by (induction xs) (auto simp: count_list_0_iff)

lemma marked_mark:
  assumes "set ids \<subseteq> open_ids db"
  shows "marked (mark_ids ids db) = marked db \<union> set ids" "open_ids (mark_ids ids db) = open_ids db - set ids"
proof -
  let ?S = "set (sd_outbox db)"
  let ?f = "\<lambda>r. if so_id r \<in> set ids then r\<lparr>so_dispatched := True\<rparr> else r"
  have f: "so_id (?f r) = so_id r" "so_dispatched (?f r) \<longleftrightarrow> so_dispatched r \<or> so_id r \<in> set ids" for r by auto
  have o: "set (sd_outbox (mark_ids ids db)) = ?f ` ?S" by (simp add: mark_ids_def)
  have "so_id ` {r \<in> ?f ` ?S. P (so_dispatched r)} = so_id ` ?f ` {r \<in> ?S. P (so_dispatched (?f r))}" for P by blast
  then have im: "so_id ` {r \<in> ?f ` ?S. P (so_dispatched r)} = so_id ` {r \<in> ?S. P (so_dispatched r \<or> so_id r \<in> set ids)}" for P
    unfolding image_image f .
  show "marked (mark_ids ids db) = marked db \<union> set ids"
    unfolding marked_def o im [of "\<lambda>b. b"] using assms unfolding open_ids_def by blast
  show "open_ids (mark_ids ids db) = open_ids db - set ids"
    unfolding open_ids_def o im [of Not] by blast
qed

definition in_flight :: "n_world \<Rightarrow> int \<Rightarrow> bool" where
  "in_flight w n \<longleftrightarrow> (\<exists>i. n \<in> tx_handed (nw_tx w i))"

lemma n_invD:
  assumes "n_inv D w"
  shows "distinct (map so_id (sd_outbox (nw_db w)))" "D \<subseteq> marked (nw_db w)" "tx_distinct (nw_tx w i)"
    "tx_locks (nw_tx w i) \<subseteq> open_ids (nw_db w)" "i \<noteq> j \<Longrightarrow> tx_locks (nw_tx w i) \<inter> tx_locks (nw_tx w j) = {}"
    "count_list (nw_sent w) n = count_list (nw_failed w) n + (if n \<in> marked (nw_db w) - D then 1 else 0) + (if in_flight w n then 1 else 0)"
  using assms by (auto simp: n_inv_def in_flight_def)

lemma n_invI:
  assumes "distinct (map so_id (sd_outbox (nw_db w)))" "D \<subseteq> marked (nw_db w)" "\<And>i. tx_distinct (nw_tx w i)"
    "\<And>i. tx_locks (nw_tx w i) \<subseteq> open_ids (nw_db w)" "\<And>i j. i \<noteq> j \<Longrightarrow> tx_locks (nw_tx w i) \<inter> tx_locks (nw_tx w j) = {}"
    "\<And>n. count_list (nw_sent w) n = count_list (nw_failed w) n + (if n \<in> marked (nw_db w) - D then 1 else 0) + (if in_flight w n then 1 else 0)"
  shows "n_inv D w"
  using assms by (simp add: n_inv_def in_flight_def)

lemma n_inv_start:
  assumes "distinct (map so_id (sd_outbox db))"
  shows "n_inv (marked db) (n_start db)"
  using assms by (simp add: n_inv_def n_start_def)

text \<open>What the instances hold after the transaction of one of them has changed.\<close>

lemma in_flight_upd:
  "nw_tx y = (nw_tx w)(i := t) \<Longrightarrow> in_flight y n \<longleftrightarrow> n \<in> tx_handed t \<or> (\<exists>j. j \<noteq> i \<and> n \<in> tx_handed (nw_tx w j))"
  by (auto simp: in_flight_def split: if_splits)

lemma in_flight_split: "in_flight w n \<longleftrightarrow> n \<in> tx_handed (nw_tx w i) \<or> (\<exists>j. j \<noteq> i \<and> n \<in> tx_handed (nw_tx w j))"
  by (auto simp: in_flight_def)

lemma locks_upd:
  assumes "n_inv D w" and "tx_locks t \<inter> (\<Union>j \<in> - {i}. tx_locks (nw_tx w j)) = {}"
  shows "k \<noteq> j \<Longrightarrow> tx_locks (((nw_tx w)(i := t)) k) \<inter> tx_locks (((nw_tx w)(i := t)) j) = {}"
  using assms(2) n_invD(5) [OF assms(1), of k j] by (auto simp: disjoint_iff)

lemma own_locks:
  assumes "n_inv D w" and "n \<in> tx_locks (nw_tx w i)"
  shows "j \<noteq> i \<Longrightarrow> n \<notin> tx_locks (nw_tx w j)" "j \<noteq> i \<Longrightarrow> n \<notin> tx_handed (nw_tx w j)" "n \<notin> marked (nw_db w)"
proof -
  show *: "n \<notin> tx_locks (nw_tx w j)" if "j \<noteq> i" for j using n_invD(5) [OF assms(1) that] assms(2) by blast
  show "j \<noteq> i \<Longrightarrow> n \<notin> tx_handed (nw_tx w j)" using * handed_locked by blast
  show "n \<notin> marked (nw_db w)"
    using marked_open_disjoint [OF n_invD(1) [OF assms(1)]] n_invD(4) [OF assms(1), of i] assms(2) by blast
qed

lemma claimed_keeps:
  assumes "n_inv D w" and "nw_tx w i = NIdle"
  shows "n_inv D (n_claim i w)"
proof (cases "n_claim i w = w")
  case True
  with assms show ?thesis by simp
next
  case False
  then obtain events where dec: "decode_rows (claim_rows batchSize (n_locked w) (nw_db w)) = Inr events"
    and y: "n_claim i w = w\<lparr>nw_tx := (nw_tx w)(i := NClaimed [] events)\<rparr>"
    by (auto simp: n_claim_def split: sum.splits if_splits)
  let ?rows = "claim_rows batchSize (n_locked w) (nw_db w)"
  have ids: "map oe_ID events = map so_id ?rows" by (rule decode_rows_ids [OF dec])
  have "distinct (map so_id (filter (\<lambda>r. \<not> n_locked w (so_id r)) (undispatched (nw_db w))))"
    using n_invD(1) [OF assms(1)] by (simp add: undispatched_def distinct_map_filter)
  then have dist: "distinct (map oe_ID events)" unfolding ids claim_rows_def by (simp add: take_map [symmetric])
  have sub: "set ?rows \<subseteq> {r \<in> set (sd_outbox (nw_db w)). \<not> so_dispatched r \<and> \<not> n_locked w (so_id r)}"
    by (auto simp: claim_rows_def undispatched_def dest!: in_set_takeD)
  have "oe_ID ` set events = so_id ` set ?rows" using arg_cong [OF ids, of set] by simp
  with sub have open_ev: "oe_ID ` set events \<subseteq> open_ids (nw_db w)" and free: "\<forall>n \<in> oe_ID ` set events. \<not> n_locked w n"
    by (auto simp: open_ids_def)
  show ?thesis
  proof (rule n_invI)
    fix n
    have "in_flight (n_claim i w) n \<longleftrightarrow> in_flight w n"
      using in_flight_upd [of "n_claim i w" w i "NClaimed [] events" n] in_flight_split [of w n i] assms(2) by (simp add: y)
    then show "count_list (nw_sent (n_claim i w)) n = count_list (nw_failed (n_claim i w)) n +
        (if n \<in> marked (nw_db (n_claim i w)) - D then 1 else 0) + (if in_flight (n_claim i w) n then 1 else 0)"
      using n_invD(6) [OF assms(1), of n] by (simp add: y)
  next
    have "tx_locks (NClaimed [] events) \<inter> (\<Union>j \<in> - {i}. tx_locks (nw_tx w j)) = {}" using free by (auto simp: n_locked_def)
    from locks_upd [OF assms(1) this]
    show "k \<noteq> j \<Longrightarrow> tx_locks (nw_tx (n_claim i w) k) \<inter> tx_locks (nw_tx (n_claim i w) j) = {}" for k j by (simp add: y)
  qed (use n_invD [OF assms(1)] dist open_ev in \<open>simp_all add: y\<close>)
qed

lemma handed_keeps:
  assumes "n_inv D w" and "nw_tx w i = NClaimed handed (e # rest)"
  shows "n_inv D (n_hand i published handed e rest w)" (is "n_inv D ?y")
proof (rule n_invI)
  have tx: "nw_tx ?y = (nw_tx w)(i := NClaimed (handed @ [e]) rest)" by (simp add: n_hand_def)
  have same: "nw_db ?y = nw_db w" "nw_failed ?y = nw_failed w" "nw_sent ?y = nw_sent w @ [oe_ID e]" by (simp_all add: n_hand_def)
  have locks: "tx_locks (NClaimed (handed @ [e]) rest) = tx_locks (nw_tx w i)" using assms(2) by auto
  have e: "oe_ID e \<in> tx_locks (nw_tx w i)" "oe_ID e \<notin> oe_ID ` set handed"
    using assms(2) n_invD(3) [OF assms(1), of i] by auto
  fix n
  have fl: "in_flight ?y n \<longleftrightarrow> n = oe_ID e \<or> in_flight w n"
    using in_flight_upd [OF tx, of n] in_flight_split [of w n i] assms(2) by auto
  have "\<not> in_flight w (oe_ID e)"
    using in_flight_split [of w "oe_ID e" i] own_locks(2) [OF assms(1) e(1)] e(2) assms(2) by auto
  then show "count_list (nw_sent ?y) n = count_list (nw_failed ?y) n + (if n \<in> marked (nw_db ?y) - D then 1 else 0) + (if in_flight ?y n then 1 else 0)"
    using n_invD(6) [OF assms(1), of n] fl own_locks(3) [OF assms(1) e(1)] by (auto simp: same count_list_append)
  have "tx_locks (NClaimed (handed @ [e]) rest) \<inter> (\<Union>j \<in> - {i}. tx_locks (nw_tx w j)) = {}"
    unfolding locks by (auto dest: own_locks(1) [OF assms(1)])
  from locks_upd [OF assms(1) this]
  show "k \<noteq> j \<Longrightarrow> tx_locks (nw_tx ?y k) \<inter> tx_locks (nw_tx ?y j) = {}" for k j by (simp add: tx)
  show "tx_distinct (nw_tx ?y j)" for j
    using n_invD(3) [OF assms(1), of i] n_invD(3) [OF assms(1), of j] assms(2) by (auto simp: tx)
  show "tx_locks (nw_tx ?y j) \<subseteq> open_ids (nw_db ?y)" for j
    using n_invD(4) [OF assms(1), of j] locks by (auto simp: tx same)
qed (use n_invD(1,2) [OF assms(1)] in \<open>simp_all add: n_hand_def\<close>)

lemma retried_keeps: "n_inv D w \<Longrightarrow> n_inv D (n_retry i published e w)"
  by (simp add: n_inv_def n_retry_def)

lemma mark_distinct: "map so_id (sd_outbox (mark_ids ids db)) = map so_id (sd_outbox db)"
  by (simp add: mark_ids_def)

lemma committed_keeps:
  assumes "n_inv D w" and "nw_tx w i = NClaimed handed []"
  shows "n_inv D (n_commit i handed w)" (is "n_inv D ?y")
proof (rule n_invI)
  let ?ids = "map oe_ID handed"
  have ids: "set ?ids = tx_locks (nw_tx w i)" "set ?ids = tx_handed (nw_tx w i)" using assms(2) by simp_all
  have open_ids: "set ?ids \<subseteq> open_ids (nw_db w)" using n_invD(4) [OF assms(1), of i] ids by simp
  note mk = marked_mark [OF open_ids]
  have tx: "nw_tx ?y = (nw_tx w)(i := NIdle)" and db: "nw_db ?y = mark_ids ?ids (nw_db w)"
    and same: "nw_sent ?y = nw_sent w" "nw_failed ?y = nw_failed w" by (simp_all add: n_commit_def)
  show "distinct (map so_id (sd_outbox (nw_db ?y)))" using n_invD(1) [OF assms(1)] by (simp add: db mark_distinct)
  show "D \<subseteq> marked (nw_db ?y)" using n_invD(2) [OF assms(1)] mk by (auto simp: db)
  show "tx_distinct (nw_tx ?y j)" for j using n_invD(3) [OF assms(1), of j] by (simp add: tx)
  show "tx_locks (nw_tx ?y j) \<subseteq> open_ids (nw_db ?y)" for j
    using n_invD(4) [OF assms(1), of j] n_invD(5) [OF assms(1), of i j] ids mk by (auto simp: tx db)
  from locks_upd [OF assms(1), of NIdle i]
  show "k \<noteq> j \<Longrightarrow> tx_locks (nw_tx ?y k) \<inter> tx_locks (nw_tx ?y j) = {}" for k j by (simp add: tx)
  fix n
  have own: "n \<in> set ?ids \<Longrightarrow> n \<notin> marked (nw_db w) \<and> (\<forall>j. j \<noteq> i \<longrightarrow> n \<notin> tx_handed (nw_tx w j))"
    using own_locks [OF assms(1), of n i] ids by blast
  have fl: "in_flight ?y n \<longleftrightarrow> (\<exists>j. j \<noteq> i \<and> n \<in> tx_handed (nw_tx w j))" using in_flight_upd [OF tx, of n] by simp
  show "count_list (nw_sent ?y) n = count_list (nw_failed ?y) n + (if n \<in> marked (nw_db ?y) - D then 1 else 0) + (if in_flight ?y n then 1 else 0)"
  proof (cases "n \<in> set ?ids")
    case True
    have "in_flight w n" using True ids in_flight_split [of w n i] by blast
    moreover have "\<not> in_flight ?y n" "n \<notin> marked (nw_db w)" "n \<notin> D" "n \<in> marked (nw_db ?y)"
      using own [OF True] fl n_invD(2) [OF assms(1)] mk(1) True by (auto simp: db)
    ultimately show ?thesis using n_invD(6) [OF assms(1), of n] by (simp add: same)
  next
    case False
    then have "in_flight ?y n \<longleftrightarrow> in_flight w n" using fl in_flight_split [of w n i] ids by blast
    moreover have "n \<in> marked (nw_db ?y) \<longleftrightarrow> n \<in> marked (nw_db w)" using False mk(1) by (simp add: db)
    ultimately show ?thesis using n_invD(6) [OF assms(1), of n] by (simp add: same)
  qed
qed

lemma aborted_keeps:
  assumes "n_inv D w" and "nw_tx w i = NClaimed handed rest"
  shows "n_inv D (n_abort i handed w)" (is "n_inv D ?y")
proof (rule n_invI)
  have tx: "nw_tx ?y = (nw_tx w)(i := NIdle)" and same: "nw_db ?y = nw_db w" "nw_sent ?y = nw_sent w"
    "nw_failed ?y = nw_failed w @ map oe_ID handed" by (simp_all add: n_abort_def)
  from locks_upd [OF assms(1), of NIdle i]
  show "k \<noteq> j \<Longrightarrow> tx_locks (nw_tx ?y k) \<inter> tx_locks (nw_tx ?y j) = {}" for k j by (simp add: tx)
  fix n
  have h: "tx_handed (nw_tx w i) = set (map oe_ID handed)" using assms(2) by simp
  have d: "distinct (map oe_ID handed)" using n_invD(3) [OF assms(1), of i] assms(2) by simp
  have fl: "in_flight ?y n \<longleftrightarrow> (\<exists>j. j \<noteq> i \<and> n \<in> tx_handed (nw_tx w j))" using in_flight_upd [OF tx, of n] by simp
  have "n \<in> set (map oe_ID handed) \<Longrightarrow> in_flight w n \<and> \<not> in_flight ?y n"
    using own_locks(2) [OF assms(1), of n i] handed_locked [of "nw_tx w i"] h fl in_flight_split [of w n i] by blast
  moreover have "n \<notin> set (map oe_ID handed) \<Longrightarrow> in_flight ?y n \<longleftrightarrow> in_flight w n" using fl h in_flight_split [of w n i] by blast
  ultimately show "count_list (nw_sent ?y) n = count_list (nw_failed ?y) n + (if n \<in> marked (nw_db ?y) - D then 1 else 0) + (if in_flight ?y n then 1 else 0)"
    using n_invD(6) [OF assms(1), of n] count_list_distinct [OF d, of n] by (auto simp: same count_list_append)
qed (use n_invD [OF assms(1)] in \<open>simp_all add: n_abort_def\<close>)

lemma stored_keeps:
  assumes "n_inv D w" and "so_id r \<notin> so_id ` set (sd_outbox (nw_db w))" and "\<not> so_dispatched r"
  shows "n_inv D (w\<lparr>nw_db := (nw_db w)\<lparr>sd_outbox := sd_outbox (nw_db w) @ [r]\<rparr>\<rparr>)" (is "n_inv D ?y")
proof (rule n_invI)
  have m: "marked (nw_db ?y) = marked (nw_db w)" "open_ids (nw_db ?y) = insert (so_id r) (open_ids (nw_db w))"
    using assms(3) by (auto simp: marked_def open_ids_def)
  show "count_list (nw_sent ?y) n = count_list (nw_failed ?y) n + (if n \<in> marked (nw_db ?y) - D then 1 else 0) + (if in_flight ?y n then 1 else 0)" for n
    using n_invD(6) [OF assms(1), of n] unfolding m by (simp add: in_flight_def)
  show "tx_locks (nw_tx ?y i) \<subseteq> open_ids (nw_db ?y)" for i using n_invD(4) [OF assms(1), of i] unfolding m by auto
  show "D \<subseteq> marked (nw_db ?y)" unfolding m by (rule n_invD(2) [OF assms(1)])
qed (use n_invD(1,3,5) [OF assms(1)] assms(2) in \<open>simp_all\<close>)

lemmas relay_steps_keep = claimed_keeps handed_keeps retried_keeps committed_keeps aborted_keeps stored_keeps

lemma n_step_keeps: "\<lbrakk>n_step retries w w'; n_inv D w\<rbrakk> \<Longrightarrow> n_inv D w'"
  by (induction rule: n_step.induct) (blast intro: relay_steps_keep)+

lemma n_steps_inv:
  assumes "(n_step retries)\<^sup>*\<^sup>* (n_start db) w" and "distinct (map so_id (sd_outbox db))"
  shows "n_inv (marked db) w"
  using assms(1) by (induction rule: rtranclp_induct) (auto intro: n_inv_start [OF assms(2)] n_step_keeps)

end
