(* ===== verification/Naive_Props.thy ===== *)
theory Naive_Props
  imports Naive_Relay Single_Props
begin

text \<open>
  The competing relays of the \<^verbatim>\<open>naive-scale\<close> variant hand each event over once, and once more for every
  transaction that ended without its commit. A publication that fails is given up after the client's retries.
\<close>

lemma distinct_count_list: "\<forall>n. count_list xs n \<le> 1 \<Longrightarrow> distinct xs"
proof (induction xs)
  case (Cons x xs)
  have "count_list xs n \<le> 1" for n using Cons.prems [THEN spec, of n] by (auto split: if_splits)
  moreover have "count_list xs x = 0" using Cons.prems [THEN spec, of x] by simp
  ultimately show ?case using Cons.IH by (auto simp: count_list_0_iff)
qed simp

lemma flight_not_marked:
  assumes "n_inv D w" and "in_flight w n"
  shows "n \<notin> marked (nw_db w)"
proof -
  obtain i where "n \<in> tx_handed (nw_tx w i)" using assms(2) by (auto simp: in_flight_def)
  then show ?thesis using own_locks(3) [OF assms(1)] handed_locked by blast
qed

text \<open>C32: no event is claimed by two relays at the same time; an event that is marked was handed over once, and
  once more for each transaction with it that ended without a commit; and when all transactions commit, no
  event is handed over twice, whatever the interleaving of the instances.\<close>

theorem relays_hand_over_once:
  assumes "(n_step retries)\<^sup>*\<^sup>* (n_start db) w" and "distinct (map so_id (sd_outbox db))"
  shows "(\<forall>i j. i \<noteq> j \<longrightarrow> tx_locks (nw_tx w i) \<inter> tx_locks (nw_tx w j) = {}) \<and>
    (\<forall>n \<in> marked (nw_db w) - marked db. count_list (nw_sent w) n = Suc (count_list (nw_failed w) n)) \<and>
    (nw_failed w = [] \<longrightarrow> distinct (nw_sent w))"
proof (intro conjI ballI allI impI)
  note inv = n_steps_inv [OF assms]
  show "i \<noteq> j \<Longrightarrow> tx_locks (nw_tx w i) \<inter> tx_locks (nw_tx w j) = {}" for i j by (rule n_invD(5) [OF inv])
  show "count_list (nw_sent w) n = Suc (count_list (nw_failed w) n)" if "n \<in> marked (nw_db w) - marked db" for n
    using n_invD(6) [OF inv, of n] flight_not_marked [OF inv, of n] that by auto
  assume "nw_failed w = []"
  then have "count_list (nw_sent w) n \<le> 1" for n
    using n_invD(6) [OF inv, of n] flight_not_marked [OF inv, of n] by auto
  then show "distinct (nw_sent w)" by (intro distinct_count_list) simp
qed

subsection \<open>A run of one instance\<close>

lemma marked_rows: "marked db = set (map so_id (filter so_dispatched (sd_outbox db)))"
  by (auto simp: marked_def)

lemma single_claim:
  assumes "unmarshal_chat p = Some m"
  shows "n_claim 0 (n_start (sample_sdb\<lparr>sd_outbox := [sample_outbox_row 1 p]\<rparr>)) =
    (n_start (sample_sdb\<lparr>sd_outbox := [sample_outbox_row 1 p]\<rparr>))
      \<lparr>nw_tx := (\<lambda>_. NIdle)(0 := NClaimed [] [\<lparr>oe_ID = 1, oe_RoomID = ''r1'', oe_Message = m\<rparr>])\<rparr>"
  using assms
  by (simp add: n_claim_def n_start_def claim_rows_def n_locked_def undispatched_def sample_outbox_row_def batchSize_def)

lemma lost_publication:
  "\<exists>db w. distinct (map so_id (sd_outbox db)) \<and> (n_step 3)\<^sup>*\<^sup>* (n_start db) w \<and> marked (nw_db w) = {1} \<and> marked db = {} \<and>
     nw_sent w = [1] \<and> nw_failed w = [] \<and> nw_pub w = []"
proof -
  obtain p where p: "marshal_chat (sample_chat 1) = Some p" "unmarshal_chat p = Some (sample_chat 1)"
    using sample_chat_back [of 1] by (auto simp: in_int64_def)
  let ?db = "sample_sdb\<lparr>sd_outbox := [sample_outbox_row 1 p]\<rparr>"
  let ?e = "\<lparr>oe_ID = 1, oe_RoomID = ''r1'', oe_Message = sample_chat 1\<rparr>"
  let ?a = "n_claim 0 (n_start ?db)"
  let ?b = "n_hand 0 False [] ?e [] ?a"
  let ?c = "n_commit 0 [?e] ?b"
  have "n_step 3 (n_start ?db) ?a" by (rule n_claimed) (simp add: n_start_def)
  moreover have "n_step 3 ?a ?b" by (rule n_handed) (simp add: single_claim [OF p(2)])
  moreover have "n_step 3 ?b ?c" by (rule n_committed) (simp add: n_hand_def)
  ultimately have "(n_step 3)\<^sup>*\<^sup>* (n_start ?db) ?c" by (meson rtranclp.rtrancl_into_rtrancl rtranclp.rtrancl_refl)
  moreover have "marked (nw_db ?c) = {1}" "marked ?db = {}" "nw_sent ?c = [1]" "nw_failed ?c = []" "nw_pub ?c = []"
    unfolding n_commit_def n_hand_def single_claim [OF p(2)]
    using p(1) by (simp_all add: n_start_def marked_rows mark_ids_def sample_outbox_row_def n_Broadcast_def)
  ultimately show ?thesis by (intro exI [of _ ?db] exI [of _ ?c]) (simp add: sample_outbox_row_def)
qed

theorem relays_hand_over_once_witness:
  "\<exists>db w. (n_step 3)\<^sup>*\<^sup>* (n_start db) w \<and> 1 \<in> marked (nw_db w) - marked db \<and> count_list (nw_sent w) 1 = 1 \<and> distinct (nw_sent w)"
proof -
  obtain db w where d: "distinct (map so_id (sd_outbox db))" and s: "(n_step 3)\<^sup>*\<^sup>* (n_start db) w"
    and m: "marked (nw_db w) = {1}" "marked db = {}" and f: "nw_failed w = []"
    using lost_publication by blast
  have "1 \<in> marked (nw_db w) - marked db" using m by simp
  with relays_hand_over_once [OF s d] f s show ?thesis by (intro exI [of _ db] exI [of _ w]) auto
qed

end
