(* ===== verification/Naive_Hub.thy ===== *)
theory Naive_Hub
  imports Naive_Props Single_Hub_Props "HOL-Library.Sublist"
begin

text \<open>
  The hub of the \<^verbatim>\<open>naive-scale\<close> variant (\<^verbatim>\<open>naive-scale/internal/hub/hub.go\<close>). Each instance has the rooms, readers and
  writers of the single-process hub; a broadcast is published to the room's Redis channel instead, and \<^verbatim>\<open>consume\<close>
  takes what the instance's subscriptions receive back into its own hub. Redis delivers a publication to the
  instances subscribed at that moment, and to each of them at most once.
\<close>

subsection \<open>Instances\<close>

record n_inst =
  ni_hub :: s_proc
  ni_subs :: "string list"
  ni_queue :: "(string \<times> bytes) list"

record n_net =
  nn_inst :: "nat \<Rightarrow> n_inst"
  nn_pub :: "(string \<times> bytes) list"

definition n_New :: n_inst where
  "n_New = \<lparr>ni_hub = s_start, ni_subs = [], ni_queue = []\<rparr>"

text \<open>The first client of a room subscribes the instance; whether the call works does not change the room.\<close>

definition n_take_register :: "bool \<Rightarrow> client_id \<Rightarrow> n_inst \<Rightarrow> n_inst" where
  "n_take_register subscribed c x =
     (let roomID = sx_room (ni_hub x) c; fresh = (map_of (sh_rooms (sx_hub (ni_hub x))) roomID = None) in
      x\<lparr>ni_hub := take_register c (ni_hub x),
        ni_subs := (if fresh \<and> subscribed then List.insert (roomChannel roomID) (ni_subs x) else ni_subs x)\<rparr>)"

definition n_take_unregister :: "bool \<Rightarrow> client_id \<Rightarrow> n_inst \<Rightarrow> n_inst" where
  "n_take_unregister unsubscribed c x =
     (let roomID = sx_room (ni_hub x) c; hub = take_unregister c (ni_hub x);
          emptied = (map_of (sh_rooms (sx_hub (ni_hub x))) roomID \<noteq> None \<and> map_of (sh_rooms (sx_hub hub)) roomID = None) in
      x\<lparr>ni_hub := hub, ni_subs := (if emptied \<and> unsubscribed then removeAll (roomChannel roomID) (ni_subs x) else ni_subs x)\<rparr>)"

text \<open>\<^verbatim>\<open>consume\<close>: the next message of the subscriptions becomes a broadcast of the instance's own hub.\<close>

definition consume_next :: "n_inst \<Rightarrow> n_inst option" where
  "consume_next x =
     (case ni_queue x of
        [] \<Rightarrow> None
      | (channel, payload) # rest \<Rightarrow>
          Some (x\<lparr>ni_hub := take_broadcast (TrimPrefix channel roomChannelPrefix) payload (ni_hub x), ni_queue := rest\<rparr>))"

text \<open>A publication of an instance's \<^verbatim>\<open>Broadcast\<close>; \<open>got i\<close> says whether instance \<open>i\<close>, when subscribed, receives it.\<close>

definition publish :: "string \<Rightarrow> bytes \<Rightarrow> (nat \<Rightarrow> bool) \<Rightarrow> n_net \<Rightarrow> n_net" where
  "publish channel payload got s =
     s\<lparr>nn_pub := nn_pub s @ [(channel, payload)],
       nn_inst := (\<lambda>i. let x = nn_inst s i in
         if got i \<and> channel \<in> set (ni_subs x) then x\<lparr>ni_queue := ni_queue x @ [(channel, payload)]\<rparr> else x)\<rparr>"

text \<open>
  The steps: those of the hub of an instance that leave its rooms and its log of broadcasts alone; a client
  that joins or leaves, with the subscription of its room; the broadcast taken from the
  subscriptions; a publication; and changes of the subscriptions by the Redis client, which may lose its
  connection and subscribe again.
\<close>

definition set_inst :: "nat \<Rightarrow> n_inst \<Rightarrow> n_net \<Rightarrow> n_net" where
  "set_inst i x s = s\<lparr>nn_inst := (nn_inst s)(i := x)\<rparr>"

inductive net_step :: "n_net \<Rightarrow> n_net \<Rightarrow> bool" where
  net_local: "\<lbrakk>s_step (ni_hub (nn_inst s i)) h; sx_log h = sx_log (ni_hub (nn_inst s i));
     sh_rooms (sx_hub h) = sh_rooms (sx_hub (ni_hub (nn_inst s i)))\<rbrakk> \<Longrightarrow>
    net_step s (set_inst i ((nn_inst s i)\<lparr>ni_hub := h\<rparr>) s)"
| net_register: "\<lbrakk>sx_pc (ni_hub (nn_inst s i)) = None; sx_reader (ni_hub (nn_inst s i)) c = Registering\<rbrakk> \<Longrightarrow>
    net_step s (set_inst i (n_take_register ok c (nn_inst s i)) s)"
| net_unregister: "\<lbrakk>sx_pc (ni_hub (nn_inst s i)) = None; sx_reader (ni_hub (nn_inst s i)) c = Unregistering\<rbrakk> \<Longrightarrow>
    net_step s (set_inst i (n_take_unregister ok c (nn_inst s i)) s)"
| net_consume: "\<lbrakk>sx_pc (ni_hub (nn_inst s i)) = None; consume_next (nn_inst s i) = Some x\<rbrakk> \<Longrightarrow> net_step s (set_inst i x s)"
| net_publish: "marshal_chat m = Some payload \<Longrightarrow> net_step s (publish (roomChannel r) payload got s)"
| net_subs: "net_step s (set_inst i ((nn_inst s i)\<lparr>ni_subs := cs\<rparr>) s)"

definition net_start :: n_net where
  "net_start = \<lparr>nn_inst = (\<lambda>_. n_New), nn_pub = []\<rparr>"

subsection \<open>The invariant\<close>

definition room_of :: "string \<times> bytes \<Rightarrow> string \<times> bytes" where
  "room_of e = (TrimPrefix (fst e) roomChannelPrefix, snd e)"

definition inst_ok :: "(string \<times> bytes) list \<Rightarrow> n_inst \<Rightarrow> bool" where
  "inst_ok pub x \<longleftrightarrow> s_inv (ni_hub x) \<and> subseq (sx_log (ni_hub x) @ map room_of (ni_queue x)) (map room_of pub)"

lemma inst_ok_local: "\<lbrakk>inst_ok pub x; s_step (ni_hub x) h; sx_log h = sx_log (ni_hub x)\<rbrakk> \<Longrightarrow> inst_ok pub (x\<lparr>ni_hub := h\<rparr>)"
  by (auto simp: inst_ok_def intro: s_step_keeps)

lemma take_log [simp]: "sx_log (take_register c h) = sx_log h" "sx_log (take_unregister c h) = sx_log h"
  by (simp_all add: take_register_def take_unregister_def split: sum.split)

lemma inst_ok_register:
  "\<lbrakk>inst_ok pub x; sx_pc (ni_hub x) = None; sx_reader (ni_hub x) c = Registering\<rbrakk> \<Longrightarrow> inst_ok pub (n_take_register ok c x)"
  by (auto simp: inst_ok_def n_take_register_def Let_def intro: register_keeps)

lemma inst_ok_unregister:
  "\<lbrakk>inst_ok pub x; sx_pc (ni_hub x) = None; sx_reader (ni_hub x) c = Unregistering\<rbrakk> \<Longrightarrow> inst_ok pub (n_take_unregister ok c x)"
  by (auto simp: inst_ok_def n_take_unregister_def Let_def intro: unregister_keeps)

lemma inst_ok_consume:
  assumes "inst_ok pub x" "sx_pc (ni_hub x) = None" "consume_next x = Some y"
  shows "inst_ok pub y"
  using assms by (auto simp: inst_ok_def consume_next_def take_broadcast_def [of _ _ "ni_hub x"] room_of_def
      dest: broadcast_keeps split: list.splits)

lemma inst_ok_publish:
  assumes "inst_ok pub x"
  shows "inst_ok (pub @ [e]) x" "inst_ok (pub @ [e]) (x\<lparr>ni_queue := ni_queue x @ [e]\<rparr>)"
proof -
  have s: "subseq (sx_log (ni_hub x) @ map room_of (ni_queue x)) (map room_of pub)" using assms by (simp add: inst_ok_def)
  from subseq_rev_drop_many [OF s] show "inst_ok (pub @ [e]) x" using assms by (simp add: inst_ok_def)
  from list_emb_append_mono [OF s, of "[room_of e]" "[room_of e]"]
  show "inst_ok (pub @ [e]) (x\<lparr>ni_queue := ni_queue x @ [e]\<rparr>)" using assms by (simp add: inst_ok_def)
qed

lemma net_step_ok: "\<lbrakk>net_step s t; \<forall>i. inst_ok (nn_pub s) (nn_inst s i)\<rbrakk> \<Longrightarrow> \<forall>i. inst_ok (nn_pub t) (nn_inst t i)"
proof (induction rule: net_step.induct)
  case (net_publish m payload s r got)
  then show ?case by (auto simp: publish_def Let_def inst_ok_publish)
next
  case (net_subs s i cs)
  then show ?case by (auto simp: set_inst_def inst_ok_def)
qed (auto simp: set_inst_def intro: inst_ok_local inst_ok_register inst_ok_unregister inst_ok_consume)

lemma net_reachable_ok: "net_step\<^sup>*\<^sup>* net_start s \<Longrightarrow> \<forall>i. inst_ok (nn_pub s) (nn_inst s i)"
proof (induction rule: rtranclp_induct)
  case base
  show ?case using s_inv_start by (simp add: net_start_def n_New_def inst_ok_def s_start_def)
qed (auto dest: net_step_ok)

text \<open>Every publication is on the channel of a room.\<close>

lemma net_step_channels:
  "\<lbrakk>net_step s t; \<forall>e \<in> set (nn_pub s). \<exists>r. fst e = roomChannel r\<rbrakk> \<Longrightarrow> \<forall>e \<in> set (nn_pub t). \<exists>r. fst e = roomChannel r"
  by (induction rule: net_step.induct) (auto simp: set_inst_def publish_def Let_def)

lemma net_channels: "net_step\<^sup>*\<^sup>* net_start s \<Longrightarrow> \<forall>e \<in> set (nn_pub s). \<exists>r. fst e = roomChannel r"
proof (induction rule: rtranclp_induct)
  case base
  show ?case by (simp add: net_start_def)
qed (auto dest: net_step_channels)

lemma roomChannel_inject [simp]: "roomChannel r = roomChannel q \<longleftrightarrow> r = q"
  by (simp add: roomChannel_def)

lemma filter_rooms:
  "\<forall>e \<in> set pub. \<exists>q. fst e = roomChannel q \<Longrightarrow>
    map snd (filter (\<lambda>e. fst e = r) (map room_of pub)) = map snd (filter (\<lambda>e. fst e = roomChannel r) pub)"
  by (induction pub) (auto simp: room_of_def roomChannel_def)

lemma subseq_drop: "subseq (drop n xs) (xs @ ys)"
  by (metis append_take_drop_id list_emb_append2 list_emb_prefix subseq_order.refl)

lemma due_published:
  assumes "inst_ok pub x" "\<forall>e \<in> set pub. \<exists>q. fst e = roomChannel q"
  shows "subseq (due (ni_hub x) c) (map snd (filter (\<lambda>e. fst e = roomChannel (sx_room (ni_hub x) c)) pub))"
proof -
  let ?log = "sx_log (ni_hub x)" and ?r = "sx_room (ni_hub x) c"
  have "subseq (drop (sx_since (ni_hub x) c) ?log) (map room_of pub)"
    using assms(1) subseq_drop subseq_order.trans unfolding inst_ok_def by blast
  then have "subseq (due (ni_hub x) c) (map snd (filter (\<lambda>e. fst e = ?r) (map room_of pub)))"
    unfolding due_def by (intro subseq_map subseq_filter)
  then show ?thesis unfolding filter_rooms [OF assms(2)] .
qed

text \<open>What a joined client was handed: what its instance consumed since it joined, a selection of what was published.\<close>

lemma handed_published:
  assumes "net_step\<^sup>*\<^sup>* net_start s" "h = ni_hub (nn_inst s i)" "joined h c"
  shows "subseq (sx_written h c @ sx_lost h c @ sh_send (sx_hub h) c @ unsent h c)
    (map snd (filter (\<lambda>e. fst e = roomChannel (sx_room h c)) (nn_pub s)))"
proof -
  have ok: "inst_ok (nn_pub s) (nn_inst s i)" using net_reachable_ok [OF assms(1)] by blast
  then have "s_inv h" by (simp add: inst_ok_def assms(2))
  from joined_due [OF this assms(3)] due_published [OF ok net_channels [OF assms(1)], of c] show ?thesis
    by (simp add: assms(2))
qed

text \<open>C33: however the instances of \<^verbatim>\<open>naive-scale\<close> run and whatever Redis loses, no hub panics, and a client joined
  on any instance has been handed messages published to its room only, each publication at most once and in the
  order of publication: exactly those its instance has consumed since the client joined.\<close>

theorem naive_hub_at_most_once:
  assumes "net_step\<^sup>*\<^sup>* net_start s" and "h = ni_hub (nn_inst s i)"
  shows "\<not> sx_panic h \<and>
    (joined h c \<longrightarrow>
      sx_written h c @ sx_lost h c @ sh_send (sx_hub h) c @ unsent h c =
        map snd (filter (\<lambda>e. fst e = sx_room h c) (drop (sx_since h c) (sx_log h))) \<and>
      subseq (sx_written h c @ sx_lost h c @ sh_send (sx_hub h) c @ unsent h c)
        (map snd (filter (\<lambda>e. fst e = roomChannel (sx_room h c)) (nn_pub s))))"
proof (intro conjI impI)
  have inv: "s_inv h" using net_reachable_ok [OF assms(1)] by (simp add: inst_ok_def assms(2))
  show "\<not> sx_panic h" by (rule s_invD(1) [OF inv])
  assume j: "joined h c"
  show "sx_written h c @ sx_lost h c @ sh_send (sx_hub h) c @ unsent h c =
      map snd (filter (\<lambda>e. fst e = sx_room h c) (drop (sx_since h c) (sx_log h)))"
    using joined_due [OF inv j] by (simp add: due_def)
  show "subseq (sx_written h c @ sx_lost h c @ sh_send (sx_hub h) c @ unsent h c)
      (map snd (filter (\<lambda>e. fst e = roomChannel (sx_room h c)) (nn_pub s)))"
    by (rule handed_published [OF assms j])
qed

subsection \<open>Two instances\<close>

text \<open>
  A client joins room \<open>r1\<close> on instance 1; a message is published there (any instance may do it) and the hub of
  instance 1 takes it.
\<close>

definition relayed :: "bytes \<Rightarrow> n_inst" where
  "relayed p = (let a = n_New\<lparr>ni_hub := the (handleWS ''r1'' 0 s_start)\<rparr>; b = n_take_register True 0 a in
     the (consume_next (b\<lparr>ni_queue := [(roomChannel ''r1'', p)]\<rparr>)))"

lemma relayed_state:
  "joined (ni_hub (relayed p)) 0" "unsent (ni_hub (relayed p)) 0 = [p]" "sx_room (ni_hub (relayed p)) 0 = ''r1''"
  by (simp_all add: relayed_def n_New_def handleWS_def n_take_register_def take_register_def run_register_def consume_next_def
      take_broadcast_def joined_def unsent_def room_members_def s_start_def hub_New_def roomChannel_def Let_def)

lemma relayed_reachable:
  assumes "marshal_chat m = Some p"
  shows "\<exists>s. net_step\<^sup>*\<^sup>* net_start s \<and> nn_inst s 1 = relayed p \<and> nn_pub s = [(roomChannel ''r1'', p)]"
proof -
  let ?h = "the (handleWS ''r1'' 0 s_start)"
  let ?a = "set_inst 1 (n_New\<lparr>ni_hub := ?h\<rparr>) net_start"
  let ?x = "n_take_register True 0 (n_New\<lparr>ni_hub := ?h\<rparr>)"
  let ?b = "set_inst 1 ?x ?a"
  let ?c = "publish (roomChannel ''r1'') p (\<lambda>_. True) ?b"
  let ?d = "set_inst 1 (relayed p) ?c"
  have h: "handleWS ''r1'' 0 s_start = Some ?h" by (simp add: handleWS_def)
  have "s_step s_start ?h" by (rule s_connect [OF _ h]) (simp add: s_start_def)
  then have "net_step net_start ?a"
    using net_local [of net_start 1 ?h] by (simp add: net_start_def n_New_def handleWS_def)
  moreover have "net_step ?a ?b"
    using net_register [of ?a 1 0 True] by (simp add: set_inst_def n_New_def handleWS_def s_start_def)
  moreover have "net_step ?b ?c" by (rule net_publish [OF assms])
  moreover have sub: "ni_subs ?x = [roomChannel ''r1'']" "ni_queue ?x = []" "sx_pc (ni_hub ?x) = None"
    by (simp_all add: n_take_register_def take_register_def n_New_def handleWS_def s_start_def hub_New_def Let_def)
  have inst: "nn_inst ?c 1 = ?x\<lparr>ni_queue := [(roomChannel ''r1'', p)]\<rparr>"
    using sub by (simp add: publish_def set_inst_def Let_def)
  then have "consume_next (nn_inst ?c 1) = Some (relayed p)" by (simp add: relayed_def consume_next_def Let_def)
  then have "net_step ?c ?d" using sub inst by (intro net_consume) simp_all
  ultimately have "net_step\<^sup>*\<^sup>* net_start ?d" by (meson rtranclp.rtrancl_into_rtrancl rtranclp.rtrancl_refl)
  then show ?thesis by (intro exI [of _ ?d]) (simp add: set_inst_def publish_def net_start_def)
qed

theorem naive_hub_at_most_once_witness:
  "\<exists>p s. net_step\<^sup>*\<^sup>* net_start s \<and> joined (ni_hub (nn_inst s 1)) 0 \<and> unsent (ni_hub (nn_inst s 1)) 0 = [p] \<and>
    nn_pub s = [(roomChannel ''r1'', p)] \<and> \<not> sx_panic (ni_hub (nn_inst s 1)) \<and>
    subseq (sx_written (ni_hub (nn_inst s 1)) 0 @ sx_lost (ni_hub (nn_inst s 1)) 0 @ sh_send (sx_hub (ni_hub (nn_inst s 1))) 0 @ [p]) [p]"
proof -
  obtain p where "marshal_chat (sample_chat 1) = Some p" using sample_chat_back [of 1] by (auto simp: in_int64_def)
  then obtain s where s: "net_step\<^sup>*\<^sup>* net_start s" "nn_inst s 1 = relayed p" "nn_pub s = [(roomChannel ''r1'', p)]"
    using relayed_reachable by blast
  let ?h = "ni_hub (relayed p)"
  have "\<not> sx_panic ?h \<and> subseq (sx_written ?h 0 @ sx_lost ?h 0 @ sh_send (sx_hub ?h) 0 @ unsent ?h 0)
      (map snd (filter (\<lambda>e. fst e = roomChannel (sx_room ?h 0)) [(roomChannel ''r1'', p)]))"
    using naive_hub_at_most_once [OF s(1) refl, of 1 0] relayed_state(1) [of p] unfolding s(2,3) by blast
  with s relayed_state [of p] show ?thesis by (intro exI [of _ p] exI [of _ s]) simp
qed

end
