(* ===== verification/Naive_System.thy ===== *)
theory Naive_System
  imports Naive_Hub
begin

text \<open>
  The whole of \<^verbatim>\<open>naive-scale\<close>: relays of several instances publish the rows of one outbox, and the hubs of all
  instances deliver what they receive. The publications of the hubs' network are those of the relays.
\<close>

subsection \<open>What the relays publish\<close>

definition row_pub :: "s_db \<Rightarrow> int \<Rightarrow> (string \<times> bytes) option" where
  "row_pub db n =
     Option.bind (find (\<lambda>r. so_id r = n) (sd_outbox db)) (\<lambda>r.
       Option.bind (unmarshal_chat (so_payload r)) (\<lambda>m. map_option (Pair (roomChannel (so_room_id r))) (marshal_chat m)))"

fun tx_events :: "n_tx \<Rightarrow> OutboxEvent list" where
  "tx_events NIdle = []"
| "tx_events (NClaimed hs rest) = hs @ rest"

text \<open>The events of the transactions are rows, and each publication is that of a row handed over or of a retry.\<close>

definition event_row :: "s_db \<Rightarrow> OutboxEvent \<Rightarrow> bool" where
  "event_row db e \<longleftrightarrow> row_pub db (oe_ID e) = map_option (Pair (roomChannel (oe_RoomID e))) (marshal_chat (oe_Message e)) \<and>
     oe_ID e \<in> so_id ` set (sd_outbox db)"

definition pub_inv :: "n_world \<Rightarrow> bool" where
  "pub_inv w \<longleftrightarrow> distinct (map so_id (sd_outbox (nw_db w))) \<and> (\<forall>i. \<forall>e \<in> set (tx_events (nw_tx w i)). event_row (nw_db w) e) \<and>
     set (nw_sent w) \<subseteq> so_id ` set (sd_outbox (nw_db w)) \<and>
     (\<exists>ids. set ids \<subseteq> so_id ` set (sd_outbox (nw_db w)) \<and> map Some (nw_pub w) = map (row_pub (nw_db w)) ids \<and>
        (\<forall>n. count_list ids n \<le> count_list (nw_sent w) n + count_list (nw_retried w) n))"

lemma subseq_set: "subseq xs ys \<Longrightarrow> set xs \<subseteq> set ys"
  by (induction rule: list_emb.induct) auto

lemma subseq_distinct: "\<lbrakk>subseq xs ys; distinct ys\<rbrakk> \<Longrightarrow> distinct xs"
  by (induction rule: list_emb.induct) (auto dest: subseq_set)

lemma find_row: "\<lbrakk>distinct (map so_id rows); r \<in> set rows\<rbrakk> \<Longrightarrow> find (\<lambda>q. so_id q = so_id r) rows = Some r"
  by (induction rows) (auto simp: image_iff)

lemma decode_rows_events:
  "\<lbrakk>decode_rows rows = Inr events; e \<in> set events\<rbrakk> \<Longrightarrow>
     \<exists>r \<in> set rows. oe_ID e = so_id r \<and> oe_RoomID e = so_room_id r \<and> unmarshal_chat (so_payload r) = Some (oe_Message e)"
  by (induction rows arbitrary: events) (fastforce split: option.splits sum.splits)+

lemma row_pub_mark [simp]: "row_pub (mark_ids ids db) = row_pub db"
proof
  fix n
  have "find (\<lambda>r. so_id r = n) (map f rows) = map_option f (find (\<lambda>r. so_id r = n) rows)"
    if "\<And>r. so_id (f r) = so_id r" for f and rows :: "outbox_event_row list"
    using that by (induction rows) auto
  from this [of "\<lambda>r. if so_id r \<in> set ids then r\<lparr>so_dispatched := True\<rparr> else r" "sd_outbox db"]
  have "find (\<lambda>r. so_id r = n) (sd_outbox (mark_ids ids db)) =
      map_option (\<lambda>r. if so_id r \<in> set ids then r\<lparr>so_dispatched := True\<rparr> else r) (find (\<lambda>r. so_id r = n) (sd_outbox db))"
    by (simp add: mark_ids_def)
  then show "row_pub (mark_ids ids db) n = row_pub db n"
    by (cases "find (\<lambda>r. so_id r = n) (sd_outbox db)") (auto simp: row_pub_def)
qed

lemma find_append_old: "n \<in> so_id ` set rows \<Longrightarrow> find (\<lambda>r. so_id r = n) (rows @ rs) = find (\<lambda>r. so_id r = n) rows"
  by (induction rows) auto

lemma row_pub_stored: "n \<in> so_id ` set (sd_outbox db) \<Longrightarrow> row_pub (db\<lparr>sd_outbox := sd_outbox db @ [r]\<rparr>) n = row_pub db n"
  by (simp add: row_pub_def find_append_old)

lemma so_ids_mark [simp]: "so_id ` set (sd_outbox (mark_ids ids db)) = so_id ` set (sd_outbox db)"
  by (metis list.set_map mark_distinct)

lemma event_row_mark [simp]: "event_row (mark_ids ids db) = event_row db"
  by (simp add: event_row_def fun_eq_iff)

lemma pub_inv_claim:
  assumes "pub_inv w"
  shows "pub_inv (n_claim i w)"
proof (cases "decode_rows (claim_rows batchSize (n_locked w) (nw_db w))")
  case (Inr events)
  have "event_row (nw_db w) e" if e: "e \<in> set events" for e
  proof -
    obtain r where r: "r \<in> set (claim_rows batchSize (n_locked w) (nw_db w))" "oe_ID e = so_id r" "oe_RoomID e = so_room_id r"
        "unmarshal_chat (so_payload r) = Some (oe_Message e)"
      using decode_rows_events [OF Inr e] by blast
    then have in_db: "r \<in> set (sd_outbox (nw_db w))" by (auto simp: claim_rows_def undispatched_def dest!: in_set_takeD)
    from find_row [OF _ in_db] assms have "find (\<lambda>q. so_id q = so_id r) (sd_outbox (nw_db w)) = Some r" by (simp add: pub_inv_def)
    with r in_db show ?thesis by (auto simp: event_row_def row_pub_def)
  qed
  with assms Inr show ?thesis by (auto simp: pub_inv_def n_claim_def)
qed (use assms in \<open>simp add: n_claim_def\<close>)

text \<open>One more attempt to publish a row, counted by one of the two histories.\<close>

lemma publish_ids:
  assumes "event_row db e" and "set ids \<subseteq> so_id ` set (sd_outbox db)" and "map Some pub = map (row_pub db) ids"
    and "\<forall>n. count_list ids n \<le> f n"
  shows "\<exists>ids'. set ids' \<subseteq> so_id ` set (sd_outbox db) \<and>
    map Some (n_Broadcast published (oe_RoomID e) (oe_Message e) pub) = map (row_pub db) ids' \<and>
    (\<forall>n. count_list ids' n \<le> f n + (if published \<and> n = oe_ID e then 1 else 0))"
proof (cases "published \<and> marshal_chat (oe_Message e) \<noteq> None")
  case True
  with assms show ?thesis
    by (intro exI [of _ "ids @ [oe_ID e]"]) (auto simp: n_Broadcast_def event_row_def count_list_append)
next
  case False
  with assms show ?thesis
    by (intro exI [of _ ids]) (auto simp: n_Broadcast_def trans_le_add1 split: option.split)
qed

lemma pub_invE:
  assumes "pub_inv w"
  obtains ids where "set ids \<subseteq> so_id ` set (sd_outbox (nw_db w))" "map Some (nw_pub w) = map (row_pub (nw_db w)) ids"
    "\<forall>n. count_list ids n \<le> count_list (nw_sent w) n + count_list (nw_retried w) n"
  using assms unfolding pub_inv_def by blast

lemma pub_invI:
  assumes "distinct (map so_id (sd_outbox (nw_db w)))" "\<And>i e. e \<in> set (tx_events (nw_tx w i)) \<Longrightarrow> event_row (nw_db w) e"
    "set (nw_sent w) \<subseteq> so_id ` set (sd_outbox (nw_db w))" "set ids \<subseteq> so_id ` set (sd_outbox (nw_db w))"
    "map Some (nw_pub w) = map (row_pub (nw_db w)) ids" "\<And>n. count_list ids n \<le> count_list (nw_sent w) n + count_list (nw_retried w) n"
  shows "pub_inv w"
  using assms unfolding pub_inv_def by blast

lemma pub_invD:
  assumes "pub_inv w"
  shows "distinct (map so_id (sd_outbox (nw_db w)))" "e \<in> set (tx_events (nw_tx w i)) \<Longrightarrow> event_row (nw_db w) e"
    "set (nw_sent w) \<subseteq> so_id ` set (sd_outbox (nw_db w))"
  using assms unfolding pub_inv_def by blast+

lemma pub_inv_hand:
  assumes "pub_inv w" "nw_tx w i = NClaimed hs (e # rest)"
  shows "pub_inv (n_hand i published hs e rest w)"
proof -
  have evs: "event_row (nw_db w) e'" if "e' \<in> set (hs @ e # rest)" for e'
    using pub_invD(2) [OF assms(1), of e' i] assms(2) that by simp
  then have e: "event_row (nw_db w) e" by simp
  obtain ids where ids: "set ids \<subseteq> so_id ` set (sd_outbox (nw_db w))" "map Some (nw_pub w) = map (row_pub (nw_db w)) ids"
    "\<forall>n. count_list ids n \<le> count_list (nw_sent w) n + count_list (nw_retried w) n"
    using assms(1) by (rule pub_invE)
  from publish_ids [OF e ids, of published] obtain ids' where ids': "set ids' \<subseteq> so_id ` set (sd_outbox (nw_db w))"
    "map Some (n_Broadcast published (oe_RoomID e) (oe_Message e) (nw_pub w)) = map (row_pub (nw_db w)) ids'"
    and c: "\<forall>n. count_list ids' n \<le> count_list (nw_sent w) n + count_list (nw_retried w) n + (if published \<and> n = oe_ID e then 1 else 0)"
    by blast
  have "count_list ids' n \<le> count_list (nw_sent w @ [oe_ID e]) n + count_list (nw_retried w) n" for n
    using c [rule_format, of n] by (auto simp: count_list_append split: if_splits)
  moreover have "event_row (nw_db w) e'" if "e' \<in> set (tx_events (nw_tx (n_hand i published hs e rest w) j))" for j e'
    using that evs [of e'] pub_invD(2) [OF assms(1), of e' j] by (cases "j = i") (auto simp: n_hand_def)
  moreover have "set (nw_sent w @ [oe_ID e]) \<subseteq> so_id ` set (sd_outbox (nw_db w))"
    using pub_invD(3) [OF assms(1)] e by (simp add: event_row_def)
  ultimately show ?thesis using pub_invD(1) [OF assms(1)] ids'
    by (intro pub_invI [of _ ids']) (simp_all add: n_hand_def)
qed

lemma pub_inv_retry:
  assumes "pub_inv w" "nw_tx w i = NClaimed (hs @ [e]) rest"
  shows "pub_inv (n_retry i published e w)"
proof -
  have e: "event_row (nw_db w) e" using pub_invD(2) [OF assms(1), of e i] assms(2) by simp
  obtain ids where ids: "set ids \<subseteq> so_id ` set (sd_outbox (nw_db w))" "map Some (nw_pub w) = map (row_pub (nw_db w)) ids"
    "\<forall>n. count_list ids n \<le> count_list (nw_sent w) n + count_list (nw_retried w) n"
    using assms(1) by (rule pub_invE)
  from publish_ids [OF e ids, of published] obtain ids' where ids': "set ids' \<subseteq> so_id ` set (sd_outbox (nw_db w))"
    "map Some (n_Broadcast published (oe_RoomID e) (oe_Message e) (nw_pub w)) = map (row_pub (nw_db w)) ids'"
    and c: "\<forall>n. count_list ids' n \<le> count_list (nw_sent w) n + count_list (nw_retried w) n + (if published \<and> n = oe_ID e then 1 else 0)"
    by blast
  have "count_list ids' n \<le> count_list (nw_sent w) n + count_list (if published then nw_retried w @ [oe_ID e] else nw_retried w) n" for n
    using c [rule_format, of n] by (auto simp: count_list_append split: if_splits)
  then show ?thesis using pub_invD [OF assms(1)] ids' by (intro pub_invI [of _ ids']) (simp_all add: n_retry_def)
qed

lemma pub_inv_stored:
  assumes "pub_inv w" "so_id r \<notin> so_id ` set (sd_outbox (nw_db w))"
  shows "pub_inv (w\<lparr>nw_db := (nw_db w)\<lparr>sd_outbox := sd_outbox (nw_db w) @ [r]\<rparr>\<rparr>)"
proof -
  let ?db = "(nw_db w)\<lparr>sd_outbox := sd_outbox (nw_db w) @ [r]\<rparr>"
  have ev: "event_row (nw_db w) e \<Longrightarrow> event_row ?db e" for e by (auto simp: event_row_def row_pub_stored)
  obtain ids where ids: "set ids \<subseteq> so_id ` set (sd_outbox (nw_db w))" "map Some (nw_pub w) = map (row_pub (nw_db w)) ids"
    "\<forall>n. count_list ids n \<le> count_list (nw_sent w) n + count_list (nw_retried w) n"
    using assms(1) by (rule pub_invE)
  have "map (row_pub ?db) ids = map (row_pub (nw_db w)) ids" using ids(1) by (auto simp: row_pub_stored)
  then have "map Some (nw_pub w) = map (row_pub ?db) ids" using ids(2) by simp
  moreover have "set ids \<subseteq> so_id ` set (sd_outbox ?db)" "set (nw_sent w) \<subseteq> so_id ` set (sd_outbox ?db)"
    using ids(1) pub_invD(3) [OF assms(1)] by auto
  ultimately show ?thesis
    using ids(3) pub_invD(1) [OF assms(1)] assms(2) ev pub_invD(2) [OF assms(1)] by (intro pub_invI [of _ ids]) simp_all
qed

lemma pub_inv_steps:
  assumes "(n_step retries)\<^sup>*\<^sup>* (n_start db) w" "distinct (map so_id (sd_outbox db))"
  shows "pub_inv w"
  using assms(1)
proof (induction rule: rtranclp_induct)
  case base
  show ?case using assms(2) by (auto simp: pub_inv_def n_start_def)
next
  case (step w w')
  from step.hyps(2) step.IH show ?case
  proof (induction rule: n_step.induct)
    case (n_committed w i hs)
    then show ?case by (auto simp: pub_inv_def n_commit_def mark_distinct)
  next
    case (n_aborted w i hs rest)
    then show ?case by (auto simp: pub_inv_def n_abort_def)
  qed (auto intro: pub_inv_claim pub_inv_hand pub_inv_retry pub_inv_stored)
qed

text \<open>Each hand-over is followed by at most \<open>retries\<close> retries.\<close>

definition retry_inv :: "nat \<Rightarrow> n_world \<Rightarrow> bool" where
  "retry_inv retries w \<longleftrightarrow> (\<forall>n. count_list (nw_retried w) n \<le> retries * count_list (nw_sent w) n) \<and>
     (\<forall>i hs e rest. nw_tx w i = NClaimed (hs @ [e]) rest \<longrightarrow>
        count_list (nw_retried w) (oe_ID e) + retries \<le> retries * count_list (nw_sent w) (oe_ID e) + nw_tries w i)"

lemma retry_inv_step:
  assumes "n_step retries w w'" and "n_inv D w" and "retry_inv retries w"
  shows "retry_inv retries w'"
  using assms
proof (induction rule: n_step.induct)
  case (n_claimed w i)
  then show ?case by (auto simp: retry_inv_def n_claim_def split: sum.split)
next
  case (n_handed w i hs e rest published)
  have "retries * count_list (nw_sent w) n \<le> retries * count_list (nw_sent w @ [oe_ID e]) n" for n
    by (simp add: count_list_append)
  moreover have "count_list (nw_retried w) (oe_ID e) + retries \<le> retries * count_list (nw_sent w @ [oe_ID e]) (oe_ID e)"
    using n_handed(3) by (simp add: retry_inv_def count_list_append)
  ultimately show ?case
    using n_handed(3) unfolding retry_inv_def n_hand_def
    by (auto split: if_splits intro: order_trans)
next
  case (n_tried_again w i hs e rest published)
  let ?n = "oe_ID e"
  have own: "oe_ID e' \<noteq> ?n" if "j \<noteq> i" "nw_tx w j = NClaimed (hs' @ [e']) rest'" for j hs' e' rest'
    using own_locks(1) [OF n_tried_again(3), of ?n i j] n_tried_again(1) that by auto
  have le: "count_list (nw_retried w) ?n + retries \<le> retries * count_list (nw_sent w) ?n + nw_tries w i"
    using n_tried_again(1,4) by (simp add: retry_inv_def)
  show ?case unfolding retry_inv_def
  proof (intro conjI allI impI)
    fix n
    show "count_list (nw_retried (n_retry i published e w)) n \<le> retries * count_list (nw_sent (n_retry i published e w)) n"
      using n_tried_again(2,4) le by (cases "n = ?n") (auto simp: retry_inv_def n_retry_def count_list_append)
  next
    fix j hs' e' rest'
    assume j: "nw_tx (n_retry i published e w) j = NClaimed (hs' @ [e']) rest'"
    then have j': "nw_tx w j = NClaimed (hs' @ [e']) rest'" by (simp add: n_retry_def)
    have old: "count_list (nw_retried w) (oe_ID e') + retries \<le> retries * count_list (nw_sent w) (oe_ID e') + nw_tries w j"
      using n_tried_again(4) j' by (simp add: retry_inv_def)
    show "count_list (nw_retried (n_retry i published e w)) (oe_ID e') + retries
        \<le> retries * count_list (nw_sent (n_retry i published e w)) (oe_ID e') + nw_tries (n_retry i published e w) j"
      using old le own [OF _ j'] j' n_tried_again(1)
      by (cases "j = i") (auto simp: n_retry_def count_list_append)
  qed
next
  case (n_committed w i hs)
  then show ?case by (auto simp: retry_inv_def n_commit_def)
next
  case (n_aborted w i hs rest)
  then show ?case by (auto simp: retry_inv_def n_abort_def)
qed (auto simp: retry_inv_def)

lemma retry_inv_steps:
  assumes "(n_step retries)\<^sup>*\<^sup>* (n_start db) w" "distinct (map so_id (sd_outbox db))"
  shows "retry_inv retries w"
  using assms(1)
proof (induction rule: rtranclp_induct)
  case base
  show ?case by (simp add: retry_inv_def n_start_def)
next
  case (step w w')
  then show ?case using retry_inv_step n_steps_inv [OF step.hyps(1) assms(2)] by blast
qed

subsection \<open>No duplicates\<close>

text \<open>Every row holds a message that is read back from its text, and no two rows hold the same message.\<close>

definition rows_ok :: "s_db \<Rightarrow> bool" where
  "rows_ok db \<longleftrightarrow>
     list_all (\<lambda>r. case unmarshal_chat (so_payload r) of None \<Rightarrow> False
        | Some m \<Rightarrow> (case marshal_chat m of None \<Rightarrow> False | Some t \<Rightarrow> unmarshal_chat t = Some m)) (sd_outbox db) \<and>
     distinct (map (\<lambda>r. map_option sm_ID (unmarshal_chat (so_payload r))) (sd_outbox db))"

lemma row_pub_inj:
  assumes "rows_ok db" "distinct (map so_id (sd_outbox db))" "row_pub db a = Some x" "row_pub db b = Some x"
  shows "a = b"
proof -
  have row: "\<exists>r m. r \<in> set (sd_outbox db) \<and> so_id r = n \<and> unmarshal_chat (so_payload r) = Some m \<and> unmarshal_chat (snd x) = Some m"
    if rp: "row_pub db n = Some x" for n
  proof -
    obtain r where f: "find (\<lambda>r. so_id r = n) (sd_outbox db) = Some r"
      using rp by (cases "find (\<lambda>r. so_id r = n) (sd_outbox db)") (auto simp: row_pub_def)
    then have r: "r \<in> set (sd_outbox db)" "so_id r = n" by (auto simp: find_Some_iff)
    have "Option.bind (unmarshal_chat (so_payload r)) (\<lambda>m. map_option (Pair (roomChannel (so_room_id r))) (marshal_chat m)) = Some x"
      using rp f by (simp add: row_pub_def)
    then obtain m where m: "unmarshal_chat (so_payload r) = Some m" and mt: "map_option (Pair (roomChannel (so_room_id r))) (marshal_chat m) = Some x"
      by (cases "unmarshal_chat (so_payload r)") simp_all
    then obtain t where t: "marshal_chat m = Some t" "x = (roomChannel (so_room_id r), t)" by (cases "marshal_chat m") simp_all
    have "unmarshal_chat t = Some m" using assms(1) r(1) m t(1) by (fastforce simp: rows_ok_def list_all_iff)
    with r m t(2) show ?thesis by (intro exI [of _ r] exI [of _ m]) simp
  qed
  obtain r q m where rq: "r \<in> set (sd_outbox db)" "q \<in> set (sd_outbox db)" "so_id r = a" "so_id q = b"
    "unmarshal_chat (so_payload r) = Some m" "unmarshal_chat (so_payload q) = Some m"
    using row [OF assms(3)] row [OF assms(4)] by (metis option.inject)
  have "inj_on (\<lambda>r. map_option sm_ID (unmarshal_chat (so_payload r))) (set (sd_outbox db))"
    using assms(1) by (simp add: rows_ok_def distinct_map)
  then have "r = q" by (rule inj_onD) (use rq in simp_all)
  with rq show ?thesis by simp
qed

lemma count_list_map_inj: "\<lbrakk>a \<in> set xs; \<forall>b \<in> set xs. f b = f a \<longrightarrow> b = a\<rbrakk> \<Longrightarrow> count_list (map f xs) (f a) = count_list xs a"
proof (induction xs)
  case (Cons x xs)
  show ?case
  proof (cases "a \<in> set xs")
    case False
    then have "f a \<notin> f ` set xs" using Cons.prems by auto
    with False Cons.prems show ?thesis by (auto simp: count_list_0_iff)
  qed (use Cons in auto)
qed simp

text \<open>A text is published as often as its row was.\<close>

lemma count_publications:
  assumes "pub_inv w" "rows_ok (nw_db w)" "\<forall>n. count_list (nw_sent w) n + count_list (nw_retried w) n \<le> k"
  shows "count_list (nw_pub w) x \<le> k"
proof (cases "x \<in> set (nw_pub w)")
  case True
  obtain ids where ids: "map Some (nw_pub w) = map (row_pub (nw_db w)) ids"
    "\<forall>n. count_list ids n \<le> count_list (nw_sent w) n + count_list (nw_retried w) n"
    using assms(1) by (rule pub_invE) blast
  have "Some x \<in> row_pub (nw_db w) ` set ids" using True arg_cong [OF ids(1), of set] by auto
  then obtain a where a: "a \<in> set ids" "row_pub (nw_db w) a = Some x" by auto
  have "distinct (map so_id (sd_outbox (nw_db w)))" using assms(1) by (simp add: pub_inv_def)
  then have inj: "\<forall>b \<in> set ids. row_pub (nw_db w) b = row_pub (nw_db w) a \<longrightarrow> b = a"
    using row_pub_inj [OF assms(2)] a(2) by metis
  have "count_list (nw_pub w) x = count_list (map Some (nw_pub w)) (Some x)"
    using True by (intro count_list_map_inj [symmetric]) auto
  also have "\<dots> = count_list (map (row_pub (nw_db w)) ids) (row_pub (nw_db w) a)" by (simp add: ids(1) a(2))
  also have "\<dots> = count_list ids a" by (rule count_list_map_inj [OF a(1) inj])
  finally show ?thesis using ids(2) assms(3) by (metis order_trans)
qed (simp add: count_list_0_iff)

lemma count_room: "count_list (map snd (filter (\<lambda>e. fst e = r) xs)) t = count_list xs (r, t)"
  by (induction xs) auto

lemma count_subseq: "subseq xs ys \<Longrightarrow> count_list xs t \<le> count_list ys t"
  by (induction rule: list_emb.induct) auto

text \<open>C39: the relays of all instances publish the outbox, no transaction ends without its commit, every row holds a
  message that is read back from its text and no two rows hold the same one. Then, whatever the interleaving of
  relays and hubs, no client of any instance is handed a message more often than its publication was tried: at most
  \<open>retries + 1\<close> times (four times with the default of the Redis client), and at most once when no
  retry reached Redis.\<close>

theorem naive_no_duplicates:
  assumes relays: "(n_step retries)\<^sup>*\<^sup>* (n_start db) w" "nw_failed w = []" and rows: "distinct (map so_id (sd_outbox db))" "rows_ok (nw_db w)"
    and hubs: "net_step\<^sup>*\<^sup>* net_start s" "nn_pub s = nw_pub w" and "h = ni_hub (nn_inst s i)" "joined h c"
  shows "(\<forall>t. count_list (sx_written h c @ sx_lost h c @ sh_send (sx_hub h) c @ unsent h c) t \<le> retries + 1) \<and>
    (nw_retried w = [] \<longrightarrow> distinct (sx_written h c @ sx_lost h c @ sh_send (sx_hub h) c @ unsent h c))"
proof -
  let ?texts = "sx_written h c @ sx_lost h c @ sh_send (sx_hub h) c @ unsent h c"
  have inv: "n_inv (marked db) w" by (rule n_steps_inv [OF relays(1) rows(1)])
  have sent: "count_list (nw_sent w) n \<le> 1" for n
    using n_invD(6) [OF inv, of n] flight_not_marked [OF inv, of n] relays(2) by auto
  have "count_list (nw_retried w) n \<le> retries * count_list (nw_sent w) n" for n
    using retry_inv_steps [OF relays(1) rows(1)] by (simp add: retry_inv_def)
  then have retried: "count_list (nw_retried w) n \<le> retries" for n
    using sent [of n] by (metis mult.right_neutral mult_le_mono2 order_trans)
  note pub = count_publications [OF pub_inv_steps [OF relays(1) rows(1)] rows(2)]
  have sub: "count_list ?texts t \<le> count_list (nw_pub w) (roomChannel (sx_room h c), t)" for t
    using count_subseq [OF handed_published [OF hubs(1) assms(7,8)], of t] by (simp add: count_room hubs(2))
  have "\<forall>n. count_list (nw_sent w) n + count_list (nw_retried w) n \<le> retries + 1" using sent retried by (metis add.commute add_le_mono)
  from pub [OF this] sub have "count_list ?texts t \<le> retries + 1" for t by (metis order_trans)
  moreover have "distinct ?texts" if "nw_retried w = []"
    using pub [of 1] sent sub that by (intro distinct_count_list) (metis add.right_neutral count_list.simps(1) order_trans)
  ultimately show ?thesis by blast
qed

text \<open>One relay publishes one row; a retry of the publication does not reach Redis; a client on another instance gets it.\<close>

theorem naive_no_duplicates_witness:
  "\<exists>db w s p. (n_step 3)\<^sup>*\<^sup>* (n_start db) w \<and> net_step\<^sup>*\<^sup>* net_start s \<and> nn_pub s = nw_pub w \<and> nw_pub w = [(roomChannel ''r1'', p)] \<and>
     joined (ni_hub (nn_inst s 1)) 0 \<and> unsent (ni_hub (nn_inst s 1)) 0 = [p] \<and>
     distinct (sx_written (ni_hub (nn_inst s 1)) 0 @ sx_lost (ni_hub (nn_inst s 1)) 0 @ sh_send (sx_hub (ni_hub (nn_inst s 1))) 0 @ [p])"
proof -
  obtain p where p: "marshal_chat (sample_chat 1) = Some p" "unmarshal_chat p = Some (sample_chat 1)"
    using sample_chat_back [of 1] by (auto simp: in_int64_def)
  let ?db = "sample_sdb\<lparr>sd_outbox := [sample_outbox_row 1 p]\<rparr>"
  let ?e = "\<lparr>oe_ID = 1, oe_RoomID = ''r1'', oe_Message = sample_chat 1\<rparr>"
  let ?a = "n_claim 0 (n_start ?db)"
  let ?b = "n_hand 0 True [] ?e [] ?a"
  let ?w = "n_retry 0 False ?e ?b"
  have "n_step 3 (n_start ?db) ?a" by (rule n_claimed) (simp add: n_start_def)
  moreover have "n_step 3 ?a ?b" by (rule n_handed) (simp add: single_claim [OF p(2)])
  moreover have "n_step 3 ?b ?w" by (rule n_tried_again [of _ _ "[]"]) (simp_all add: n_hand_def)
  ultimately have run: "(n_step 3)\<^sup>*\<^sup>* (n_start ?db) ?w" by (meson rtranclp.rtrancl_into_rtrancl rtranclp.rtrancl_refl)
  have w: "nw_failed ?w = []" "nw_pub ?w = [(roomChannel ''r1'', p)]" "nw_db ?w = ?db" "nw_retried ?w = []"
    unfolding n_retry_def n_hand_def single_claim [OF p(2)] using p(1) by (simp_all add: n_start_def n_Broadcast_def)
  have ok: "distinct (map so_id (sd_outbox ?db))" "rows_ok (nw_db ?w)"
    unfolding w(3) using p by (simp_all add: rows_ok_def sample_outbox_row_def)
  obtain s where s: "net_step\<^sup>*\<^sup>* net_start s" "nn_inst s 1 = relayed p" "nn_pub s = [(roomChannel ''r1'', p)]"
    using relayed_reachable [OF p(1)] by blast
  have pub: "nn_pub s = nw_pub ?w" using s(3) w(2) by simp
  have j: "joined (ni_hub (nn_inst s 1)) 0" "unsent (ni_hub (nn_inst s 1)) 0 = [p]" unfolding s(2) by (rule relayed_state)+
  from naive_no_duplicates [OF run w(1) ok s(1) pub refl j(1)] run s(1) pub w(2,4) j show ?thesis
    by (intro exI [of _ ?db] exI [of _ ?w] exI [of _ s] exI [of _ p]) (simp only: simp_thms j(2))
qed

end
