(* ===== verification/Ws_Frames.thy ===== *)
theory Ws_Frames
  imports Ws_Props
begin

text \<open>
  The types of the wire: whatever an instance puts into a buffer or writes to a socket is the text of a valid
  frame of the contract, an acceptance, a rejection or an event.
\<close>

definition frame_valid :: "frame \<Rightarrow> bool" where
  "frame_valid f \<longleftrightarrow> (case f of Accepted a \<Rightarrow> AcceptedAck_Validate a = None | Rejected r \<Rightarrow> RejectedAck_Validate r = None)"

definition server_text :: "bytes \<Rightarrow> bool" where
  "server_text t \<longleftrightarrow> (\<exists>f. frame_valid f \<and> marshal_frame f = Some t) \<or> (\<exists>e. Event_Validate e = None \<and> marshal_Event e = Some t)"

definition hub_typed :: "hub \<Rightarrow> bool" where
  "hub_typed h \<longleftrightarrow> (\<forall>p. \<forall>t \<in> set (hub_send h p). server_text t)"

definition inst_typed :: "inst \<Rightarrow> bool" where
  "inst_typed s \<longleftrightarrow> hub_typed (in_hub s) \<and> (\<forall>p. \<forall>t \<in> set (in_wire s p). server_text t) \<and>
     (\<forall>body cs. in_pending s = Some (body, cs) \<longrightarrow> server_text body)"

lemma server_frame: "\<lbrakk>frame_valid f; marshal_frame f = Some t\<rbrakk> \<Longrightarrow> server_text t"
  unfolding server_text_def by blast

lemma server_event: "\<lbrakk>Event_Validate e = None; marshal_Event e = Some t\<rbrakk> \<Longrightarrow> server_text t"
  unfolding server_text_def by blast

lemma answer_valid: "answer api data c w = (f, w1) \<Longrightarrow> frame_valid f"
  by (auto simp: answer_def frame_valid_def rejection_valid split: option.splits prod.splits sum.splits if_splits)

lemma enqueue_typed: "\<lbrakk>enqueue stopped client f h = (e, h'); frame_valid f; hub_typed h\<rbrakk> \<Longrightarrow> hub_typed h'"
  by (auto simp: enqueue_def hub_typed_def split: option.splits if_splits intro: server_frame)

lemma handleMessage_typed:
  assumes "handleMessage api stopped data c client h w = (e, h', w')" "hub_typed h"
  shows "hub_typed h'"
proof -
  obtain f w1 where a: "answer api data c w = (f, w1)" by fastforce
  with assms(1) have "enqueue stopped client f h = (e, h')" by (auto simp: handleMessage_answer split: prod.splits)
  then show ?thesis using answer_valid [OF a] assms(2) by (rule enqueue_typed)
qed

lemma pump_typed:
  assumes "pump_step written p h = (out, go_on, h')" "hub_typed h"
  shows "hub_typed h' \<and> (\<forall>t \<in> set out. server_text t)"
proof (cases "hub_send h p")
  case Nil
  with assms show ?thesis by (simp add: pump_step_def)
next
  case (Cons m ms)
  have "\<forall>t \<in> set (m # ms). server_text t" using assms(2) unfolding hub_typed_def by (metis Cons)
  with assms Cons show ?thesis by (auto simp: pump_step_def hub_typed_def split: if_splits)
qed

lemma hub_typed_send: "hub_send h' = hub_send h \<Longrightarrow> hub_typed h' = hub_typed h"
  by (simp add: hub_typed_def)

lemma inst_step_typed: "\<lbrakk>inst_step dial s s'; inst_typed s\<rbrakk> \<Longrightarrow> inst_typed s'"
proof (induction rule: inst_step.induct)
  case (Opened s q c rs p env upgraded st1 h)
  have "hub_send h = hub_send (in_hub s)" using Opened(5) configureConnection_hub [OF Opened(4)] by (auto simp: Register_def)
  from hub_typed_send [OF this] Opened show ?case by (simp add: inst_typed_def)
next
  case (Refused q c rs s p env upgraded e st1)
  then show ?case using configureConnection_hub [OF Refused(3)] by (simp add: inst_typed_def)
next
  case (FrameRead p s c env stopped data e h w)
  have "hub_typed h" using handleMessage_typed [OF FrameRead(3)] FrameRead(5) by (simp add: inst_typed_def)
  with FrameRead(5) show ?case by (simp add: inst_typed_def with_world_def with_hub_def)
next
  case (Received s payload event body cs)
  then have "server_text body" by (intro server_event)
  with Received show ?case by (simp add: inst_typed_def)
next
  case (Sent s body cs i p)
  then have "server_text body" by (simp add: inst_typed_def)
  with Sent show ?case by (auto simp: inst_typed_def with_hub_def append_send_def hub_typed_def)
next
  case (Pumped s p c written out go_on h)
  have "hub_typed h \<and> (\<forall>t \<in> set out. server_text t)" using pump_typed [OF Pumped(3)] Pumped(4) by (simp add: inst_typed_def)
  with Pumped(4) show ?case by (auto simp: inst_typed_def)
next
  case (Pinged p s c env written)
  then show ?case by (simp add: inst_typed_def ping_once_hub del: runPing.simps)
next
  case (Closed s p c env)
  have "hub_send (snd (Unregister c (in_hub s))) = hub_send (in_hub s)" by (simp add: Unregister_def)
  from hub_typed_send [OF this] Closed show ?case by (simp add: inst_typed_def disconnect_hub)
qed (auto simp: inst_typed_def with_world_def)

lemma inst_reachable_typed: "inst_reachable dial w0 s \<Longrightarrow> inst_typed s"
proof (induction rule: inst_reachable.induct)
  case Start
  then show ?case by (simp add: inst_typed_def hub_typed_def NewHub_def)
qed (rule inst_step_typed)

text \<open>C40: in every reachable state of an instance, each text written to a connection or waiting in its buffer is the
  JSON text of a frame or event that passes its validator of the contract.\<close>

theorem wire_frames_typed:
  assumes "inst_reachable dial w0 s" and "t \<in> set (in_wire s p) \<union> set (hub_send (in_hub s) p)"
  shows "(\<exists>a. AcceptedAck_Validate a = None \<and> marshal_AcceptedAck a = Some t) \<or>
    (\<exists>r. RejectedAck_Validate r = None \<and> marshal_RejectedAck r = Some t) \<or>
    (\<exists>e. Event_Validate e = None \<and> marshal_Event e = Some t)"
proof -
  have typed: "hub_typed (in_hub s)" "\<forall>t \<in> set (in_wire s p). server_text t"
    using inst_reachable_typed [OF assms(1)] by (simp_all add: inst_typed_def)
  have "server_text t" using assms(2) typed unfolding hub_typed_def by blast
  then show ?thesis unfolding server_text_def
  proof (elim disjE exE conjE)
    fix f
    assume "frame_valid f" "marshal_frame f = Some t"
    then show ?thesis by (cases f) (simp_all add: frame_valid_def, blast+)
  next
    fix e
    assume "Event_Validate e = None" "marshal_Event e = Some t"
    then show ?thesis by blast
  qed
qed

text \<open>The answer to a frame that is no request.\<close>

theorem wire_frames_typed_witness:
  "\<exists>s t. inst_reachable ''ws1'' sample_ms s \<and> hub_send (in_hub s) 1 = [t] \<and>
    ((\<exists>a. AcceptedAck_Validate a = None \<and> marshal_AcceptedAck a = Some t) \<or>
     (\<exists>r. RejectedAck_Validate r = None \<and> marshal_RejectedAck r = Some t) \<or>
     (\<exists>e. Event_Validate e = None \<and> marshal_Event e = Some t))"
proof -
  obtain s0 where "filled 0 False s0" using filled_open by blast
  then obtain s where s: "filled (Suc 0) False s" using filled_frame [of 0 False s0] by (auto simp: sendCap_def)
  then obtain t where t: "hub_send (in_hub s) 1 = [t]" by (auto simp: filled_def length_Suc_conv)
  have r: "inst_reachable ''ws1'' sample_ms s" using s by (simp add: filled_def)
  have "t \<in> set (in_wire s 1) \<union> set (hub_send (in_hub s) 1)" unfolding t by simp
  from wire_frames_typed [OF r this] show ?thesis by (intro exI [of _ s] exI [of _ t] conjI r t)
qed

end
