(* ===== verification/Startup.thy ===== *)
theory Startup
  imports Relay_Config Redis_Consumer Ws_Handler Delivery Migrations "HOL-Library.State_Monad"
begin

text \<open>
  The constructors and \<^verbatim>\<open>main\<close> functions of the services: which resources they open, in which order, which
  error ends the start, which goroutines they start, and what their \<^verbatim>\<open>defer\<close> statements close. The state is the
  list of these actions; \<open>ok\<close> says which calls of the client packages work. \<open>Open\<close> says that the value whose
  \<^verbatim>\<open>Close\<close> is deferred has been created: the clients of gRPC and Redis connect later, when they are used.
\<close>

subsection \<open>Actions\<close>

datatype resource = Signals | PgPool | KafkaClient | PresenceConn | RedisConn | MigrationDB | ShutdownTimer

record publisher =
  pb_prefix :: string
  pb_timeout :: int

record kafka_config =
  kg_Brokers :: "string list"
  kg_GroupID :: string
  kg_Topics :: "string list"

text \<open>The main work of a service, with what it was configured to.\<close>

datatype work =
    RelayLoop "string list" relay_config
  | DeliveryLoop kafka_config publisher
  | ChatServer string

text \<open>
  The goroutines of a message service instance: \<^verbatim>\<open>runRedisConsumer\<close> (\<^const>\<open>runRedisConsumer\<close> of runs of \<^const>\<open>redis_Run\<close>)
  for a channel and a buffer size, the HTTP server on an address with the name given to the presence service,
  and the shutdown of the server, with its time limit, once the context is done. They run concurrently.
\<close>

datatype goroutine = GoConsumer string int | GoServer string string | GoShutdown int

datatype action = Open resource | Close resource | Work work | Go goroutine

type_synonym 'a startup = "(action list, 'a) state"

definition emit :: "action \<Rightarrow> unit startup" where
  "emit a = State_Monad.update (\<lambda>acts. acts @ [a])"

text \<open>\<^verbatim>\<open>defer r.Close()\<close> in front of the rest of a function.\<close>

definition deferred :: "resource \<Rightarrow> 'a startup \<Rightarrow> 'a startup" where
  "deferred r body = do { x \<leftarrow> body; _ \<leftarrow> emit (Close r); State_Monad.return x }"

datatype call =
    NewPgPool | PingPg | NewKafkaProducer | NewKafkaGroup | DialPresence | PingRedis | ListenAndServe | ServerShutdown
  | OpenMigrationDB | SetDialect | GooseUp

datatype start_error =
    LoadConfig config_error | PoolURLRequired | PoolFailed | PoolPingFailed | ProducerBrokersRequired | ProducerFailed
  | RelayRefused | PresenceDialFailed | RedisPingFailed | PublisherRequired | PresenceClientRequired | GroupFailed
  | MigrationsFailed mig_error | StorePoolRequired | StoreRequired | ConsumerRefused consumer_error | WsRefused ws_error
  | ServerFailed | ShutdownFailed | MigrationDBFailed | DialectFailed | GooseFailed

subsection \<open>Outbox relay\<close>

text \<open>\<^verbatim>\<open>pgxpool.New\<close> and the ping behind it, as three of the services do it.\<close>

definition open_pool :: "(call \<Rightarrow> bool) \<Rightarrow> (start_error + unit) startup" where
  "open_pool ok =
     (if \<not> ok NewPgPool then State_Monad.return (Inl PoolFailed)
      else do {
        _ \<leftarrow> emit (Open PgPool);
        if \<not> ok PingPg then do { _ \<leftarrow> emit (Close PgPool); State_Monad.return (Inl PoolPingFailed) }
        else State_Monad.return (Inr ()) })"

definition repository_New :: "(call \<Rightarrow> bool) \<Rightarrow> string \<Rightarrow> (start_error + unit) startup" where
  "repository_New ok databaseURL = (if databaseURL = [] then State_Monad.return (Inl PoolURLRequired) else open_pool ok)"

definition NewProducer :: "(call \<Rightarrow> bool) \<Rightarrow> string list \<Rightarrow> (start_error + unit) startup" where
  "NewProducer ok brokers =
     (if length brokers = 0 then State_Monad.return (Inl ProducerBrokersRequired)
      else if \<not> ok NewKafkaProducer then State_Monad.return (Inl ProducerFailed)
      else do { _ \<leftarrow> emit (Open KafkaClient); State_Monad.return (Inr ()) })"

definition relay_run :: "(nat \<Rightarrow> nat \<Rightarrow> nat \<Rightarrow> nat) \<Rightarrow> env_vars \<Rightarrow> (call \<Rightarrow> bool) \<Rightarrow> start_error option startup" where
  "relay_run frac env ok = do {
     _ \<leftarrow> emit (Open Signals);
     deferred Signals
       (case Load frac env of
          Inl e \<Rightarrow> State_Monad.return (Some (LoadConfig e))
        | Inr cfg \<Rightarrow> do {
            repository \<leftarrow> repository_New ok (lc_DatabaseURL cfg);
            case repository of
              Inl e \<Rightarrow> State_Monad.return (Some e)
            | Inr _ \<Rightarrow> deferred PgPool (do {
                producer \<leftarrow> NewProducer ok (lc_KafkaBrokers cfg);
                case producer of
                  Inl e \<Rightarrow> State_Monad.return (Some e)
                | Inr _ \<Rightarrow> deferred KafkaClient
                    (case relay_New (relay_config_of cfg) of
                       None \<Rightarrow> State_Monad.return (Some RelayRefused)
                     | Some worker \<Rightarrow> do {
                         _ \<leftarrow> emit (Work (RelayLoop (lc_KafkaBrokers cfg) worker));
                         State_Monad.return None }) }) }) }"

subsection \<open>Delivery service\<close>

definition ds_GetEnv :: "env_vars \<Rightarrow> string \<Rightarrow> string \<Rightarrow> string" where
  "ds_GetEnv env key fallback = (case env key of Some v \<Rightarrow> v | None \<Rightarrow> fallback)"

definition GetGrpcConfig :: "env_vars \<Rightarrow> string" where
  "GetGrpcConfig env = ds_GetEnv env ''PresenceService'' ''presence_service:9090''"

definition GetKafkaMessageConfig :: "env_vars \<Rightarrow> kafka_config" where
  "GetKafkaMessageConfig env =
     \<lparr>kg_Brokers = SplitEnv env ''KAFKA_BROKERS'' ''localhost:29092'', kg_GroupID = common_GetEnv env ''KAFKA_GROUP_ID'' ''delivery'',
      kg_Topics = SplitEnv env ''KAFKA_TOPICS'' ''messages''\<rparr>"

record redis_config =
  rd_Addr :: string
  rd_Username :: string
  rd_Password :: string
  rd_DB :: int
  rd_ChannelPrefix :: string
  rd_PublishTimeout :: int

definition GetRedisConfig :: "env_vars \<Rightarrow> redis_config" where
  "GetRedisConfig env =
     \<lparr>rd_Addr = Getenv env ''REDIS_ADDR'', rd_Username = [], rd_Password = [], rd_DB = 0, rd_ChannelPrefix = ''instance:'', rd_PublishTimeout = 0\<rparr>"

definition NewMessagePublisher :: "(call \<Rightarrow> bool) \<Rightarrow> redis_config \<Rightarrow> (start_error + publisher) startup" where
  "NewMessagePublisher ok c = do {
     _ \<leftarrow> emit (Open RedisConn);
     if \<not> ok PingRedis then do { _ \<leftarrow> emit (Close RedisConn); State_Monad.return (Inl RedisPingFailed) }
     else let timeout = rd_PublishTimeout c in
       State_Monad.return (Inr \<lparr>pb_prefix = rd_ChannelPrefix c, pb_timeout = (if timeout = 0 then 5 * second_ns else timeout)\<rparr>) }"

definition NewMessageHandler :: "'p option \<Rightarrow> 'c option \<Rightarrow> start_error + 'p \<times> 'c" where
  "NewMessageHandler p c =
     (case p of
        None \<Rightarrow> Inl PublisherRequired
      | Some publisher \<Rightarrow> (case c of None \<Rightarrow> Inl PresenceClientRequired | Some client \<Rightarrow> Inr (publisher, client)))"

text \<open>\<^verbatim>\<open>Consumer.Run\<close> around its loop (\<^const>\<open>consumer_Run\<close>), which ends without an error.\<close>

definition kafka_Run :: "(call \<Rightarrow> bool) \<Rightarrow> kafka_config \<Rightarrow> publisher \<Rightarrow> start_error option startup" where
  "kafka_Run ok cfg pub =
     (if \<not> ok NewKafkaGroup then State_Monad.return (Some GroupFailed)
      else do {
        _ \<leftarrow> emit (Open KafkaClient);
        deferred KafkaClient (do { _ \<leftarrow> emit (Work (DeliveryLoop cfg pub)); State_Monad.return None }) })"

definition dialGRPC :: "(call \<Rightarrow> bool) \<Rightarrow> string \<Rightarrow> (start_error + string) startup" where
  "dialGRPC ok target =
     (if \<not> ok DialPresence then State_Monad.return (Inl PresenceDialFailed)
      else do { _ \<leftarrow> emit (Open PresenceConn); State_Monad.return (Inr target) })"

definition delivery_run :: "env_vars \<Rightarrow> (call \<Rightarrow> bool) \<Rightarrow> start_error option startup" where
  "delivery_run env ok = do {
     _ \<leftarrow> emit (Open Signals);
     deferred Signals (do {
       presenceConn \<leftarrow> dialGRPC ok (GetGrpcConfig env);
       case presenceConn of
         Inl e \<Rightarrow> State_Monad.return (Some e)
       | Inr conn \<Rightarrow> deferred PresenceConn (do {
           pub \<leftarrow> NewMessagePublisher ok (GetRedisConfig env);
           case pub of
             Inl e \<Rightarrow> State_Monad.return (Some e)
           | Inr p \<Rightarrow> deferred RedisConn
               (case NewMessageHandler (Some p) (Some conn) of
                  Inl e \<Rightarrow> State_Monad.return (Some e)
                | Inr service \<Rightarrow> kafka_Run ok (GetKafkaMessageConfig env) (fst service)) }) }) }"

subsection \<open>Message service\<close>

definition NewPool :: "(call \<Rightarrow> bool) \<Rightarrow> string \<Rightarrow> (start_error + unit) startup" where
  "NewPool ok connectionString =
     (if TrimSpace connectionString = [] then State_Monad.return (Inl PoolURLRequired) else open_pool ok)"

definition NewStore :: "'p option \<Rightarrow> start_error + 'p" where
  "NewStore pool = (case pool of None \<Rightarrow> Inl StorePoolRequired | Some p \<Rightarrow> Inr p)"

definition NewIngestHandler :: "'s option \<Rightarrow> start_error + 's" where
  "NewIngestHandler store = (case store of None \<Rightarrow> Inl StoreRequired | Some s \<Rightarrow> Inr s)"

text \<open>From the pool to the handler of the WebSocket endpoint: the consumer's channel and buffer size, and the instance's name.\<close>

definition build_instance :: "env_vars \<Rightarrow> start_error + string \<times> int \<times> string" where
  "build_instance env =
     (case NewStore (Some ()) of
        Inl e \<Rightarrow> Inl e
      | Inr store \<Rightarrow>
          (case NewIngestHandler (Some store) of
             Inl e \<Rightarrow> Inl e
           | Inr ingest \<Rightarrow>
               (case NewConsumer (consumer_config env) (Some NewHub) of
                  Inl e \<Rightarrow> Inl (ConsumerRefused e)
                | Inr (channel, bufSize, hub) \<Rightarrow>
                    (case NewWs (Some hub) (mc_Dial (GetCfg env)) (Some ingest) of
                       Inl e \<Rightarrow> Inl (WsRefused e)
                     | Inr (_, dial, _) \<Rightarrow> Inr (channel, bufSize, dial)))))"

definition httpAddr :: string where "httpAddr = '':8080''"
definition shutdownTimeout :: int where "shutdownTimeout = 5 * second_ns"

text \<open>
  The error group: the consumer returns none; an error of the server cancels the others and is the first; after
  a signal the server ends without one and that of the shutdown counts.
\<close>

definition group_Wait :: "(call \<Rightarrow> bool) \<Rightarrow> start_error option" where
  "group_Wait ok = (if \<not> ok ListenAndServe then Some ServerFailed else if \<not> ok ServerShutdown then Some ShutdownFailed else None)"

definition message_run ::
  "(string \<Rightarrow> 'd \<Rightarrow> 'd option) \<Rightarrow> (string \<Rightarrow> string option) \<Rightarrow> (nat \<Rightarrow> mig_call \<Rightarrow> outcome) \<Rightarrow> (string \<times> bool) list option
     \<Rightarrow> env_vars \<Rightarrow> (call \<Rightarrow> bool) \<Rightarrow> 'd mig_db \<Rightarrow> (start_error option \<times> 'd mig_db) startup" where
  "message_run exec readfile ocs entries env ok db = do {
     _ \<leftarrow> emit (Open Signals);
     deferred Signals (do {
       conn \<leftarrow> dialGRPC ok (mc_PresenceService (GetCfg env));
       case conn of
         Inl e \<Rightarrow> State_Monad.return (Some e, db)
       | Inr _ \<Rightarrow> deferred PresenceConn (do {
           _ \<leftarrow> emit (Open RedisConn);
           deferred RedisConn (do {
             pool \<leftarrow> NewPool ok (mc_DatabaseURL (GetCfg env));
             case pool of
               Inl e \<Rightarrow> State_Monad.return (Some e, db)
             | Inr _ \<Rightarrow> deferred PgPool
                 (case RunMigrations exec readfile ocs True (mc_MigrationsDir (GetCfg env)) entries db of
                    (Some e, db1) \<Rightarrow> State_Monad.return (Some (MigrationsFailed e), db1)
                  | (None, db1) \<Rightarrow>
                      (case build_instance env of
                         Inl e \<Rightarrow> State_Monad.return (Some e, db1)
                       | Inr (channel, bufSize, dial) \<Rightarrow> do {
                           _ \<leftarrow> emit (Go (GoConsumer channel bufSize));
                           _ \<leftarrow> emit (Go (GoServer httpAddr dial));
                           _ \<leftarrow> emit (Go (GoShutdown shutdownTimeout));
                           State_Monad.return (group_Wait ok, db1) })) }) }) }) }"

subsection \<open>Single instance\<close>

definition si_GetEnv :: "env_vars \<Rightarrow> string \<Rightarrow> string \<Rightarrow> string" where
  "si_GetEnv env key fallback = (let v = Getenv env key in if v \<noteq> [] then v else fallback)"

definition storage_Migrate :: "(call \<Rightarrow> bool) \<Rightarrow> start_error option startup" where
  "storage_Migrate ok =
     (if \<not> ok OpenMigrationDB then State_Monad.return (Some MigrationDBFailed)
      else do {
        _ \<leftarrow> emit (Open MigrationDB);
        deferred MigrationDB
          (if \<not> ok SetDialect then State_Monad.return (Some DialectFailed)
           else if \<not> ok GooseUp then State_Monad.return (Some GooseFailed)
           else State_Monad.return None) })"

definition storage_Connect :: "(call \<Rightarrow> bool) \<Rightarrow> (start_error + unit) startup" where
  "storage_Connect ok = open_pool ok"

text \<open>\<^verbatim>\<open>log.Fatalf\<close> ends the process: what was deferred is not run.\<close>

datatype ending = Fatal start_error | Returned

definition deferred_in_main :: "resource \<Rightarrow> ending startup \<Rightarrow> ending startup" where
  "deferred_in_main r body = do {
     x \<leftarrow> body;
     case x of Fatal e \<Rightarrow> State_Monad.return (Fatal e) | Returned \<Rightarrow> do { _ \<leftarrow> emit (Close r); State_Monad.return Returned } }"

definition single_main :: "env_vars \<Rightarrow> (call \<Rightarrow> bool) \<Rightarrow> ending startup" where
  "single_main env ok = do {
     _ \<leftarrow> emit (Open Signals);
     deferred_in_main Signals (do {
       migrated \<leftarrow> storage_Migrate ok;
       case migrated of
         Some e \<Rightarrow> State_Monad.return (Fatal e)
       | None \<Rightarrow> do {
           pool \<leftarrow> storage_Connect ok;
           case pool of
             Inl e \<Rightarrow> State_Monad.return (Fatal e)
           | Inr _ \<Rightarrow> deferred_in_main PgPool (do {
               _ \<leftarrow> emit (Work (ChatServer (si_GetEnv env ''HTTP_ADDR'' '':8080'')));
               if \<not> ok ListenAndServe then State_Monad.return (Fatal ServerFailed)
               else do {
                 _ \<leftarrow> emit (Open ShutdownTimer);
                 deferred_in_main ShutdownTimer (State_Monad.return Returned) } }) } }) }"

end
