(* ===== verification/Log_Pipeline.thy ===== *)
theory Log_Pipeline
  imports Wire_Roundtrip
begin

text \<open>
  The log pipeline (\<^verbatim>\<open>log-prop\<close>): a publisher that writes log events to a Kafka topic, and a consumer whose
  \<^verbatim>\<open>ConsumeClaim\<close> hands each record to one of three workers over buffered channels. A worker prints the event and
  marks the record; records that cannot be decoded or have another level are marked at once. Sarama, the Kafka
  client, keeps a mark for each partition, commits it from time to time and starts a session at a committed
  offset; how it moves the mark is a parameter \<open>mk\<close> of the steps.
\<close>

subsection \<open>Events\<close>

record LogEvent =
  le_Level :: string
  le_Message :: string
  le_Service :: string
  le_Time :: gotime

definition log_Encode :: "LogEvent \<Rightarrow> bytes option" where
  "log_Encode e =
     Option.bind (marshal_time (le_Time e)) (\<lambda>t.
       Some (object_text [(''level'', quote (le_Level e)), (''msg'', quote (le_Message e)),
         (''service'', quote (le_Service e)), (''time'', t)]))"

definition decode_LogEvent :: "(string \<times> string) list \<Rightarrow> LogEvent option" where
  "decode_LogEvent ms =
     Option.bind (field decode_string [] ''level'' ms) (\<lambda>l.
     Option.bind (field decode_string [] ''msg'' ms) (\<lambda>m.
     Option.bind (field decode_string [] ''service'' ms) (\<lambda>s.
     Option.bind (field decode_time zero_time ''time'' ms) (\<lambda>t.
       Some \<lparr>le_Level = l, le_Message = m, le_Service = s, le_Time = t\<rparr>))))"

definition log_Decode :: "bytes \<Rightarrow> LogEvent option" where
  "log_Decode = unmarshal decode_LogEvent \<lparr>le_Level = [], le_Message = [], le_Service = [], le_Time = zero_time\<rparr>"

subsection \<open>Publisher\<close>

text \<open>\<^verbatim>\<open>Publish\<close> queues the text for the topic; an event that cannot be encoded is not queued.\<close>

definition log_Publish :: "LogEvent \<Rightarrow> bytes list \<Rightarrow> bool \<times> bytes list" where
  "log_Publish e topic = (case log_Encode e of None \<Rightarrow> (False, topic) | Some b \<Rightarrow> (True, topic @ [b]))"

definition numberMessages :: nat where "numberMessages = 1000000"
definition chunk :: nat where "chunk = 10000"

definition publisher_message :: "gotime \<Rightarrow> LogEvent" where
  "publisher_message now = \<lparr>le_Level = ''information'', le_Message = ''some-info'', le_Service = ''producer'', le_Time = now\<rparr>"

text \<open>Each goroutine publishes a chunk; all of them publish the same event, so that their order does not matter.\<close>

fun publish_chunk :: "LogEvent \<Rightarrow> nat \<Rightarrow> bytes list \<Rightarrow> bytes list" where
  "publish_chunk e 0 topic = topic"
| "publish_chunk e (Suc n) topic = publish_chunk e n (snd (log_Publish e topic))"

function publish_all :: "LogEvent \<Rightarrow> nat \<Rightarrow> bytes list \<Rightarrow> bytes list" where
  "publish_all e i topic = (if i < numberMessages then publish_all e (i + chunk) (publish_chunk e chunk topic) else topic)"
  by pat_completeness auto
termination
  by (relation "measure (\<lambda>(e, i, topic). numberMessages - i)") (auto simp: chunk_def)

definition publisher_main :: "gotime \<Rightarrow> bytes list" where
  "publisher_main now = publish_all (publisher_message now) 0 []"

subsection \<open>Channels\<close>

text \<open>A nil channel, or a buffer of 100 jobs. A send on a nil channel waits for ever, a send on a full one for now.\<close>

datatype 'a gochan = NilChan | Chan "'a list"

definition jobBuffer :: nat where "jobBuffer = 100"

fun chan_send :: "'a \<Rightarrow> 'a gochan \<Rightarrow> 'a gochan option" where
  "chan_send j NilChan = None"
| "chan_send j (Chan q) = (if length q < jobBuffer then Some (Chan (q @ [j])) else None)"

fun chan_jobs :: "'a gochan \<Rightarrow> 'a list" where
  "chan_jobs NilChan = []"
| "chan_jobs (Chan q) = q"

fun chan_recv :: "'a gochan \<Rightarrow> ('a \<times> 'a gochan) option" where
  "chan_recv (Chan (j # q)) = Some (j, Chan q)"
| "chan_recv _ = None"

subsection \<open>The handler\<close>

record log_job =
  lj_event :: LogEvent
  lj_partition :: nat
  lj_offset :: nat
  lj_session :: nat

datatype log_level = Information | Warning | Failure

record log_handler =
  lh_infoCh :: "log_job gochan"
  lh_warnCh :: "log_job gochan"
  lh_errorCh :: "log_job gochan"

definition newConsumerGroupHandler :: log_handler where
  "newConsumerGroupHandler = \<lparr>lh_infoCh = Chan [], lh_warnCh = Chan [], lh_errorCh = Chan []\<rparr>"

text \<open>\<^verbatim>\<open>Start\<close> builds its handler from the decoder alone.\<close>

definition Start_handler :: log_handler where
  "Start_handler = \<lparr>lh_infoCh = NilChan, lh_warnCh = NilChan, lh_errorCh = NilChan\<rparr>"

fun level_chan :: "log_level \<Rightarrow> log_handler \<Rightarrow> log_job gochan" where
  "level_chan Information h = lh_infoCh h"
| "level_chan Warning h = lh_warnCh h"
| "level_chan Failure h = lh_errorCh h"

fun set_level_chan :: "log_level \<Rightarrow> log_job gochan \<Rightarrow> log_handler \<Rightarrow> log_handler" where
  "set_level_chan Information ch h = h\<lparr>lh_infoCh := ch\<rparr>"
| "set_level_chan Warning ch h = h\<lparr>lh_warnCh := ch\<rparr>"
| "set_level_chan Failure ch h = h\<lparr>lh_errorCh := ch\<rparr>"

definition level_of :: "LogEvent \<Rightarrow> log_level option" where
  "level_of e =
     (if le_Level e = ''information'' then Some Information
      else if le_Level e = ''WARN'' then Some Warning
      else if le_Level e = ''ERROR'' then Some Failure
      else None)"

text \<open>The level and event of a record, if there is a worker for it.\<close>

definition route :: "bytes \<Rightarrow> (log_level \<times> LogEvent) option" where
  "route b = Option.bind (log_Decode b) (\<lambda>e. map_option (\<lambda>l. (l, e)) (level_of e))"

text \<open>One turn of \<^verbatim>\<open>ConsumeClaim\<close>: it waits at the channel, hands the record over, or marks it at once.\<close>

datatype claim_turn = Waits | HandsOver log_handler | MarksIt

definition log_ConsumeClaim :: "nat \<Rightarrow> nat \<Rightarrow> nat \<Rightarrow> bytes \<Rightarrow> log_handler \<Rightarrow> claim_turn" where
  "log_ConsumeClaim session p off b h =
     (case log_Decode b of
        None \<Rightarrow> MarksIt
      | Some event \<Rightarrow>
          (case level_of event of
             None \<Rightarrow> MarksIt
           | Some l \<Rightarrow>
               (case chan_send \<lparr>lj_event = event, lj_partition = p, lj_offset = off, lj_session = session\<rparr> (level_chan l h) of
                  None \<Rightarrow> Waits
                | Some ch \<Rightarrow> HandsOver (set_level_chan l ch h))))"

subsection \<open>Sessions\<close>

text \<open>
  The records of each partition, the session, the offset \<^verbatim>\<open>ConsumeClaim\<close> takes next, the session's mark and the
  committed offset; each worker is idle, has received a job, or has printed it; the events printed so far; and
  whether the session's context is done, which it is from the end of the session to the start of the next.
\<close>

datatype worker = Idle | Received log_job | Printed log_job

record log_world =
  lw_records :: "nat \<Rightarrow> bytes list"
  lw_session :: nat
  lw_next :: "nat \<Rightarrow> nat"
  lw_mark :: "nat \<Rightarrow> nat"
  lw_committed :: "nat \<Rightarrow> nat"
  lw_handler :: log_handler
  lw_worker :: "log_level \<Rightarrow> worker"
  lw_printed :: "(log_level \<times> log_job) list"
  lw_marked :: "(nat \<times> nat) set"
  lw_ended :: bool

definition log_start :: "log_handler \<Rightarrow> (nat \<Rightarrow> bytes list) \<Rightarrow> log_world" where
  "log_start h records =
     \<lparr>lw_records = records, lw_session = 0, lw_next = (\<lambda>_. 0), lw_mark = (\<lambda>_. 0), lw_committed = (\<lambda>_. 0), lw_handler = h,
      lw_worker = (\<lambda>_. Idle), lw_printed = [], lw_marked = {}, lw_ended = False\<rparr>"

text \<open>
  A call of \<^verbatim>\<open>session.MarkMessage\<close>: \<open>mk m off\<close> is the mark after the record at \<open>off\<close> was marked, \<open>m\<close> the one before.
\<close>

definition MarkMessage :: "(nat \<Rightarrow> nat \<Rightarrow> nat) \<Rightarrow> nat \<Rightarrow> nat \<Rightarrow> log_world \<Rightarrow> log_world" where
  "MarkMessage mk p off w =
     w\<lparr>lw_mark := (lw_mark w)(p := mk (lw_mark w p) off), lw_marked := insert (p, off) (lw_marked w)\<rparr>"

definition claim_next :: "(nat \<Rightarrow> nat \<Rightarrow> nat) \<Rightarrow> nat \<Rightarrow> log_world \<Rightarrow> log_world option" where
  "claim_next mk p w =
     (let off = lw_next w p; w1 = w\<lparr>lw_next := (lw_next w)(p := off + 1)\<rparr> in
      if off < length (lw_records w p) then
        (case log_ConsumeClaim (lw_session w) p off (lw_records w p ! off) (lw_handler w) of
           Waits \<Rightarrow> None
         | HandsOver h \<Rightarrow> Some (w1\<lparr>lw_handler := h\<rparr>)
         | MarksIt \<Rightarrow> Some (MarkMessage mk p off w1))
      else None)"

text \<open>The loop of a worker (\<^verbatim>\<open>handleInfo\<close>, \<^verbatim>\<open>handleWarn\<close>, \<^verbatim>\<open>handleError\<close>).\<close>

definition worker_step :: "(nat \<Rightarrow> nat \<Rightarrow> nat) \<Rightarrow> log_level \<Rightarrow> log_world \<Rightarrow> log_world option" where
  "worker_step mk l w =
     (case lw_worker w l of
        Idle \<Rightarrow>
          (case chan_recv (level_chan l (lw_handler w)) of
             None \<Rightarrow> None
           | Some (j, ch) \<Rightarrow> Some (w\<lparr>lw_handler := set_level_chan l ch (lw_handler w), lw_worker := (lw_worker w)(l := Received j)\<rparr>))
      | Received j \<Rightarrow>
          (if lj_session j \<noteq> lw_session w \<or> lw_ended w then Some (w\<lparr>lw_worker := (lw_worker w)(l := Idle)\<rparr>)
           else Some (w\<lparr>lw_worker := (lw_worker w)(l := Printed j), lw_printed := lw_printed w @ [(l, j)]\<rparr>))
      | Printed j \<Rightarrow>
          (let w1 = w\<lparr>lw_worker := (lw_worker w)(l := Idle)\<rparr> in
           if lj_session j \<noteq> lw_session w then Some w1 else Some (MarkMessage mk (lj_partition j) (lj_offset j) w1)))"

text \<open>
  A rebalance or the restart of \<^verbatim>\<open>Consume\<close> begins a session at offsets that were committed; the jobs in the channels
  are still those of the session before.
\<close>

definition new_session :: "(nat \<Rightarrow> nat) \<Rightarrow> log_world \<Rightarrow> log_world" where
  "new_session at w = w\<lparr>lw_session := lw_session w + 1, lw_next := at, lw_mark := at, lw_ended := False\<rparr>"

inductive log_step :: "(nat \<Rightarrow> nat \<Rightarrow> nat) \<Rightarrow> log_world \<Rightarrow> log_world \<Rightarrow> bool" for mk :: "nat \<Rightarrow> nat \<Rightarrow> nat" where
  lg_claim: "claim_next mk p w = Some w' \<Longrightarrow> log_step mk w w'"
| lg_worker: "worker_step mk l w = Some w' \<Longrightarrow> log_step mk w w'"
| lg_commit: "log_step mk w (w\<lparr>lw_committed := (lw_committed w)(p := lw_mark w p)\<rparr>)"
| lg_session: "\<forall>p. at p \<le> lw_committed w p \<Longrightarrow> log_step mk w (new_session at w)"
| lg_ended: "log_step mk w (w\<lparr>lw_ended := True\<rparr>)"
| lg_publish: "log_step mk w (w\<lparr>lw_records := (lw_records w)(p := lw_records w p @ [b])\<rparr>)"

subsection \<open>Configuration\<close>

definition log_GetEnv :: "env_vars \<Rightarrow> string \<Rightarrow> string \<Rightarrow> string" where
  "log_GetEnv env key fallback = (let v = Getenv env key in if v \<noteq> [] then v else fallback)"

record KafkaConsumer =
  kc_brokers :: "string list"
  kc_topic :: string
  kc_groupID :: string

text \<open>\<open>connect\<close> says whether Sarama can create the client.\<close>

definition CreateConsumer :: "(string list \<Rightarrow> bool) \<Rightarrow> env_vars \<Rightarrow> string \<Rightarrow> string \<Rightarrow> KafkaConsumer option" where
  "CreateConsumer connect env topic groupID =
     (let brokers = Split (CHR '','') (log_GetEnv env ''KAFKA_BROKERS'' ''localhost:9092'') in
      if connect brokers then Some \<lparr>kc_brokers = brokers, kc_topic = topic, kc_groupID = groupID\<rparr> else None)"

definition consumer_main :: "(string list \<Rightarrow> bool) \<Rightarrow> env_vars \<Rightarrow> KafkaConsumer option" where
  "consumer_main connect env =
     CreateConsumer connect env (log_GetEnv env ''KAFKA_TOPIC'' ''app-logs'') (log_GetEnv env ''KAFKA_GROUP_ID'' ''log-consumer-group'')"

record KafkaProducer =
  kp_brokers :: "string list"
  kp_topic :: string

definition CreateProducer :: "(string list \<Rightarrow> bool) \<Rightarrow> env_vars \<Rightarrow> string \<Rightarrow> KafkaProducer option" where
  "CreateProducer connect env topic =
     (let brokers = Split (CHR '','') (log_GetEnv env ''KAFKA_BROKERS'' ''localhost:9092'') in
      if connect brokers then Some \<lparr>kp_brokers = brokers, kp_topic = topic\<rparr> else None)"

definition producer_of_main :: "(string list \<Rightarrow> bool) \<Rightarrow> env_vars \<Rightarrow> KafkaProducer option" where
  "producer_of_main connect env = CreateProducer connect env (log_GetEnv env ''KAFKA_TOPIC'' ''app-logs'')"

end
