(* ===== verification/Log_Props.thy ===== *)
theory Log_Props
  imports Log_Pipeline
begin

text \<open>
  What the log consumer does with the handler its \<^verbatim>\<open>Start\<close> builds, where the channels are nil, and with the
  handler of its constructor, which \<^verbatim>\<open>Start\<close> does not use.
\<close>

subsection \<open>Events are read back\<close>

lemma log_field_values:
  "field_values ''level'' [(''level'', a), (''msg'', b), (''service'', c), (''time'', d)] = [a]"
  "field_values ''msg'' [(''level'', a), (''msg'', b), (''service'', c), (''time'', d)] = [b]"
  "field_values ''service'' [(''level'', a), (''msg'', b), (''service'', c), (''time'', d)] = [c]"
  "field_values ''time'' [(''level'', a), (''msg'', b), (''service'', c), (''time'', d)] = [d]"
  by code_simp+

lemma plain_log_names: "plain ''level''" "plain ''msg''" "plain ''service''" "plain ''time''"
  by (simp_all add: plain_simps quote_ascii_def)

lemma log_roundtrip:
  assumes "valid_time (le_Time e)" "utf8_valid (le_Level e)" "utf8_valid (le_Message e)" "utf8_valid (le_Service e)"
  shows "\<exists>b. log_Encode e = Some b \<and> log_Decode b = Some e"
proof -
  obtain t where t: "marshal_time (le_Time e) = Some t" using marshal_time_valid assms(1) by blast
  let ?kvs = "[(''level'', quote (le_Level e)), (''msg'', quote (le_Message e)), (''service'', quote (le_Service e)), (''time'', t)]"
  have "log_Decode (object_text ?kvs) = decode_LogEvent ?kvs"
    unfolding log_Decode_def
    by (rule unmarshal_struct) (use marshal_time_token [OF t] in \<open>simp add: token_string plain_log_names\<close>)
  also have "\<dots> = Some e"
    by (simp add: decode_LogEvent_def field_def log_field_values decode_string_quote marshal_time_decode [OF t] assms)
  finally show ?thesis by (simp add: log_Encode_def t)
qed

lemma publisher_routed:
  assumes "valid_time now"
  shows "\<exists>b. log_Encode (publisher_message now) = Some b \<and> route b = Some (Information, publisher_message now)"
proof -
  have "utf8_valid ''information''" "utf8_valid ''some-info''" "utf8_valid ''producer''" by (simp_all add: utf8_valid_ascii)
  with log_roundtrip [of "publisher_message now"] assms show ?thesis
    by (auto simp: publisher_message_def route_def level_of_def)
qed

lemma publish_chunk_text: "log_Encode e = Some b \<Longrightarrow> publish_chunk e n topic = topic @ replicate n b"
  by (induction n arbitrary: topic) (simp_all add: log_Publish_def)

lemma publish_all_text:
  "\<lbrakk>log_Encode e = Some b; i = k * chunk; k \<le> 100\<rbrakk> \<Longrightarrow> publish_all e i topic = topic @ replicate ((100 - k) * chunk) b"
proof (induction "100 - k" arbitrary: k i topic)
  case 0
  then show ?case by (simp add: numberMessages_def chunk_def)
next
  case (Suc n)
  have lt: "i < numberMessages" using Suc.hyps(2) Suc.prems(2) by (simp add: numberMessages_def chunk_def)
  have "publish_all e (i + chunk) (publish_chunk e chunk topic) =
      publish_chunk e chunk topic @ replicate ((100 - Suc k) * chunk) b"
    by (rule Suc.hyps(1)) (use Suc.hyps(2) Suc.prems in auto)
  moreover have "(100 - k) * chunk = chunk + (100 - Suc k) * chunk"
    using Suc.hyps(2) by (metis Suc_diff_Suc Suc_diff_diff diff_Suc_Suc mult_Suc zero_less_Suc zero_less_diff)
  ultimately show ?case
    using lt publish_chunk_text [OF Suc.prems(1)] by (simp add: replicate_add)
qed

lemma publisher_sends:
  assumes "valid_time now"
  shows "\<exists>b. publisher_main now = replicate 1000000 b \<and> route b = Some (Information, publisher_message now)"
proof -
  obtain b where b: "log_Encode (publisher_message now) = Some b" "route b = Some (Information, publisher_message now)"
    using publisher_routed [OF assms] by blast
  have "publisher_main now = replicate ((100 - 0) * chunk) b"
    using publish_all_text [OF b(1), of 0 0 "[]"] by (simp add: publisher_main_def del: publish_all.simps)
  with b(2) show ?thesis by (auto simp: chunk_def)
qed

subsection \<open>One turn of the claim\<close>

lemma claim_turn_cases:
  "log_ConsumeClaim s p off b h =
     (case route b of
        None \<Rightarrow> MarksIt
      | Some (l, e) \<Rightarrow>
          (case chan_send \<lparr>lj_event = e, lj_partition = p, lj_offset = off, lj_session = s\<rparr> (level_chan l h) of
             None \<Rightarrow> Waits
           | Some ch \<Rightarrow> HandsOver (set_level_chan l ch h)))"
  by (simp add: log_ConsumeClaim_def route_def split: option.split)

lemma claim_next_cases:
  assumes "claim_next mk p w = Some w'"
  obtains (mark) "lw_next w p < length (lw_records w p)" "route (lw_records w p ! lw_next w p) = None"
      "w' = MarkMessage mk p (lw_next w p) (w\<lparr>lw_next := (lw_next w)(p := Suc (lw_next w p))\<rparr>)"
  | (hand) l e ch where "lw_next w p < length (lw_records w p)" "route (lw_records w p ! lw_next w p) = Some (l, e)"
      "chan_send \<lparr>lj_event = e, lj_partition = p, lj_offset = lw_next w p, lj_session = lw_session w\<rparr> (level_chan l (lw_handler w)) = Some ch"
      "w' = w\<lparr>lw_next := (lw_next w)(p := Suc (lw_next w p)), lw_handler := set_level_chan l ch (lw_handler w)\<rparr>"
  using assms by (auto simp: claim_next_def claim_turn_cases Let_def split: if_splits option.splits prod.splits claim_turn.splits)

subsection \<open>The handler of Start\<close>

text \<open>The records of a partition before \<open>k\<close> are there and have no worker.\<close>

definition skipped :: "log_world \<Rightarrow> nat \<Rightarrow> nat \<Rightarrow> bool" where
  "skipped w p k \<longleftrightarrow> k \<le> length (lw_records w p) \<and> (\<forall>n < k. route (lw_records w p ! n) = None)"

definition nil_inv :: "log_world \<Rightarrow> bool" where
  "nil_inv w \<longleftrightarrow> lw_handler w = Start_handler \<and> lw_worker w = (\<lambda>_. Idle) \<and> lw_printed w = [] \<and>
     (\<forall>p. skipped w p (lw_next w p) \<and> skipped w p (lw_mark w p) \<and> skipped w p (lw_committed w p))"

lemma nil_chan [simp]: "level_chan l Start_handler = NilChan"
  by (cases l) (simp_all add: Start_handler_def)

lemma skipped_mono: "\<lbrakk>skipped w p k; n \<le> k; lw_records w' p = lw_records w p\<rbrakk> \<Longrightarrow> skipped w' p n"
  by (auto simp: skipped_def)

lemma skipped_Suc: "\<lbrakk>skipped w p k; k < length (lw_records w p); route (lw_records w p ! k) = None\<rbrakk> \<Longrightarrow> skipped w p (Suc k)"
  by (auto simp: skipped_def less_Suc_eq)

lemma nil_claim:
  assumes "claim_next mk p w = Some w'" "nil_inv w" "\<forall>m off. mk m off \<le> max m (off + 1)"
  shows "nil_inv w'"
  using assms(1)
proof (cases rule: claim_next_cases)
  case mark
  let ?n = "lw_next w p"
  have "skipped w p (Suc ?n)" using assms(2) mark(1,2) by (intro skipped_Suc) (simp_all add: nil_inv_def)
  moreover have "skipped w p (lw_mark w p)" using assms(2) by (simp add: nil_inv_def)
  moreover have "mk (lw_mark w p) ?n \<le> max (lw_mark w p) (Suc ?n)" using assms(3) by simp
  ultimately have "skipped w p (mk (lw_mark w p) ?n)" "skipped w p (Suc ?n)"
    by (auto simp: max_def intro: skipped_mono split: if_splits)
  moreover have "skipped w' = skipped w" by (simp add: mark(3) MarkMessage_def skipped_def fun_eq_iff)
  ultimately show ?thesis using assms(2) by (simp add: nil_inv_def) (simp add: mark(3) MarkMessage_def)
next
  case (hand l e ch)
  with assms(2) show ?thesis by (simp add: nil_inv_def)
qed

lemma nil_step: "\<lbrakk>log_step mk w w'; nil_inv w; \<forall>m off. mk m off \<le> max m (off + 1)\<rbrakk> \<Longrightarrow> nil_inv w'"
proof (induction rule: log_step.induct)
  case (lg_claim p w w')
  then show ?case by (rule nil_claim)
next
  case (lg_worker l w w')
  then show ?case by (simp add: nil_inv_def worker_step_def)
next
  case (lg_commit w p)
  then show ?case by (simp add: nil_inv_def skipped_def)
next
  case (lg_session at w)
  then have "skipped w p (at p)" for p unfolding nil_inv_def by (metis skipped_mono)
  with lg_session show ?case by (simp add: nil_inv_def new_session_def skipped_def)
next
  case (lg_ended w)
  then show ?case by (simp add: nil_inv_def skipped_def)
next
  case (lg_publish w p b)
  let ?w = "w\<lparr>lw_records := (lw_records w)(p := lw_records w p @ [b])\<rparr>"
  have "skipped w q k \<Longrightarrow> skipped ?w q k" for q k by (auto simp: skipped_def nth_append)
  with lg_publish show ?case unfolding nil_inv_def by simp
qed

lemma nil_reachable:
  "\<lbrakk>(log_step mk)\<^sup>*\<^sup>* (log_start Start_handler records) w; \<forall>m off. mk m off \<le> max m (off + 1)\<rbrakk> \<Longrightarrow> nil_inv w"
proof (induction rule: rtranclp_induct)
  case base
  show ?case by (simp add: nil_inv_def log_start_def skipped_def)
qed (blast intro: nil_step)

text \<open>C34: with the handler that \<^verbatim>\<open>Start\<close> builds, whatever is published and however sessions change, no event is
  ever printed, and no partition gets past its first record of a known level: neither the claim nor the committed offset.\<close>

theorem log_start_never_prints:
  assumes "(log_step mk)\<^sup>*\<^sup>* (log_start Start_handler records) w" and "\<forall>m off. mk m off \<le> max m (off + 1)"
  shows "lw_printed w = [] \<and>
    (\<forall>p n. n < length (lw_records w p) \<and> route (lw_records w p ! n) \<noteq> None \<longrightarrow>
       lw_next w p \<le> n \<and> lw_committed w p \<le> n)"
proof -
  have inv: "nil_inv w" by (rule nil_reachable [OF assms])
  have "k \<le> n" if "skipped w p k" "route (lw_records w p ! n) \<noteq> None" for p n k
    using that by (meson not_le skipped_def)
  with inv show ?thesis unfolding nil_inv_def by blast
qed

text \<open>The documented behaviour of the mark: it is the highest record marked in the session, and never lowered.\<close>

definition latest :: "nat \<Rightarrow> nat \<Rightarrow> nat" where
  "latest m off = max m (off + 1)"

text \<open>Partition 0 holds a record that is no event and one of the publisher: the first is skipped, the second is the end.\<close>

lemma no_event_routed: "route ''x'' = None"
  by code_simp

theorem log_start_never_prints_witness:
  "\<exists>b w. log_Encode (publisher_message zero_time) = Some b \<and>
     (log_step latest)\<^sup>*\<^sup>* (log_start Start_handler ((\<lambda>_. [])(0 := [''x'', b]))) w \<and>
     lw_committed w 0 = 1 \<and> lw_next w 0 \<le> 1 \<and> lw_printed w = []"
proof -
  obtain b where b: "log_Encode (publisher_message zero_time) = Some b"
      "route b = Some (Information, publisher_message zero_time)"
    using publisher_routed [of zero_time] by (auto simp: valid_time_def zero_time_def days_in_month_def)
  let ?s = "log_start Start_handler ((\<lambda>_. [])(0 := [''x'', b]))"
  let ?a = "MarkMessage latest 0 0 (?s\<lparr>lw_next := (\<lambda>_. 0)(0 := 1)\<rparr>)"
  let ?w = "?a\<lparr>lw_committed := (lw_committed ?a)(0 := lw_mark ?a 0)\<rparr>"
  have "claim_next latest 0 ?s = Some ?a"
    by (simp add: claim_next_def claim_turn_cases no_event_routed log_start_def)
  then have "log_step latest ?s ?a" by (rule lg_claim)
  moreover have "log_step latest ?a ?w" by (rule lg_commit)
  ultimately have "(log_step latest)\<^sup>*\<^sup>* ?s ?w" by (rule rtranclp.rtrancl_into_rtrancl [OF r_into_rtranclp])
  moreover have "lw_records ?w 0 = [''x'', b]" "lw_committed ?w 0 = 1" by (simp_all add: MarkMessage_def log_start_def latest_def)
  moreover note log_start_never_prints [OF calculation(1), simplified latest_def]
  then have "lw_printed ?w = []" and "1 < length (lw_records ?w 0) \<and> route (lw_records ?w 0 ! 1) \<noteq> None \<Longrightarrow> lw_next ?w 0 \<le> 1"
    by blast+
  ultimately show ?thesis using b by (intro exI [of _ b] exI [of _ ?w]) simp
qed

subsection \<open>The handler of the constructor\<close>

definition job_ok :: "log_world \<Rightarrow> log_level \<Rightarrow> log_job \<Rightarrow> bool" where
  "job_ok w l j \<longleftrightarrow> lj_offset j < length (lw_records w (lj_partition j)) \<and>
     route (lw_records w (lj_partition j) ! lj_offset j) = Some (l, lj_event j) \<and> lj_session j \<le> lw_session w \<and>
     (lj_session j = lw_session w \<longrightarrow> lj_offset j < lw_next w (lj_partition j))"

text \<open>Jobs in the order of sessions, and within a session and a partition in the order of offsets.\<close>

definition log_before :: "log_job \<Rightarrow> log_job \<Rightarrow> bool" where
  "log_before i j \<longleftrightarrow> lj_session i < lj_session j \<or>
     lj_session i = lj_session j \<and> (lj_partition i = lj_partition j \<longrightarrow> lj_offset i < lj_offset j)"

definition printed_at :: "log_level \<Rightarrow> log_world \<Rightarrow> log_job list" where
  "printed_at l w = map snd (filter (\<lambda>x. fst x = l) (lw_printed w))"

definition waiting_at :: "log_level \<Rightarrow> log_world \<Rightarrow> log_job list" where
  "waiting_at l w = (case lw_worker w l of Received j \<Rightarrow> [j] | _ \<Rightarrow> []) @ chan_jobs (level_chan l (lw_handler w))"

definition level_inv :: "log_level \<Rightarrow> log_world \<Rightarrow> bool" where
  "level_inv l w \<longleftrightarrow> (\<forall>j \<in> set (printed_at l w @ waiting_at l w). job_ok w l j) \<and>
     sorted_wrt log_before (printed_at l w @ waiting_at l w) \<and> length (chan_jobs (level_chan l (lw_handler w))) \<le> jobBuffer \<and>
     (\<forall>j. lw_worker w l = Printed j \<longrightarrow> j \<in> set (printed_at l w))"

definition handled :: "log_world \<Rightarrow> nat \<Rightarrow> nat \<Rightarrow> bool" where
  "handled w p off \<longleftrightarrow> off < length (lw_records w p) \<and>
     (case route (lw_records w p ! off) of
        None \<Rightarrow> True
      | Some (l, e) \<Rightarrow> \<exists>j \<in> set (printed_at l w). lj_partition j = p \<and> lj_offset j = off \<and> lj_event j = e)"

definition log_inv :: "log_world \<Rightarrow> bool" where
  "log_inv w \<longleftrightarrow> (\<forall>l. level_inv l w) \<and> (\<forall>(p, off) \<in> lw_marked w. handled w p off)"

lemma level_chan_set [simp]: "level_chan k (set_level_chan l ch h) = (if k = l then ch else level_chan k h)"
  by (cases k; cases l) simp_all

lemma chan_send_jobs: "chan_send j ch = Some ch' \<Longrightarrow> chan_jobs ch' = chan_jobs ch @ [j] \<and> length (chan_jobs ch') \<le> jobBuffer"
  by (cases ch) (auto split: if_splits)

lemma chan_recv_jobs: "chan_recv ch = Some (j, ch') \<Longrightarrow> chan_jobs ch = j # chan_jobs ch'"
  by (cases "(ch, ())" rule: prod.exhaust) (cases ch rule: chan_recv.cases; auto)

lemma job_ok_mono:
  "\<lbrakk>job_ok w l j; lw_session w' = lw_session w; \<And>p. lw_next w p \<le> lw_next w' p; lw_records w' = lw_records w\<rbrakk> \<Longrightarrow> job_ok w' l j"
  by (auto simp: job_ok_def intro: less_le_trans)

text \<open>A level is not affected by a step that leaves its channel, its worker and what was printed.\<close>

lemma level_inv_mono:
  assumes "level_inv l w" "printed_at l w' = printed_at l w" "waiting_at l w' = waiting_at l w"
    "level_chan l (lw_handler w') = level_chan l (lw_handler w)" "lw_worker w' l = lw_worker w l" "\<And>j. job_ok w l j \<Longrightarrow> job_ok w' l j"
  shows "level_inv l w'"
  using assms unfolding level_inv_def by simp

lemma handled_mono:
  "\<lbrakk>handled w p off; lw_records w' = lw_records w; \<And>l. set (printed_at l w) \<subseteq> set (printed_at l w')\<rbrakk> \<Longrightarrow> handled w' p off"
  by (fastforce simp: handled_def split: option.splits)

lemma log_invD:
  assumes "log_inv w"
  shows "level_inv l w" "(p, off) \<in> lw_marked w \<Longrightarrow> handled w p off"
  using assms by (auto simp: log_inv_def)

lemma log_invI:
  assumes "\<And>l. level_inv l w" "\<And>p off. (p, off) \<in> lw_marked w \<Longrightarrow> handled w p off"
  shows "log_inv w"
  using assms by (auto simp: log_inv_def)

lemma Mark_fields [simp]:
  "lw_records (MarkMessage mk p off w) = lw_records w" "lw_session (MarkMessage mk p off w) = lw_session w"
  "lw_next (MarkMessage mk p off w) = lw_next w" "lw_committed (MarkMessage mk p off w) = lw_committed w"
  "lw_handler (MarkMessage mk p off w) = lw_handler w" "lw_worker (MarkMessage mk p off w) = lw_worker w"
  "lw_printed (MarkMessage mk p off w) = lw_printed w" "printed_at l (MarkMessage mk p off w) = printed_at l w"
  "waiting_at l (MarkMessage mk p off w) = waiting_at l w" "job_ok (MarkMessage mk p off w) = job_ok w"
  "lw_marked (MarkMessage mk p off w) = insert (p, off) (lw_marked w)"
  by (simp_all add: MarkMessage_def printed_at_def waiting_at_def job_ok_def fun_eq_iff)

lemma log_Mark_keeps:
  assumes "log_inv w" "handled w p off"
  shows "log_inv (MarkMessage mk p off w)"
proof (rule log_invI)
  show "level_inv l (MarkMessage mk p off w)" for l by (rule level_inv_mono [OF log_invD(1) [OF assms(1)]]) simp_all
  show "(q, o') \<in> lw_marked (MarkMessage mk p off w) \<Longrightarrow> handled (MarkMessage mk p off w) q o'" for q o'
    using handled_mono [of w q o' "MarkMessage mk p off w"] log_invD(2) [OF assms(1), of q o'] assms(2) by auto
qed

lemma log_claim_keeps:
  assumes "claim_next mk p w = Some w'" "log_inv w"
  shows "log_inv w'"
  using assms(1)
proof (cases rule: claim_next_cases)
  case mark
  let ?w1 = "w\<lparr>lw_next := (lw_next w)(p := Suc (lw_next w p))\<rparr>"
  have same: "printed_at l ?w1 = printed_at l w" "waiting_at l ?w1 = waiting_at l w" for l by (simp_all add: printed_at_def waiting_at_def)
  have "log_inv ?w1"
  proof (rule log_invI)
    show "level_inv l ?w1" for l by (rule level_inv_mono [OF log_invD(1) [OF assms(2)]]) (auto simp: same elim: job_ok_mono)
    show "(q, o') \<in> lw_marked ?w1 \<Longrightarrow> handled ?w1 q o'" for q o' using handled_mono [of w q o' ?w1] log_invD(2) [OF assms(2)] by (simp add: same)
  qed
  moreover have "handled ?w1 p (lw_next w p)" using mark by (simp add: handled_def)
  ultimately show ?thesis unfolding mark(3) by (rule log_Mark_keeps)
next
  case (hand l e ch)
  let ?j = "\<lparr>lj_event = e, lj_partition = p, lj_offset = lw_next w p, lj_session = lw_session w\<rparr>"
  note ch = chan_send_jobs [OF hand(3)]
  have pr: "printed_at k w' = printed_at k w" for k by (simp add: hand(4) printed_at_def)
  have wt: "waiting_at k w' = (if k = l then waiting_at k w @ [?j] else waiting_at k w)" for k
    using ch by (simp add: hand(4) waiting_at_def)
  have ok: "job_ok w k j \<Longrightarrow> job_ok w' k j" for k j by (rule job_ok_mono) (auto simp: hand(4))
  show ?thesis
  proof (rule log_invI)
    show "level_inv k w'" for k
    proof (cases "k = l")
      case True
      have "job_ok w' l ?j" using hand(1,2) by (simp add: hand(4) job_ok_def)
      moreover have "log_before i ?j" if "job_ok w l i" for i
        using that by (auto simp: job_ok_def log_before_def)
      ultimately show ?thesis
        using log_invD(1) [OF assms(2), of l] ch ok unfolding level_inv_def pr wt True
        by (auto simp: hand(4) sorted_wrt_append)
    next
      case False
      then show ?thesis by (intro level_inv_mono [OF log_invD(1) [OF assms(2)]]) (use ok in \<open>simp_all add: pr wt, simp_all add: hand(4)\<close>)
    qed
    show "(q, o') \<in> lw_marked w' \<Longrightarrow> handled w' q o'" for q o'
      using handled_mono [of w q o' w'] log_invD(2) [OF assms(2)] by (simp add: pr) (simp add: hand(4))
  qed
qed

lemma set_worker_fields [simp]:
  "printed_at k (w\<lparr>lw_worker := f\<rparr>) = printed_at k w" "job_ok (w\<lparr>lw_worker := f\<rparr>) = job_ok w"
  "printed_at k (w\<lparr>lw_handler := h\<rparr>) = printed_at k w" "job_ok (w\<lparr>lw_handler := h\<rparr>) = job_ok w"
  "job_ok (w\<lparr>lw_printed := ps\<rparr>) = job_ok w"
  by (simp_all add: printed_at_def job_ok_def fun_eq_iff)

text \<open>A step of the worker of level \<open>l\<close> that moves a job on, or drops it.\<close>

lemma log_worker_frame:
  assumes "log_inv w" "level_inv l w'"
    and same: "lw_records w' = lw_records w" "lw_next w' = lw_next w"
      "lw_marked w' = lw_marked w" "job_ok w' = job_ok w"
    and other: "\<And>k. k \<noteq> l \<Longrightarrow> printed_at k w' = printed_at k w \<and> waiting_at k w' = waiting_at k w \<and>
      level_chan k (lw_handler w') = level_chan k (lw_handler w) \<and> lw_worker w' k = lw_worker w k"
    and more: "set (printed_at l w) \<subseteq> set (printed_at l w')"
  shows "log_inv w'"
proof (rule log_invI)
  show "level_inv k w'" for k
    using assms(2) other [of k] level_inv_mono [OF log_invD(1) [OF assms(1)], of k w'] same(4) by (cases "k = l") auto
  show "(p, off) \<in> lw_marked w' \<Longrightarrow> handled w' p off" for p off
    using handled_mono [OF log_invD(2) [OF assms(1)], of p off w'] same(1,3) other more by (metis subset_refl)
qed

lemma log_worker_keeps:
  assumes "worker_step mk l w = Some w'" "log_inv w"
  shows "log_inv w'"
proof (cases "lw_worker w l")
  case Idle
  with assms(1) obtain j ch where r: "chan_recv (level_chan l (lw_handler w)) = Some (j, ch)"
    and w': "w' = w\<lparr>lw_handler := set_level_chan l ch (lw_handler w), lw_worker := (lw_worker w)(l := Received j)\<rparr>"
    by (auto simp: worker_step_def split: option.splits)
  have wt: "waiting_at l w' = waiting_at l w" using chan_recv_jobs [OF r] Idle by (simp add: w' waiting_at_def)
  have "level_inv l w'"
    using log_invD(1) [OF assms(2), of l] chan_recv_jobs [OF r] unfolding level_inv_def wt by (simp add: w')
  then show ?thesis by (rule log_worker_frame [OF assms(2)]) (simp_all add: w' waiting_at_def)
next
  case (Received j)
  have wt: "waiting_at l w = j # chan_jobs (level_chan l (lw_handler w))" using Received by (simp add: waiting_at_def)
  show ?thesis
  proof (cases "lj_session j = lw_session w \<and> \<not> lw_ended w")
    case True
    then have w': "w' = w\<lparr>lw_worker := (lw_worker w)(l := Printed j), lw_printed := lw_printed w @ [(l, j)]\<rparr>"
      using assms(1) Received by (auto simp: worker_step_def)
    have wt': "waiting_at l w' = chan_jobs (level_chan l (lw_handler w))" by (simp add: w' waiting_at_def)
    have pr: "printed_at l w' = printed_at l w @ [j]" by (simp add: w' printed_at_def)
    have "level_inv l w'"
      using log_invD(1) [OF assms(2), of l] unfolding level_inv_def wt wt' pr by (simp add: w')
    then show ?thesis
      by (rule log_worker_frame [OF assms(2)]) (auto simp: w' waiting_at_def printed_at_def)
  next
    case False
    then have w': "w' = w\<lparr>lw_worker := (lw_worker w)(l := Idle)\<rparr>" using assms(1) Received by (auto simp: worker_step_def)
    have wt': "waiting_at l w' = chan_jobs (level_chan l (lw_handler w))" by (simp add: w' waiting_at_def)
    have "level_inv l w'"
      using log_invD(1) [OF assms(2), of l] unfolding level_inv_def wt wt' by (simp add: w' sorted_wrt_append)
    then show ?thesis by (rule log_worker_frame [OF assms(2)]) (simp_all add: w' waiting_at_def)
  qed
next
  case (Printed j)
  let ?w1 = "w\<lparr>lw_worker := (lw_worker w)(l := Idle)\<rparr>"
  have wt: "waiting_at l ?w1 = waiting_at l w" using Printed by (simp add: waiting_at_def)
  have lv: "level_inv l w" by (rule log_invD(1) [OF assms(2)])
  then have "level_inv l ?w1" unfolding level_inv_def wt by simp
  then have inv: "log_inv ?w1" by (rule log_worker_frame [OF assms(2)]) (simp_all add: waiting_at_def)
  have j: "j \<in> set (printed_at l w)" "job_ok w l j" using lv Printed by (auto simp: level_inv_def)
  then have h: "handled ?w1 (lj_partition j) (lj_offset j)" by (auto simp: handled_def job_ok_def)
  show ?thesis
  proof (cases "lj_session j = lw_session w")
    case True
    then have "w' = MarkMessage mk (lj_partition j) (lj_offset j) ?w1" using assms(1) Printed by (simp add: worker_step_def)
    with log_Mark_keeps [OF inv h] show ?thesis by simp
  next
    case False
    then have "w' = ?w1" using assms(1) Printed by (simp add: worker_step_def)
    with inv show ?thesis by simp
  qed
qed

lemma log_step_keeps: "\<lbrakk>log_step mk w w'; log_inv w\<rbrakk> \<Longrightarrow> log_inv w'"
proof (induction rule: log_step.induct)
  case (lg_commit w p)
  have same: "printed_at l (w\<lparr>lw_committed := f\<rparr>) = printed_at l w" "waiting_at l (w\<lparr>lw_committed := f\<rparr>) = waiting_at l w"
    "job_ok (w\<lparr>lw_committed := f\<rparr>) = job_ok w" for l f by (simp_all add: printed_at_def waiting_at_def job_ok_def fun_eq_iff)
  have "handled w q off \<Longrightarrow> handled (w\<lparr>lw_committed := f\<rparr>) q off" for q off f by (erule handled_mono) (simp_all add: same)
  then show ?case using lg_commit unfolding log_inv_def level_inv_def same by auto
next
  case (lg_session at w)
  have same: "printed_at l (new_session at w) = printed_at l w" "waiting_at l (new_session at w) = waiting_at l w" for l
    by (simp_all add: printed_at_def waiting_at_def new_session_def)
  have "job_ok w l j \<Longrightarrow> job_ok (new_session at w) l j" for l j by (simp add: job_ok_def new_session_def)
  then show ?case using lg_session unfolding log_inv_def level_inv_def handled_def same by (simp add: new_session_def)
next
  case (lg_ended w)
  let ?w = "w\<lparr>lw_ended := True\<rparr>"
  have pr: "printed_at l ?w = printed_at l w" for l by (simp add: printed_at_def)
  have same: "printed_at l ?w = printed_at l w" "waiting_at l ?w = waiting_at l w" "job_ok ?w = job_ok w" "handled ?w = handled w" for l
    unfolding handled_def pr by (simp_all add: waiting_at_def job_ok_def fun_eq_iff)
  then show ?case using lg_ended unfolding log_inv_def level_inv_def same by simp
next
  case (lg_publish w p b)
  let ?w = "w\<lparr>lw_records := (lw_records w)(p := lw_records w p @ [b])\<rparr>"
  have same: "printed_at l ?w = printed_at l w" "waiting_at l ?w = waiting_at l w" for l
    by (simp_all add: printed_at_def waiting_at_def)
  have "job_ok w l j \<Longrightarrow> job_ok ?w l j" for l j by (auto simp: job_ok_def nth_append)
  moreover have "handled w q off \<Longrightarrow> handled ?w q off" for q off by (auto simp: handled_def same nth_append split: option.splits)
  ultimately show ?case using lg_publish unfolding log_inv_def level_inv_def same by auto
qed (auto intro: log_claim_keeps log_worker_keeps)

lemma log_inv_start: "log_inv (log_start newConsumerGroupHandler records)"
proof (rule log_invI)
  show "level_inv l (log_start newConsumerGroupHandler records)" for l
    by (cases l) (simp_all add: level_inv_def log_start_def newConsumerGroupHandler_def printed_at_def waiting_at_def)
qed (simp_all add: log_start_def)

lemma log_reachable_inv: "(log_step mk)\<^sup>*\<^sup>* (log_start newConsumerGroupHandler records) w \<Longrightarrow> log_inv w"
  by (induction rule: rtranclp_induct) (auto intro: log_inv_start log_step_keeps)

text \<open>C35: with the handler of the constructor, in every reachable state no channel holds more than 100 jobs, a
  marked record was printed by the worker of its level or has none, and each level prints, within a session and
  a partition, in the order of the offsets and nothing twice.\<close>

theorem log_workers_in_order:
  assumes "(log_step mk)\<^sup>*\<^sup>* (log_start newConsumerGroupHandler records) w"
  shows "length (chan_jobs (level_chan l (lw_handler w))) \<le> 100 \<and>
    sorted_wrt log_before (map snd (filter (\<lambda>x. fst x = l) (lw_printed w))) \<and>
    (\<forall>(p, off) \<in> lw_marked w. \<forall>e. route (lw_records w p ! off) = Some (l, e) \<longrightarrow>
       (\<exists>j. (l, j) \<in> set (lw_printed w) \<and> lj_partition j = p \<and> lj_offset j = off \<and> lj_event j = e))"
proof (intro conjI)
  note inv = log_reachable_inv [OF assms]
  note lv = log_invD(1) [OF inv, of l]
  show "length (chan_jobs (level_chan l (lw_handler w))) \<le> 100" using lv by (simp add: level_inv_def jobBuffer_def)
  show "sorted_wrt log_before (map snd (filter (\<lambda>x. fst x = l) (lw_printed w)))"
    using lv unfolding level_inv_def printed_at_def by (simp only: sorted_wrt_append)
  show "\<forall>(p, off) \<in> lw_marked w. \<forall>e. route (lw_records w p ! off) = Some (l, e) \<longrightarrow>
       (\<exists>j. (l, j) \<in> set (lw_printed w) \<and> lj_partition j = p \<and> lj_offset j = off \<and> lj_event j = e)"
    using log_invD(2) [OF inv] by (fastforce simp: handled_def printed_at_def)
qed

subsection \<open>Runs\<close>

definition info_job :: "nat \<Rightarrow> log_job" where
  "info_job session = \<lparr>lj_event = publisher_message zero_time, lj_partition = 0, lj_offset = 0, lj_session = session\<rparr>"

definition one_partition :: "bytes list \<Rightarrow> nat \<Rightarrow> bytes list" where
  "one_partition bs p = (if p = 0 then bs else [])"

text \<open>The record of the publisher is taken over, received, printed and marked.\<close>

definition handed_over :: "bytes list \<Rightarrow> log_world" where
  "handed_over bs = (log_start newConsumerGroupHandler (one_partition bs))
     \<lparr>lw_next := (\<lambda>_. 0)(0 := 1), lw_handler := newConsumerGroupHandler\<lparr>lh_infoCh := Chan [info_job 0]\<rparr>\<rparr>"

lemma zero_time_valid: "valid_time zero_time"
  by (simp add: valid_time_def zero_time_def days_in_month_def)

lemma hand_over_step:
  assumes "route b = Some (Information, publisher_message zero_time)"
  shows "log_step latest (log_start newConsumerGroupHandler (one_partition (b # bs))) (handed_over (b # bs))"
  using assms
  by (intro lg_claim [of latest 0]) (simp add: claim_next_def claim_turn_cases handed_over_def log_start_def newConsumerGroupHandler_def
      one_partition_def info_job_def jobBuffer_def)

theorem log_workers_in_order_witness:
  "\<exists>b w. (log_step latest)\<^sup>*\<^sup>* (log_start newConsumerGroupHandler (one_partition [b])) w \<and> lw_marked w = {(0, 0)} \<and>
     (Information, info_job 0) \<in> set (lw_printed w) \<and> sorted_wrt log_before [info_job 0] \<and>
     length (chan_jobs (level_chan Information (lw_handler w))) \<le> 100"
proof -
  obtain b where b: "route b = Some (Information, publisher_message zero_time)"
    using publisher_routed [OF zero_time_valid] by blast
  let ?s = "log_start newConsumerGroupHandler (one_partition [b])"
  let ?a = "handed_over [b]"
  let ?b = "?a\<lparr>lw_handler := newConsumerGroupHandler, lw_worker := (\<lambda>_. Idle)(Information := Received (info_job 0))\<rparr>"
  let ?c = "?b\<lparr>lw_worker := (\<lambda>_. Idle)(Information := Printed (info_job 0)), lw_printed := [(Information, info_job 0)]\<rparr>"
  let ?d = "MarkMessage latest 0 0 (?c\<lparr>lw_worker := (\<lambda>_. Idle)\<rparr>)"
  have "log_step latest ?s ?a" by (rule hand_over_step [OF b])
  moreover have "log_step latest ?a ?b"
    by (rule lg_worker [of latest Information]) (simp add: worker_step_def handed_over_def log_start_def newConsumerGroupHandler_def)
  moreover have "log_step latest ?b ?c"
    by (rule lg_worker [of latest Information]) (simp add: worker_step_def handed_over_def log_start_def info_job_def)
  moreover have "log_step latest ?c ?d"
    by (rule lg_worker [of latest Information]) (simp add: worker_step_def handed_over_def log_start_def info_job_def fun_upd_idem)
  ultimately have run: "(log_step latest)\<^sup>*\<^sup>* ?s ?d" by (simp add: converse_rtranclp_into_rtranclp)
  have m: "lw_marked ?d = {(0, 0)}" "lw_printed ?d = [(Information, info_job 0)]" by (simp_all add: handed_over_def log_start_def)
  from log_workers_in_order [OF run, of Information]
  have "length (chan_jobs (level_chan Information (lw_handler ?d))) \<le> 100" "sorted_wrt log_before [info_job 0]"
    unfolding m(2) by simp_all
  with run m show ?thesis by (intro exI [of _ b] exI [of _ ?d]) simp
qed

text \<open>
  A record that waits in a channel is passed over when a later one is marked at once: the offset behind both is
  committed, the next session starts there, and the worker drops the job of the old session.
\<close>

lemma log_record_lost:
  "\<exists>b w. route b \<noteq> None \<and> (log_step latest)\<^sup>*\<^sup>* (log_start newConsumerGroupHandler (one_partition [b, ''x''])) w \<and>
     lw_committed w 0 = 2 \<and> lw_next w 0 = 2 \<and> lw_printed w = [] \<and> lw_handler w = newConsumerGroupHandler \<and> lw_worker w = (\<lambda>_. Idle)"
proof -
  obtain b where b: "route b = Some (Information, publisher_message zero_time)"
    using publisher_routed [OF zero_time_valid] by blast
  let ?s = "log_start newConsumerGroupHandler (one_partition [b, ''x''])"
  let ?a = "handed_over [b, ''x'']"
  let ?b = "MarkMessage latest 0 1 (?a\<lparr>lw_next := (\<lambda>_. 0)(0 := 2)\<rparr>)"
  let ?c = "?b\<lparr>lw_committed := (lw_committed ?b)(0 := lw_mark ?b 0)\<rparr>"
  let ?d = "new_session (lw_committed ?c) ?c"
  let ?e = "?d\<lparr>lw_handler := newConsumerGroupHandler, lw_worker := (\<lambda>_. Idle)(Information := Received (info_job 0))\<rparr>"
  let ?f = "?e\<lparr>lw_worker := (\<lambda>_. Idle)\<rparr>"
  have "log_step latest ?s ?a" by (rule hand_over_step [OF b])
  moreover have "log_step latest ?a ?b"
    by (rule lg_claim [of latest 0]) (simp add: claim_next_def claim_turn_cases no_event_routed handed_over_def log_start_def one_partition_def numeral_2_eq_2)
  moreover have "log_step latest ?b ?c" by (rule lg_commit)
  moreover have "log_step latest ?c ?d" by (rule lg_session) simp
  moreover have "log_step latest ?d ?e"
    by (rule lg_worker [of latest Information])
      (simp add: worker_step_def new_session_def handed_over_def log_start_def newConsumerGroupHandler_def)
  moreover have "log_step latest ?e ?f"
    by (rule lg_worker [of latest Information])
      (simp add: worker_step_def new_session_def handed_over_def log_start_def info_job_def fun_upd_idem)
  ultimately have "(log_step latest)\<^sup>*\<^sup>* ?s ?f" by (simp add: converse_rtranclp_into_rtranclp)
  with b show ?thesis
    by (intro exI [of _ b] exI [of _ ?f]) (simp add: new_session_def MarkMessage_def handed_over_def log_start_def latest_def)
qed

text \<open>In one environment both ends use the same brokers and the same topic.\<close>

lemma log_ends_agree:
  "\<lbrakk>consumer_main connect env = Some c; producer_of_main connect' env = Some p\<rbrakk> \<Longrightarrow>
     kc_brokers c = kp_brokers p \<and> kc_topic c = kp_topic p"
  by (auto simp: consumer_main_def producer_of_main_def CreateConsumer_def CreateProducer_def Let_def split: if_splits)

end
