(* ===== verification/Ws_Client.thy ===== *)
theory Ws_Client
  imports Go_Url Wire_Roundtrip Ws_Handler
begin

text \<open>
  The command-line client (\<^verbatim>\<open>wsClient/main.go\<close>): it dials the WebSocket endpoint with its identifier and rooms,
  sends one message, and reads frames until it is stopped. The message is sent again on every new
  connection until an acknowledgement or a rejection has arrived.
\<close>

subsection \<open>Frames from the server\<close>

record decodedFrame =
  df_kind :: string
  df_accepted :: "AcceptedAck option"
  df_rejected :: "RejectedAck option"
  df_event :: "Event option"

datatype client_error =
    DecodeType | DecodeFrame | InvalidFrame contract_error | ParseURL | UnusableURL | ParamsRequired
  | RandFailed | NoRoomIDs | SendRoomNotJoined

definition unmarshal_type :: "bytes \<Rightarrow> string option" where
  "unmarshal_type = unmarshal (field decode_string [] ''type'') []"

definition unmarshal_AcceptedAck :: "bytes \<Rightarrow> AcceptedAck option" where
  "unmarshal_AcceptedAck =
     unmarshal decode_AcceptedAck \<lparr>ack_Type = [], ack_Version = 0, ack_MessageID = [], ack_ClientMessageID = [],
       ack_RoomID = [], ack_RoomSeq = 0, ack_CreatedAt = zero_time\<rparr>"

definition unmarshal_RejectedAck :: "bytes \<Rightarrow> RejectedAck option" where
  "unmarshal_RejectedAck =
     unmarshal decode_RejectedAck \<lparr>rej_Type = [], rej_Version = 0, rej_ClientMessageID = [], rej_ErrorCode = []\<rparr>"

definition decodeServerFrame :: "bytes \<Rightarrow> client_error + decodedFrame" where
  "decodeServerFrame data =
     (case unmarshal_type data of
        None \<Rightarrow> Inl DecodeType
      | Some ty \<Rightarrow>
          if ty = AcceptedFrameType then
            (case unmarshal_AcceptedAck data of
               None \<Rightarrow> Inl DecodeFrame
             | Some ack \<Rightarrow>
                 (case AcceptedAck_Validate ack of
                    Some e \<Rightarrow> Inl (InvalidFrame e)
                  | None \<Rightarrow> Inr \<lparr>df_kind = AcceptedFrameType, df_accepted = Some ack, df_rejected = None, df_event = None\<rparr>))
          else if ty = RejectedFrameType then
            (case unmarshal_RejectedAck data of
               None \<Rightarrow> Inl DecodeFrame
             | Some rej \<Rightarrow>
                 (case RejectedAck_Validate rej of
                    Some e \<Rightarrow> Inl (InvalidFrame e)
                  | None \<Rightarrow> Inr \<lparr>df_kind = RejectedFrameType, df_accepted = None, df_rejected = Some rej, df_event = None\<rparr>))
          else
            (case unmarshal_Event data of
               None \<Rightarrow> Inl DecodeFrame
             | Some event \<Rightarrow>
                 (case Event_Validate event of
                    Some e \<Rightarrow> Inl (InvalidFrame e)
                  | None \<Rightarrow> Inr \<lparr>df_kind = ''event'', df_accepted = None, df_rejected = None, df_event = Some event\<rparr>)))"

subsection \<open>Rooms and the request\<close>

definition envOr :: "env_vars \<Rightarrow> string \<Rightarrow> string \<Rightarrow> string" where
  "envOr env name fallback = (let value = TrimSpace (Getenv env name) in if value \<noteq> [] then value else fallback)"

fun collect_rooms :: "string list \<Rightarrow> string list \<Rightarrow> string list" where
  "collect_rooms [] rooms = rooms"
| "collect_rooms (part # parts) rooms =
     (let roomID = TrimSpace part in
      if roomID = [] \<or> roomID \<in> set rooms then collect_rooms parts rooms
      else collect_rooms parts (rooms @ [roomID]))"

definition splitRooms :: "string \<Rightarrow> string list" where
  "splitRooms value = collect_rooms (Split (CHR '','') value) []"

fun containsRoom :: "string list \<Rightarrow> string \<Rightarrow> bool" where
  "containsRoom [] roomID = False"
| "containsRoom (candidate # roomIDs) roomID = (candidate = roomID \<or> containsRoom roomIDs roomID)"

definition sampleSendRequest :: "8 word list option \<Rightarrow> string \<Rightarrow> client_error + SendRequest" where
  "sampleSendRequest random roomID =
     (case random of
        None \<Rightarrow> Inl RandFailed
      | Some randomID \<Rightarrow>
          Inr \<lparr>req_Type = SendFrameType, req_Version = Version, req_ClientMessageID = hex_encode randomID, req_RoomID = roomID,
               req_Payload = object [member ''text'' (quote ''test msg.'')]\<rparr>)"

definition marshal_SendRequest :: "SendRequest \<Rightarrow> bytes option" where
  "marshal_SendRequest r =
     Option.bind (marshal_raw (req_Payload r)) (\<lambda>p.
       Some (object_text [(''type'', quote (req_Type r)), (''version'', show_int (req_Version r)),
         (''client_message_id'', quote (req_ClientMessageID r)), (''room_id'', quote (req_RoomID r)), (''payload'', p)]))"

subsection \<open>The address\<close>

text \<open>
  A parsed URL: the parts the client looks at, and the rest. Reading and writing the whole URL are the arguments
  \<open>parse\<close> and \<open>show\<close>.
\<close>

record url =
  u_Scheme :: string
  u_Host :: string
  u_RawQuery :: string
  u_rest :: string

definition websocketURL ::
  "(string \<Rightarrow> url option) \<Rightarrow> (url \<Rightarrow> string) \<Rightarrow> string \<Rightarrow> string \<Rightarrow> string list \<Rightarrow> client_error + string" where
  "websocketURL parse show endpoint clientID roomIDs =
     (case parse endpoint of
        None \<Rightarrow> Inl ParseURL
      | Some parsed \<Rightarrow>
          if u_Scheme parsed \<noteq> ''ws'' \<and> u_Scheme parsed \<noteq> ''wss'' \<or> u_Host parsed = [] then Inl UnusableURL
          else if TrimSpace clientID = [] \<or> roomIDs = [] then Inl ParamsRequired
          else Inr (show (parsed\<lparr>u_RawQuery := Values_Encode
            (Values_Set ''room_ids'' (Join (CHR '','') roomIDs) (Values_Set ''client_id'' clientID (parse_query (u_RawQuery parsed))))\<rparr>)))"

subsection \<open>The loop\<close>

text \<open>
  A round of the loop: the outcome of the dial and, of a connection, whether the request could be written and
  the data of the messages read until the read failed; then whether the wait for the next attempt ended (it is
  cut short when the client is stopped).
\<close>

datatype dial = DialFailed | Dialled bool "bytes list"

record client_run =
  cr_pending :: bool
  cr_sent :: "bytes list"
  cr_frames :: "decodedFrame list"

definition take_frame :: "decodedFrame \<Rightarrow> client_run \<Rightarrow> client_run" where
  "take_frame f st =
     (let st1 = st\<lparr>cr_frames := cr_frames st @ [f]\<rparr> in
      if df_kind f = AcceptedFrameType \<or> df_kind f = RejectedFrameType then st1\<lparr>cr_pending := False\<rparr> else st1)"

fun read_frames :: "bytes list \<Rightarrow> client_run \<Rightarrow> client_run" where
  "read_frames [] st = st"
| "read_frames (data # rest) st =
     (case decodeServerFrame data of
        Inl _ \<Rightarrow> read_frames rest st
      | Inr frame \<Rightarrow> read_frames rest (take_frame frame st))"

text \<open>One connection. The newline that \<^verbatim>\<open>WriteJSON\<close> puts behind the text is left out; to the reader it is white space.\<close>

definition client_round :: "SendRequest \<Rightarrow> dial \<Rightarrow> client_run \<Rightarrow> client_run" where
  "client_round request d st =
     (case d of
        DialFailed \<Rightarrow> st
      | Dialled written reads \<Rightarrow>
          if cr_pending st then
            (case marshal_SendRequest request of
               Some text \<Rightarrow> if written then read_frames reads (st\<lparr>cr_sent := cr_sent st @ [text]\<rparr>) else st
             | None \<Rightarrow> st)
          else read_frames reads st)"

fun client_loop :: "SendRequest \<Rightarrow> (dial \<times> bool) list \<Rightarrow> client_run \<Rightarrow> client_run" where
  "client_loop request [] st = st"
| "client_loop request ((d, waited) # rounds) st =
     (if waited then client_loop request rounds (client_round request d st) else client_round request d st)"

definition runClient ::
  "(string \<Rightarrow> url option) \<Rightarrow> (url \<Rightarrow> string) \<Rightarrow> (dial \<times> bool) list \<Rightarrow> string \<Rightarrow> string \<Rightarrow> string list \<Rightarrow> SendRequest
     \<Rightarrow> client_error + (string \<times> client_run)" where
  "runClient parse show rounds endpoint clientID roomIDs request =
     (case websocketURL parse show endpoint clientID roomIDs of
        Inl e \<Rightarrow> Inl e
      | Inr connectionURL \<Rightarrow>
          Inr (connectionURL, client_loop request rounds \<lparr>cr_pending = True, cr_sent = [], cr_frames = []\<rparr>))"

definition client_main ::
  "(string \<Rightarrow> url option) \<Rightarrow> (url \<Rightarrow> string) \<Rightarrow> env_vars \<Rightarrow> 8 word list option \<Rightarrow> (dial \<times> bool) list
     \<Rightarrow> client_error + (string \<times> client_run)" where
  "client_main parse show env random rounds =
     (let endpoint = envOr env ''WS_URL'' ''ws://localhost:80/ws'';
          clientID = envOr env ''WS_CLIENT_ID'' ''abc123'';
          roomIDs = splitRooms (envOr env ''WS_ROOM_IDS'' ''1,2'') in
      if roomIDs = [] then Inl NoRoomIDs
      else let sendRoomID = envOr env ''WS_SEND_ROOM_ID'' ''2'' in
        if \<not> containsRoom roomIDs sendRoomID then Inl SendRoomNotJoined
        else case sampleSendRequest random sendRoomID of
          Inl e \<Rightarrow> Inl e
        | Inr request \<Rightarrow> runClient parse show rounds endpoint clientID roomIDs request)"

end
