(* ===== verification/Client_Props.thy ===== *)
theory Client_Props
  imports Ws_Client Message_Props
begin

text \<open>
  The properties of the client: it reads every frame a server writes, the server reads the address it dials, and
  its repeated sends store the message at most once.
\<close>

subsection \<open>Reading the server's frames\<close>

lemma fold_names:
  "fold_name ''type'' = ''TYPE''"
  "fold_name ''version'' = ''VERSION''"
  "fold_name ''message_id'' = ''MESSAGE_ID''"
  "fold_name ''client_message_id'' = ''CLIENT_MESSAGE_ID''"
  "fold_name ''room_id'' = ''ROOM_ID''"
  "fold_name ''room_seq'' = ''ROOM_SEQ''"
  "fold_name ''created_at'' = ''CREATED_AT''"
  "fold_name ''error_code'' = ''ERROR_CODE''"
  "fold_name ''payload'' = ''PAYLOAD''"
  by code_simp+

lemma Ack_field_values:
  "field_values ''type'' [(''type'', a), (''version'', b), (''message_id'', c), (''client_message_id'', d),
     (''room_id'', e), (''room_seq'', f), (''created_at'', g)] = [a]"
  "field_values ''version'' [(''type'', a), (''version'', b), (''message_id'', c), (''client_message_id'', d),
     (''room_id'', e), (''room_seq'', f), (''created_at'', g)] = [b]"
  "field_values ''message_id'' [(''type'', a), (''version'', b), (''message_id'', c), (''client_message_id'', d),
     (''room_id'', e), (''room_seq'', f), (''created_at'', g)] = [c]"
  "field_values ''client_message_id'' [(''type'', a), (''version'', b), (''message_id'', c), (''client_message_id'', d),
     (''room_id'', e), (''room_seq'', f), (''created_at'', g)] = [d]"
  "field_values ''room_id'' [(''type'', a), (''version'', b), (''message_id'', c), (''client_message_id'', d),
     (''room_id'', e), (''room_seq'', f), (''created_at'', g)] = [e]"
  "field_values ''room_seq'' [(''type'', a), (''version'', b), (''message_id'', c), (''client_message_id'', d),
     (''room_id'', e), (''room_seq'', f), (''created_at'', g)] = [f]"
  "field_values ''created_at'' [(''type'', a), (''version'', b), (''message_id'', c), (''client_message_id'', d),
     (''room_id'', e), (''room_seq'', f), (''created_at'', g)] = [g]"
  by (simp_all add: field_values_def fold_names del: fold_name.simps)

lemma Rejection_field_values:
  "field_values ''type'' [(''type'', a), (''version'', b), (''client_message_id'', c), (''error_code'', d)] = [a]"
  "field_values ''version'' [(''type'', a), (''version'', b), (''client_message_id'', c), (''error_code'', d)] = [b]"
  "field_values ''client_message_id'' [(''type'', a), (''version'', b), (''client_message_id'', c), (''error_code'', d)] = [c]"
  "field_values ''error_code'' [(''type'', a), (''version'', b), (''client_message_id'', c), (''error_code'', d)] = [d]"
  "field_values ''type'' [(''type'', a), (''version'', b), (''error_code'', d)] = [a]"
  "field_values ''version'' [(''type'', a), (''version'', b), (''error_code'', d)] = [b]"
  "field_values ''client_message_id'' [(''type'', a), (''version'', b), (''error_code'', d)] = []"
  "field_values ''error_code'' [(''type'', a), (''version'', b), (''error_code'', d)] = [d]"
  by (simp_all add: field_values_def fold_names del: fold_name.simps)

lemma Event_has_no_type:
  "field_values ''type'' [(''version'', a), (''message_id'', b), (''client_message_id'', c),
     (''room_id'', d), (''room_seq'', e), (''created_at'', f), (''payload'', g)] = []"
  by (simp add: field_values_def fold_names del: fold_name.simps)

lemma utf8_frame_types: "utf8_valid AcceptedFrameType" "utf8_valid RejectedFrameType" "utf8_valid SendFrameType"
  by (simp_all add: utf8_valid_ascii AcceptedFrameType_def RejectedFrameType_def SendFrameType_def)

lemma int64_Version: "in_int64 Version"
  by (simp add: in_int64_def Version_def)

lemma decode_accepted:
  assumes "marshal_frame (Accepted a) = Some s" and "AcceptedAck_Validate a = None" and "valid_time (ack_CreatedAt a)"
    and "in_int64 (ack_RoomSeq a)" and "utf8_valid (ack_MessageID a)" and "utf8_valid (ack_ClientMessageID a)" and "utf8_valid (ack_RoomID a)"
  shows "decodeServerFrame s = Inr \<lparr>df_kind = AcceptedFrameType, df_accepted = Some a, df_rejected = None, df_event = None\<rparr>"
proof -
  obtain t where t: "marshal_time (ack_CreatedAt a) = Some t" using marshal_time_valid assms(3) by blast
  have a: "ack_Type a = AcceptedFrameType" "ack_Version a = Version" using assms(2) by (auto simp: validate_simps split: if_splits)
  let ?kvs = "[(''type'', quote (ack_Type a)), (''version'', show_int (ack_Version a)), (''message_id'', quote (ack_MessageID a)),
    (''client_message_id'', quote (ack_ClientMessageID a)), (''room_id'', quote (ack_RoomID a)),
    (''room_seq'', show_int (ack_RoomSeq a)), (''created_at'', t)]"
  have s: "s = object_text ?kvs" using assms(1) t by (simp add: marshal_AcceptedAck_def object_text_def)
  have u: "unmarshal dec zero s = dec ?kvs" for dec and zero :: 'a
    unfolding s by (rule unmarshal_struct) (use marshal_time_token [OF t] in \<open>simp add: token_string token_int\<close>)
  have "unmarshal_type s = Some AcceptedFrameType"
    by (simp add: unmarshal_type_def u field_def Ack_field_values decode_string_quote a utf8_frame_types)
  moreover have "unmarshal_AcceptedAck s = Some a"
    using a by (simp add: unmarshal_AcceptedAck_def u decode_AcceptedAck_def field_def Ack_field_values decode_string_quote
        decode_int_show marshal_time_decode [OF t] utf8_frame_types assms int64_Version)
  ultimately show ?thesis using assms(2) by (simp add: decodeServerFrame_def)
qed

lemma decode_rejected:
  assumes "marshal_frame (Rejected r) = Some s" and "RejectedAck_Validate r = None"
    and "utf8_valid (rej_ClientMessageID r)" and "utf8_valid (rej_ErrorCode r)"
  shows "decodeServerFrame s = Inr \<lparr>df_kind = RejectedFrameType, df_accepted = None, df_rejected = Some r, df_event = None\<rparr>"
proof -
  have r: "rej_Type r = RejectedFrameType" "rej_Version r = Version" using assms(2) by (auto simp: validate_simps split: if_splits)
  let ?kvs = "[(''type'', quote (rej_Type r)), (''version'', show_int (rej_Version r))] @
    (if rej_ClientMessageID r = [] then [] else [(''client_message_id'', quote (rej_ClientMessageID r))]) @
    [(''error_code'', quote (rej_ErrorCode r))]"
  have s: "s = object_text ?kvs" using assms(1) by (auto simp: marshal_RejectedAck_def object_text_def)
  have u: "unmarshal dec zero s = dec ?kvs" for dec and zero :: 'a
    unfolding s by (rule unmarshal_struct) (simp add: token_string token_int)
  have "unmarshal_type s = Some RejectedFrameType"
    by (simp add: unmarshal_type_def u field_def Rejection_field_values decode_string_quote r utf8_frame_types)
  moreover have "unmarshal_RejectedAck s = Some r"
    using r by (simp add: unmarshal_RejectedAck_def u decode_RejectedAck_def field_def Rejection_field_values decode_string_quote
        decode_int_show utf8_frame_types assms int64_Version)
  moreover have "RejectedFrameType \<noteq> AcceptedFrameType" by (simp add: RejectedFrameType_def AcceptedFrameType_def)
  ultimately show ?thesis using assms(2) by (simp add: decodeServerFrame_def)
qed

lemma decode_event:
  assumes "marshal_Event e = Some s" and "Event_Validate e = None" and "valid_time (ev_CreatedAt e)" and "in_int64 (ev_RoomSeq e)"
    and "utf8_valid (ev_MessageID e)" and "utf8_valid (ev_ClientMessageID e)" and "utf8_valid (ev_RoomID e)"
    and "marshal_raw (ev_Payload e) = Some p" and "token_at (max_nesting - 1) p" and "token_at max_nesting p" and "Valid p"
  shows "decodeServerFrame s =
    Inr \<lparr>df_kind = ''event'', df_accepted = None, df_rejected = None, df_event = Some (e\<lparr>ev_Payload := p\<rparr>)\<rparr>"
proof -
  have v: "in_int64 (ev_Version e)" using assms(2) int64_Version by (simp add: Event_valid_iff)
  obtain t where t: "marshal_time (ev_CreatedAt e) = Some t" using marshal_time_valid assms(3) by blast
  let ?kvs = "[(''version'', show_int (ev_Version e)), (''message_id'', quote (ev_MessageID e)),
    (''client_message_id'', quote (ev_ClientMessageID e)), (''room_id'', quote (ev_RoomID e)),
    (''room_seq'', show_int (ev_RoomSeq e)), (''created_at'', t), (''payload'', p)]"
  have s: "s = object_text ?kvs" using assms(1,8) t by (simp add: marshal_Event_def object_text_def)
  have "unmarshal_type s = field decode_string [] ''type'' ?kvs"
    unfolding unmarshal_type_def s
    by (rule unmarshal_struct) (use assms(9,10) marshal_time_token [OF t] in \<open>simp add: token_string token_int\<close>)
  then have ty: "unmarshal_type s = Some []" by (simp add: field_def Event_has_no_type)
  have "unmarshal_Event s = Some (e\<lparr>ev_Payload := p\<rparr>)"
    by (rule Event_roundtrip) (use assms v in simp_all)
  moreover have "Event_Validate (e\<lparr>ev_Payload := p\<rparr>) = None" using assms(2,11) by (simp add: Event_valid_iff)
  moreover have "[] \<noteq> AcceptedFrameType" "[] \<noteq> RejectedFrameType" by (simp_all add: AcceptedFrameType_def RejectedFrameType_def)
  ultimately show ?thesis using ty by (simp add: decodeServerFrame_def)
qed

text \<open>The frames as the client holds them, and what their texts need to be read back exactly.\<close>

fun decoded :: "frame \<Rightarrow> decodedFrame" where
  "decoded (Accepted a) = \<lparr>df_kind = AcceptedFrameType, df_accepted = Some a, df_rejected = None, df_event = None\<rparr>"
| "decoded (Rejected r) = \<lparr>df_kind = RejectedFrameType, df_accepted = None, df_rejected = Some r, df_event = None\<rparr>"

fun frame_ok :: "frame \<Rightarrow> bool" where
  "frame_ok (Accepted a) \<longleftrightarrow> AcceptedAck_Validate a = None \<and> valid_time (ack_CreatedAt a) \<and> in_int64 (ack_RoomSeq a) \<and>
     utf8_valid (ack_MessageID a) \<and> utf8_valid (ack_ClientMessageID a) \<and> utf8_valid (ack_RoomID a)"
| "frame_ok (Rejected r) \<longleftrightarrow> RejectedAck_Validate r = None \<and> utf8_valid (rej_ClientMessageID r) \<and> utf8_valid (rej_ErrorCode r)"

definition event_ok :: "Event \<Rightarrow> bytes \<Rightarrow> bool" where
  "event_ok e p \<longleftrightarrow> Event_Validate e = None \<and> valid_time (ev_CreatedAt e) \<and> in_int64 (ev_RoomSeq e) \<and> utf8_valid (ev_MessageID e) \<and>
     utf8_valid (ev_ClientMessageID e) \<and> utf8_valid (ev_RoomID e) \<and> marshal_raw (ev_Payload e) = Some p \<and>
     token_at (max_nesting - 1) p \<and> token_at max_nesting p \<and> Valid p"

text \<open>C26: the client reads every frame the server writes: the text of a valid acknowledgement or rejection is decoded
  to that frame under its own kind, and the text of a valid event to the event with its payload in compact form.\<close>

theorem client_reads_server_frames:
  "(\<forall>f s. frame_ok f \<longrightarrow> marshal_frame f = Some s \<longrightarrow> decodeServerFrame s = Inr (decoded f)) \<and>
   (\<forall>e p s. event_ok e p \<longrightarrow> marshal_Event e = Some s \<longrightarrow> decodeServerFrame s =
      Inr \<lparr>df_kind = ''event'', df_accepted = None, df_rejected = None, df_event = Some (e\<lparr>ev_Payload := p\<rparr>)\<rparr>)"
proof (intro conjI allI impI)
  fix f s
  assume "frame_ok f" "marshal_frame f = Some s"
  then show "decodeServerFrame s = Inr (decoded f)" by (cases f) (simp_all add: decode_accepted decode_rejected)
next
  fix e p s
  assume "event_ok e p" "marshal_Event e = Some s"
  then show "decodeServerFrame s =
      Inr \<lparr>df_kind = ''event'', df_accepted = None, df_rejected = None, df_event = Some (e\<lparr>ev_Payload := p\<rparr>)\<rparr>"
    unfolding event_ok_def by (intro decode_event) simp_all
qed

lemma hex_encode_bytes: "c \<in> set (hex_encode bs) \<Longrightarrow> 48 \<le> byte_val c \<and> byte_val c < 128"
proof (induction bs)
  case (Cons b bs)
  have "48 \<le> byte_val (hexdigit n) \<and> byte_val (hexdigit n) < 128" if "n < 16" for n
    using that by (simp add: hexdigit_def)
  from this [OF unat_byte_div16 [of b]] this [of "unat b mod 16"] Cons show ?case by auto
qed simp

lemma uuid_text_ascii: "c \<in> set (uuid_text u) \<Longrightarrow> byte_val c < 128"
  by (auto simp: uuid_text_def dest: hex_encode_bytes)

lemma sample_time_valid: "valid_time sample_time"
  by (simp add: valid_time_def sample_time_def days_in_month_def)

theorem client_reads_server_frames_witness:
  "\<exists>s. marshal_frame (Accepted (ack_of sample_event)) = Some s \<and> decodeServerFrame s = Inr (decoded (Accepted (ack_of sample_event)))"
proof -
  obtain t where "marshal_time sample_time = Some t" using marshal_time_valid sample_time_valid by blast
  then obtain s where s: "marshal_frame (Accepted (ack_of sample_event)) = Some s"
    by (simp add: marshal_AcceptedAck_def ack_of_def sample_event_def)
  have "AcceptedAck_Validate (ack_of sample_event) = None" using sample_valid by (intro ack_of_valid)
  moreover have "utf8_valid (ack_MessageID (ack_of sample_event))" "utf8_valid (ack_ClientMessageID (ack_of sample_event))"
      "utf8_valid (ack_RoomID (ack_of sample_event))"
    by (simp_all add: ack_of_def sample_event_def uuid_text_ascii utf8_valid_ascii)
  ultimately have "frame_ok (Accepted (ack_of sample_event))"
    using sample_time_valid by (simp add: ack_of_def sample_event_def in_int64_def)
  with client_reads_server_frames s show ?thesis by blast
qed

subsection \<open>Rooms\<close>

lemma collect_rooms_props:
  assumes "distinct rooms" and "\<forall>r \<in> set rooms. ok r" and "\<forall>p \<in> set parts. TrimSpace p \<noteq> [] \<longrightarrow> ok (TrimSpace p)"
  shows "distinct (collect_rooms parts rooms) \<and> (\<forall>r \<in> set (collect_rooms parts rooms). ok r) \<and>
    set (collect_rooms parts rooms) = set rooms \<union> {TrimSpace p |p. p \<in> set parts \<and> TrimSpace p \<noteq> []}"
  using assms
proof (induction parts rooms rule: collect_rooms.induct)
  case (2 part parts rooms)
  show ?case
  proof (cases "TrimSpace part = [] \<or> TrimSpace part \<in> set rooms")
    case True
    with 2 show ?thesis by (auto simp: Let_def)
  next
    case False
    with 2 show ?thesis by (auto simp: Let_def)
  qed
qed simp

lemma suffix_set: "\<exists>p. s = p @ t \<Longrightarrow> set t \<subseteq> set s"
  by auto

lemma prefix_set: "\<exists>t. s = p @ t \<Longrightarrow> set p \<subseteq> set s"
  by auto

lemmas set_strip = suffix_set [OF strip_suffix]
lemmas set_TrimRight = prefix_set [OF TrimRight_prefix]

lemma set_TrimSpace: "set (TrimSpace s) \<subseteq> set s"
  unfolding TrimSpace_def TrimLeft_def by (rule subset_trans [OF set_TrimRight set_strip])

lemma splitRooms_props:
  "distinct (splitRooms v) \<and> (\<forall>r \<in> set (splitRooms v). r \<noteq> [] \<and> TrimSpace r = r \<and> CHR '','' \<notin> set r) \<and>
   set (splitRooms v) = {TrimSpace p |p. p \<in> set (Split (CHR '','') v) \<and> TrimSpace p \<noteq> []}"
proof -
  define ok where "ok r \<longleftrightarrow> r \<noteq> [] \<and> TrimSpace r = r \<and> CHR '','' \<notin> set r" for r
  have "ok (TrimSpace p)" if "p \<in> set (Split (CHR '','') v)" "TrimSpace p \<noteq> []" for p
    unfolding ok_def using Split_part_no_sep [OF that(1)] set_TrimSpace [of p] that(2) TrimSpace_idem [of p] by blast
  then have "\<forall>p \<in> set (Split (CHR '','') v). TrimSpace p \<noteq> [] \<longrightarrow> ok (TrimSpace p)" by blast
  from collect_rooms_props [OF _ _ this, of "[]"]
  have "distinct (splitRooms v) \<and> (\<forall>r \<in> set (splitRooms v). ok r) \<and>
      set (splitRooms v) = {TrimSpace p |p. p \<in> set (Split (CHR '','') v) \<and> TrimSpace p \<noteq> []}"
    unfolding splitRooms_def by simp
  then show ?thesis unfolding ok_def .
qed

lemma splitRooms_not_blank:
  assumes "r \<in> set (splitRooms v)"
  shows "\<not> blank r"
proof -
  have "r \<noteq> [] \<and> TrimSpace r = r" using splitRooms_props [of v, THEN conjunct2, THEN conjunct1] assms by simp
  then show ?thesis by (simp add: blank_def)
qed

lemma containsRoom_iff [simp]: "containsRoom rooms r \<longleftrightarrow> r \<in> set rooms"
  by (induction rooms) auto

subsection \<open>The address is understood\<close>

lemma distinct_Values_Set: "distinct (map fst vs) \<Longrightarrow> distinct (map fst (Values_Set k v vs))"
  by (simp add: Values_Set_def distinct_update)

lemma pairs_count_Set: "pairs_count (Values_Set k v vs) \<le> Suc (pairs_count vs)"
  using pairs_count_update [of k "[v]" vs] by (simp add: Values_Set_def)

lemma map_of_Values_Set: "map_of (Values_Set k v vs) q = (if q = k then Some [v] else map_of vs q)"
  by (simp add: Values_Set_def update_conv')

lemma query_params:
  assumes "length (Split (CHR ''&'') rawq) \<le> max_params - 2" and "clientID \<noteq> []" and "rooms \<noteq> []"
    and "\<forall>r \<in> set rooms. r \<noteq> [] \<and> CHR '','' \<notin> set r"
  shows "getParams (parse_query (Values_Encode
      (Values_Set ''room_ids'' (Join (CHR '','') rooms) (Values_Set ''client_id'' clientID (parse_query rawq))))) = Inr (clientID, rooms)"
proof -
  let ?vs = "Values_Set ''room_ids'' (Join (CHR '','') rooms) (Values_Set ''client_id'' clientID (parse_query rawq))"
  have d: "distinct (map fst ?vs)" by (intro distinct_Values_Set distinct_parse)
  have "pairs_count ?vs \<le> Suc (Suc (pairs_count (parse_query rawq)))"
    using pairs_count_Set [of "''room_ids''"] pairs_count_Set [of "''client_id''" clientID "parse_query rawq"]
    by (meson le_trans not_less_eq_eq)
  also have "\<dots> \<le> max_params" using assms(1) pairs_count_parse [of rawq] by (simp add: max_params_def)
  finally have len: "length (pairs_of ?vs) \<le> max_params" by (simp add: length_pairs_of)
  have "map_of (parse_query (Values_Encode ?vs)) ''client_id'' = Some [clientID]"
    by (rule Values_roundtrip [OF d _ _ len]) (simp_all add: map_of_Values_Set)
  moreover have "map_of (parse_query (Values_Encode ?vs)) ''room_ids'' = Some [Join (CHR '','') rooms]"
    by (rule Values_roundtrip [OF d _ _ len]) (simp_all add: map_of_Values_Set)
  moreover have sj: "Split (CHR '','') (Join (CHR '','') rooms) = rooms" using Split_Join assms(3,4) by blast
  moreover have "Join (CHR '','') rooms \<noteq> []"
  proof
    assume "Join (CHR '','') rooms = []"
    with sj have "rooms = [[]]" by simp
    with assms(4) show False by simp
  qed
  ultimately show ?thesis using assms(2) by (simp add: getParams_def url_Get_def)
qed

lemma envOr_not_Nil: "fallback \<noteq> [] \<Longrightarrow> envOr env name fallback \<noteq> []"
  by (simp add: envOr_def Let_def)

lemma client_main_Inr:
  assumes "client_main parse show env random rounds = Inr (addr, run)"
  shows "\<exists>u request. parse (envOr env ''WS_URL'' ''ws://localhost:80/ws'') = Some u \<and>
    envOr env ''WS_SEND_ROOM_ID'' ''2'' \<in> set (splitRooms (envOr env ''WS_ROOM_IDS'' ''1,2'')) \<and>
    addr = show (u\<lparr>u_RawQuery := Values_Encode (Values_Set ''room_ids'' (Join (CHR '','') (splitRooms (envOr env ''WS_ROOM_IDS'' ''1,2'')))
      (Values_Set ''client_id'' (envOr env ''WS_CLIENT_ID'' ''abc123'') (parse_query (u_RawQuery u))))\<rparr>) \<and>
    sampleSendRequest random (envOr env ''WS_SEND_ROOM_ID'' ''2'') = Inr request \<and>
    run = client_loop request rounds \<lparr>cr_pending = True, cr_sent = [], cr_frames = []\<rparr>"
  using assms by (auto simp: client_main_def runClient_def websocketURL_def Let_def split: if_splits sum.splits option.splits)

text \<open>C28: the server reads the address the client dials: the query of the URL carries the client's identifier and
  exactly the rooms of \<^verbatim>\<open>WS_ROOM_IDS\<close>, without blanks, empty names and repetitions, among them the room it
  sends to. That writing and reading a URL keeps an escaped query is an assumption on \<^verbatim>\<open>net/url\<close>.\<close>

theorem client_address_understood:
  assumes "client_main parse show env random rounds = Inr (addr, run)"
    and "parse (envOr env ''WS_URL'' ''ws://localhost:80/ws'') = Some u" and "length (Split (CHR ''&'') (u_RawQuery u)) \<le> max_params - 2"
    and "\<forall>q. (\<forall>c \<in> set q. query_char c) \<longrightarrow> (\<exists>v. parse (show (u\<lparr>u_RawQuery := q\<rparr>)) = Some v \<and> u_RawQuery v = q)"
    and "rooms = splitRooms (envOr env ''WS_ROOM_IDS'' ''1,2'')"
  shows "\<exists>v. parse addr = Some v \<and>
    getParams (parse_query (u_RawQuery v)) = Inr (envOr env ''WS_CLIENT_ID'' ''abc123'', rooms) \<and>
    distinct rooms \<and> (\<forall>r \<in> set rooms. r \<noteq> [] \<and> TrimSpace r = r) \<and> envOr env ''WS_SEND_ROOM_ID'' ''2'' \<in> set rooms"
proof -
  define q where "q = Values_Encode (Values_Set ''room_ids'' (Join (CHR '','') rooms)
      (Values_Set ''client_id'' (envOr env ''WS_CLIENT_ID'' ''abc123'') (parse_query (u_RawQuery u))))"
  from client_main_Inr [OF assms(1)] assms(2) have main: "envOr env ''WS_SEND_ROOM_ID'' ''2'' \<in> set rooms"
    "addr = show (u\<lparr>u_RawQuery := q\<rparr>)" by (auto simp: q_def assms(5))
  have "\<forall>c \<in> set q. query_char c" using Values_Encode_chars unfolding q_def by blast
  with assms(4) obtain v where v: "parse (show (u\<lparr>u_RawQuery := q\<rparr>)) = Some v" "u_RawQuery v = q" by blast
  note rooms = splitRooms_props [of "envOr env ''WS_ROOM_IDS'' ''1,2''", folded assms(5)]
  have "getParams (parse_query q) = Inr (envOr env ''WS_CLIENT_ID'' ''abc123'', rooms)"
    unfolding q_def
  proof (rule query_params [OF assms(3)])
    show "rooms \<noteq> []" using main(1) by (metis empty_iff empty_set)
    show "\<forall>r \<in> set rooms. r \<noteq> [] \<and> CHR '','' \<notin> set r" using rooms by blast
  qed (simp add: envOr_not_Nil)
  with v main rooms show ?thesis unfolding main(2) by blast
qed

text \<open>Reading and writing a URL of the default address: the text before the first question mark, and the query.\<close>

definition demo_parse :: "string \<Rightarrow> url option" where
  "demo_parse s = (case Cut s (CHR ''?'') of
      None \<Rightarrow> Some \<lparr>u_Scheme = ''ws'', u_Host = ''localhost:80'', u_RawQuery = [], u_rest = s\<rparr>
    | Some (a, q) \<Rightarrow> Some \<lparr>u_Scheme = ''ws'', u_Host = ''localhost:80'', u_RawQuery = q, u_rest = a\<rparr>)"

definition demo_show :: "url \<Rightarrow> string" where
  "demo_show u = u_rest u @ CHR ''?'' # u_RawQuery u"

lemma envOr_unset [simp]: "envOr (\<lambda>_. None) name fallback = fallback"
  by (simp add: envOr_def Getenv_def)

lemma demo_rooms: "splitRooms ''1,2'' = [''1'', ''2'']"
  by code_simp

lemma demo_parse_default:
  "demo_parse ''ws://localhost:80/ws'' =
     Some \<lparr>u_Scheme = ''ws'', u_Host = ''localhost:80'', u_RawQuery = [], u_rest = ''ws://localhost:80/ws''\<rparr>"
  by (simp add: demo_parse_def)

lemma demo_roundtrip: "CHR ''?'' \<notin> set (u_rest u) \<Longrightarrow> \<exists>v. demo_parse (demo_show (u\<lparr>u_RawQuery := q\<rparr>)) = Some v \<and> u_RawQuery v = q"
proof -
  assume "CHR ''?'' \<notin> set (u_rest u)"
  then have "Cut (demo_show (u\<lparr>u_RawQuery := q\<rparr>)) (CHR ''?'') = Some (u_rest u, q)"
    unfolding Cut_Some_iff by (simp add: demo_show_def)
  then show ?thesis by (simp add: demo_parse_def)
qed

lemma demo_main: "\<exists>addr run. client_main demo_parse demo_show (\<lambda>_. None) (Some (replicate 16 0)) rounds = Inr (addr, run)"
proof -
  have "TrimSpace ''abc123'' \<noteq> []" by code_simp
  then show ?thesis
    by (simp add: client_main_def runClient_def websocketURL_def demo_rooms demo_parse_default sampleSendRequest_def Let_def)
qed

theorem client_address_understood_witness:
  "\<exists>addr run v. client_main demo_parse demo_show (\<lambda>_. None) (Some (replicate 16 0)) [] = Inr (addr, run) \<and>
    demo_parse addr = Some v \<and> getParams (parse_query (u_RawQuery v)) = Inr (''abc123'', [''1'', ''2''])"
proof -
  obtain addr run where m: "client_main demo_parse demo_show (\<lambda>_. None) (Some (replicate 16 0)) [] = Inr (addr, run)"
    using demo_main by blast
  let ?u = "\<lparr>u_Scheme = ''ws'', u_Host = ''localhost:80'', u_RawQuery = [], u_rest = ''ws://localhost:80/ws''\<rparr>"
  have "\<exists>v. demo_parse addr = Some v \<and>
      getParams (parse_query (u_RawQuery v)) = Inr (envOr (\<lambda>_. None) ''WS_CLIENT_ID'' ''abc123'', [''1'', ''2'']) \<and>
      distinct [''1'', ''2''] \<and> (\<forall>r \<in> set [''1'', ''2'']. r \<noteq> [] \<and> TrimSpace r = r) \<and>
      envOr (\<lambda>_. None) ''WS_SEND_ROOM_ID'' ''2'' \<in> set [''1'', ''2'']"
  proof (rule client_address_understood [OF m])
    show "demo_parse (envOr (\<lambda>_. None) ''WS_URL'' ''ws://localhost:80/ws'') = Some ?u" by (simp add: demo_parse_default)
    show "\<forall>q. (\<forall>c \<in> set q. query_char c) \<longrightarrow> (\<exists>v. demo_parse (demo_show (?u\<lparr>u_RawQuery := q\<rparr>)) = Some v \<and> u_RawQuery v = q)"
      using demo_roundtrip [of ?u] by simp
  qed (simp_all add: demo_rooms max_params_def)
  with m show ?thesis by auto
qed

subsection \<open>Sending until answered\<close>

lemma read_frames_keeps:
  "cr_sent (read_frames ds st) = cr_sent st" "\<not> cr_pending st \<Longrightarrow> \<not> cr_pending (read_frames ds st)"
  by (induction ds arbitrary: st) (auto simp: take_frame_def Let_def split: sum.split)

lemma client_round_sent:
  "\<exists>n \<le> 1. cr_sent (client_round request d st) = cr_sent st @ replicate n (the (marshal_SendRequest request))"
proof (cases "\<exists>reads. d = Dialled True reads \<and> cr_pending st \<and> marshal_SendRequest request \<noteq> None")
  case True
  then show ?thesis by (auto simp: client_round_def read_frames_keeps intro!: exI [of _ 1])
next
  case False
  then show ?thesis by (auto simp: client_round_def read_frames_keeps split: dial.split option.split intro!: exI [of _ 0])
qed

lemma client_round_answered:
  "\<not> cr_pending st \<Longrightarrow> \<not> cr_pending (client_round request d st) \<and> cr_sent (client_round request d st) = cr_sent st"
  by (auto simp: client_round_def read_frames_keeps split: dial.split)

lemma client_loop_sent:
  "\<exists>n \<le> length rounds. cr_sent (client_loop request rounds st) = cr_sent st @ replicate n (the (marshal_SendRequest request))"
proof (induction request rounds st rule: client_loop.induct)
  case (2 request d waited rounds st)
  obtain k where k: "k \<le> 1" "cr_sent (client_round request d st) = cr_sent st @ replicate k (the (marshal_SendRequest request))"
    using client_round_sent by blast
  show ?case
  proof (cases waited)
    case True
    then obtain n where "n \<le> length rounds" "cr_sent (client_loop request rounds (client_round request d st)) =
        cr_sent (client_round request d st) @ replicate n (the (marshal_SendRequest request))"
      using 2 by blast
    with True k show ?thesis by (intro exI [of _ "k + n"]) (simp add: replicate_add)
  next
    case False
    with k show ?thesis by (intro exI [of _ k]) simp
  qed
qed simp

lemma client_loop_answered: "\<not> cr_pending st \<Longrightarrow> cr_sent (client_loop request rounds st) = cr_sent st"
  by (induction request rounds st rule: client_loop.induct) (auto simp: client_round_answered)

lemma client_loop_append:
  "client_loop request (a @ b) st =
     (if list_all snd a then client_loop request b (client_loop request a st) else client_loop request a st)"
  by (induction request a st rule: client_loop.induct) auto

text \<open>The sample request: valid, and read by the server as it was built.\<close>

lemma space_runes_bytes: "e \<in> set space_runes \<Longrightarrow> c \<in> set e \<Longrightarrow> byte_val c < 48 \<or> 128 \<le> byte_val c"
proof -
  have "list_all (list_all (\<lambda>c. byte_val c < 48 \<or> 128 \<le> byte_val c)) space_runes" by code_simp
  then show "e \<in> set space_runes \<Longrightarrow> c \<in> set e \<Longrightarrow> byte_val c < 48 \<or> 128 \<le> byte_val c" by (auto simp: list_all_iff)
qed

lemma hex_encode_not_blank:
  assumes "bs \<noteq> []"
  shows "\<not> blank (hex_encode bs)"
proof -
  obtain c where c: "c \<in> set (hex_encode bs)" using assms by (cases bs) auto
  have "\<forall>e \<in> set space_runes. c \<notin> set e" using hex_encode_bytes [OF c] space_runes_bytes by fastforce
  with TrimSpace_keeps [OF c] show ?thesis by (auto simp: blank_def)
qed

definition text_payload :: bytes where
  "text_payload = object [member ''text'' (quote ''test msg.'')]"

lemma text_payload_facts: "Valid text_payload" "marshal_raw text_payload = Some text_payload"
  by code_simp+

lemma text_payload_token: "token_at (Suc d) text_payload"
proof -
  have "text_payload = object_text [(''text'', quote ''test msg.'')]" by (simp add: text_payload_def object_text_def)
  then show ?thesis using token_object [of "[(''text'', quote ''test msg.'')]" d] by (simp add: token_string)
qed

lemma Request_field_values:
  "field_values ''type'' [(''type'', a), (''version'', b), (''client_message_id'', c), (''room_id'', d), (''payload'', e)] = [a]"
  "field_values ''version'' [(''type'', a), (''version'', b), (''client_message_id'', c), (''room_id'', d), (''payload'', e)] = [b]"
  "field_values ''client_message_id'' [(''type'', a), (''version'', b), (''client_message_id'', c), (''room_id'', d), (''payload'', e)] = [c]"
  "field_values ''room_id'' [(''type'', a), (''version'', b), (''client_message_id'', c), (''room_id'', d), (''payload'', e)] = [d]"
  "field_values ''payload'' [(''type'', a), (''version'', b), (''client_message_id'', c), (''room_id'', d), (''payload'', e)] = [e]"
  by (simp_all add: field_values_def fold_names del: fold_name.simps)

lemma sample_request_read:
  assumes "sampleSendRequest (Some rid) room = Inr request" and "length rid = 16" and "utf8_valid room" and "\<not> blank room"
  shows "\<exists>text. marshal_SendRequest request = Some text \<and> unmarshal_SendRequest text = Some request \<and> SendRequest_Validate request = None"
proof -
  have r: "request = \<lparr>req_Type = SendFrameType, req_Version = Version, req_ClientMessageID = hex_encode rid, req_RoomID = room,
      req_Payload = text_payload\<rparr>" using assms(1) by (simp add: sampleSendRequest_def text_payload_def)
  let ?kvs = "[(''type'', quote SendFrameType), (''version'', show_int Version), (''client_message_id'', quote (hex_encode rid)),
    (''room_id'', quote room), (''payload'', text_payload)]"
  have m: "marshal_SendRequest request = Some (object_text ?kvs)" by (simp add: r marshal_SendRequest_def text_payload_facts)
  obtain d where d: "max_nesting - 1 = Suc d" by (simp add: max_nesting_def)
  have tok: "token_at (max_nesting - 1) text_payload" "token_at max_nesting text_payload"
    using text_payload_token [of d] text_payload_token [of "Suc d"] d by (simp_all add: max_nesting_def)
  have u: "unmarshal_SendRequest (object_text ?kvs) = decode_SendRequest ?kvs"
    unfolding unmarshal_SendRequest_def by (rule unmarshal_struct) (use tok in \<open>simp add: token_string token_int\<close>)
  have nb: "\<not> blank (hex_encode rid)" using assms(2) by (intro hex_encode_not_blank) auto
  have "utf8_valid (hex_encode rid)" by (rule utf8_valid_ascii) (auto dest: hex_encode_bytes)
  then have "unmarshal_SendRequest (object_text ?kvs) = Some request"
    unfolding u
    by (simp add: r decode_SendRequest_def field_def Request_field_values decode_string_quote decode_int_show utf8_frame_types
        int64_Version decode_raw_def assms(3))
  moreover have "SendRequest_Validate request = None"
    using nb assms(4) text_payload_facts by (auto simp: r SendRequest_valid_iff)
  ultimately show ?thesis using m by (intro exI conjI)
qed

lemma run_accepts_one_key:
  assumes "store_inv (run_accepts calls db)"
  shows "length (filter (same_key cl key) (messages (run_accepts calls db))) \<le> 1"
proof -
  have "distinct (map (\<lambda>m. (m_client_id m, m_client_message_id m)) ms) \<Longrightarrow> length (filter (same_key cl key) ms) \<le> 1" for ms
  proof (induction ms)
    case (Cons m ms)
    show ?case
    proof (cases "same_key cl key m")
      case True
      have "filter (same_key cl key) ms = []" using Cons.prems True
        by (auto simp: same_key_def filter_empty_conv image_iff)
      with True show ?thesis by simp
    next
      case False
      with Cons show ?thesis by simp
    qed
  qed simp
  with assms show ?thesis by (simp add: store_inv_def)
qed

text \<open>C27: the client sends one and the same text, at most once per connection and never after an answer, and the
  server reads in it the request the client built; whatever the outcomes of the server's calls, the repetitions
  store at most one message.\<close>

theorem client_message_stored_once:
  assumes "client_main parse show env (Some rid) rounds = Inr (addr, run)" and "length rid = 16"
    and "utf8_valid (envOr env ''WS_SEND_ROOM_ID'' ''2'')"
  shows "\<exists>n msg request. cr_sent run = replicate n msg \<and> n \<le> length rounds \<and>
    unmarshal_SendRequest msg = Some request \<and> SendRequest_Validate request = None \<and> req_ClientMessageID request = hex_encode rid \<and>
    (\<forall>rs1 rs2. rounds = rs1 @ rs2 \<and> \<not> cr_pending (client_loop request rs1 \<lparr>cr_pending = True, cr_sent = [], cr_frames = []\<rparr>) \<longrightarrow>
      cr_sent run = cr_sent (client_loop request rs1 \<lparr>cr_pending = True, cr_sent = [], cr_frames = []\<rparr>)) \<and>
    (\<forall>envs db cl. length envs = n \<and> (\<forall>e \<in> set envs. wf_env e) \<and> store_inv db \<longrightarrow>
      length (filter (same_key cl (hex_encode rid)) (messages (run_accepts (map (\<lambda>e. (e, cl, request)) envs) db))) \<le> 1)"
proof -
  let ?st = "\<lparr>cr_pending = True, cr_sent = [], cr_frames = []\<rparr>"
  from client_main_Inr [OF assms(1)] obtain request where room: "envOr env ''WS_SEND_ROOM_ID'' ''2'' \<in> set (splitRooms (envOr env ''WS_ROOM_IDS'' ''1,2''))"
    and req: "sampleSendRequest (Some rid) (envOr env ''WS_SEND_ROOM_ID'' ''2'') = Inr request" and run: "run = client_loop request rounds ?st"
    by blast
  have "\<not> blank (envOr env ''WS_SEND_ROOM_ID'' ''2'')" by (rule splitRooms_not_blank [OF room])
  from sample_request_read [OF req assms(2,3) this] obtain msg where msg: "marshal_SendRequest request = Some msg"
    "unmarshal_SendRequest msg = Some request" "SendRequest_Validate request = None" by blast
  obtain n where n: "n \<le> length rounds" "cr_sent run = replicate n msg"
    using client_loop_sent [of rounds request ?st] msg(1) run by auto
  have answered: "cr_sent run = cr_sent (client_loop request rs1 ?st)"
    if "rounds = rs1 @ rs2" "\<not> cr_pending (client_loop request rs1 ?st)" for rs1 rs2
    using that by (simp add: run client_loop_append client_loop_answered)
  have once: "length (filter (same_key cl (hex_encode rid)) (messages (run_accepts (map (\<lambda>e. (e, cl, request)) envs) db))) \<le> 1"
    if "\<forall>e \<in> set envs. wf_env e" "store_inv db" for envs db cl
    using that by (intro run_accepts_one_key run_accepts_inv) (auto simp: wf_calls_def list_all_iff)
  have "req_ClientMessageID request = hex_encode rid" using req by (auto simp: sampleSendRequest_def)
  with n msg answered once show ?thesis by (intro exI [of _ n] exI [of _ msg] exI [of _ request]) blast
qed

theorem client_message_stored_once_witness:
  "\<exists>addr run n msg. client_main demo_parse demo_show (\<lambda>_. None) (Some (replicate 16 0)) [(Dialled True [], True), (Dialled True [], False)]
      = Inr (addr, run) \<and> cr_sent run = replicate n msg \<and> n \<le> 2"
proof -
  obtain addr run where m: "client_main demo_parse demo_show (\<lambda>_. None) (Some (replicate 16 0))
      [(Dialled True [], True), (Dialled True [], False)] = Inr (addr, run)"
    using demo_main by blast
  have "utf8_valid (envOr (\<lambda>_. None) ''WS_SEND_ROOM_ID'' ''2'')" by (simp add: utf8_valid_ascii)
  from client_message_stored_once [OF m _ this] obtain n msg
    where "cr_sent run = replicate n msg" "n \<le> length [(Dialled True [], True), (Dialled True [], False)]"
    unfolding length_replicate by blast
  then have "cr_sent run = replicate n msg \<and> n \<le> 2" by (simp only: list.size) simp
  with m show ?thesis by blast
qed

end
