(* ===== verification/Spec2Isabelle.thy ===== *)
theory Spec2Isabelle
  imports Relay_Config System_Props Migrations Single_System Single_Http_Props Naive_System Ws_Frames Startup_Props Log_Props Client_Props
begin

text \<open>
  \<^bold>\<open>Verification of the chat services\<close>

  The repository holds a chat system in several stages. The last stage, \<^verbatim>\<open>proper-scale\<close>, is a set of
  services: the \<^emph>\<open>message service\<close> accepts messages over WebSockets and stores each one with an outbox row in
  one Postgres transaction; the \<^emph>\<open>outbox relay\<close> publishes the rows to Kafka, room by room in the order of their
  numbers; the \<^emph>\<open>delivery service\<close> consumes the topic, asks the \<^emph>\<open>presence service\<close> (sets with deadlines in Redis)
  which instances of the message service have clients in the room, and publishes an envelope to the Redis channel
  of each; an instance subscribed to its channel dispatches the event to the buffers of its connections.
  \<^verbatim>\<open>single-instance\<close> is the first stage, one process with a database, an in-process hub and a relay between them;
  \<^verbatim>\<open>naive-scale\<close> runs several such processes on one database and joins their hubs by Redis channels. \<^verbatim>\<open>log-prop\<close> is an
  earlier study: a publisher and a consumer of log events over Kafka.

  \<^bold>\<open>Libraries.\<close> \<open>Prelude\<close> has the shared list lemmas and the insertion sort used for \<^verbatim>\<open>ORDER BY\<close>.
  \<open>Go_Strings\<close>, \<open>Go_Numbers\<close>, \<open>Go_Time\<close>, \<open>Go_Duration\<close>, \<open>Go_Json\<close>, \<open>Go_Codec\<close> and \<open>Go_Url\<close> model what the sources use
  of Go's \<^verbatim>\<open>strings\<close>, \<^verbatim>\<open>strconv\<close>, \<^verbatim>\<open>encoding/hex\<close>, \<^verbatim>\<open>time\<close>, \<^verbatim>\<open>encoding/json\<close> and \<^verbatim>\<open>net/url\<close> packages, on bytes.
  \<open>Json_Roundtrip\<close> and \<open>Wire_Roundtrip\<close> prove that the encoder's texts are read back.

  \<^bold>\<open>Components.\<close>
  \<^item> \<open>Contracts\<close>: the frames and events of \<^verbatim>\<open>contracts/messages/contract.go\<close> with their validators and JSON texts.
  \<^item> \<open>Message_Store\<close>, \<open>Message_Props\<close>: \<^verbatim>\<open>message_service/infra/postgres/store.go\<close>. \<open>Accept\<close> is one transaction over
    three tables, each call of which may fail before or after its effect. It refines a four-case
    specification; the numbers of a room have no gaps, repetitions are idempotent, errors change nothing.
  \<^item> \<open>Migrations\<close>: \<^verbatim>\<open>message_service/infra/postgres/migrate.go\<close>, with any number of instances that start together.
  \<^item> \<open>Outbox_Repository\<close>, \<open>Outbox_Relay\<close>, \<open>Relay_World\<close>, \<open>Relay_Config\<close>: the relay of \<^verbatim>\<open>outbox_relay\<close> over an interface
    (a locale), interpreted on a world of outbox rows, a Kafka log and concurrent \<open>Accept\<close>s: the log is in order
    for every room under any faults, and every pending row is published exactly once when there are none. The
    configuration enforces the limits within which the retry delays do not wrap around.
  \<^item> \<open>Redis_Api\<close>, \<open>Presence\<close>, \<open>Presence_Props\<close>: the four handlers of \<^verbatim>\<open>presence_service/app/grpc.go\<close> over a Redis interface
    and over a concrete store with deadlines.
  \<^item> \<open>Ws_Hub\<close>, \<open>Ws_Handler\<close>, \<open>Ws_Instance\<close>, \<open>Ws_Props\<close>, \<open>Keep_Alive\<close>: the hub, the connections and the endpoint of
    \<^verbatim>\<open>message_service/app/transport/ws\<close>. \<open>Ws_Instance\<close> is the state machine of an instance: its goroutines are steps,
    the hub's lock is held by a waiting dispatch until the context is cancelled. \<open>Ws_Frames\<close>: whatever it writes is a
    valid frame of the contract. \<open>Keep_Alive\<close>: the pings keep a connection visible among the requests of others.
  \<^item> \<open>Envelope\<close>, \<open>Delivery\<close>, \<open>Delivery_Props\<close>, \<open>Redis_Consumer\<close>, \<open>System_Props\<close>: the way of an event from Kafka to the
    buffers of the clients; the subscription loop skips what it cannot hand on and keeps the order of the rest.
  \<^item> \<open>Single_Store\<close>, \<open>Single_Props\<close>: storage, service and relay of \<^verbatim>\<open>single-instance\<close>. A hand-over to the hub may block
    for ever and rows may be added between the batches of a drain.
  \<^item> \<open>Single_Hub\<close>, \<open>Single_Hub_Props\<close>: its hub and the readers and writers of its connections as a state machine: no
    panic on a closed channel, every joined client gets the broadcasts of its room in order, and a stopped writer
    can block the hub for ever. \<open>Single_System\<close> follows an accepted frame through outbox and hub to the client.
  \<^item> \<open>Single_Http\<close>, \<open>Single_Http_Props\<close>: its REST handlers, with the bounds of the history endpoint.
  \<^item> \<open>Naive_Relay\<close>, \<open>Naive_Props\<close>: the relays of \<^verbatim>\<open>naive-scale\<close>, where several instances drain one outbox under row locks.
  \<^item> \<open>Naive_Hub\<close>: its hubs, one per instance, joined by Redis channels per room: no client gets a message twice or out
    of order, whatever Redis loses. \<open>Naive_System\<close> puts relays and hubs together: when every transaction commits, only a
    publication the Redis client makes again can bring a client a message twice, at most once per retry.
  \<^item> \<open>Startup\<close>, \<open>Startup_Props\<close>: the constructors and \<^verbatim>\<open>run\<close> functions, in a state monad over the list of opened and closed
    resources and started goroutines: everything is released on every path, and the work begins only with all that
    it needs.
  \<^item> \<open>Log_Pipeline\<close>, \<open>Log_Props\<close>: the publisher and the consumer of \<^verbatim>\<open>log-prop\<close>. The handler its \<^verbatim>\<open>Start\<close> builds prints nothing;
    the one of the constructor prints in order, but can lose a record when sessions change.
  \<^item> \<open>Ws_Client\<close>, \<open>Client_Props\<close>: the reconnecting client of \<^verbatim>\<open>wsClient/main.go\<close>.

  \<^bold>\<open>Bounds.\<close> Loops that wait for outside events run over a schedule of these events; the other recursions are
  proved to end. The JSON scanner's fuel is twice the length of its input, which is enough for every input.

  \<^bold>\<open>Simplifications.\<close> A transaction of the message store is one step on the tables, with the outcome of each of its
  calls; what Postgres itself refuses (NUL bytes, invalid UTF-8, index keys that are too long) is among these
  outcomes. During one run of the delivery service's consumer the presence store does not change. The newline
  that \<^verbatim>\<open>WriteJSON\<close> puts behind the client's request is left out.

  \<^bold>\<open>Not modelled.\<close> The settings of servers and clients of third-party packages (their outcomes are parameters of
  the definitions), generated protobuf code, the parsing of a whole URL, the routing tables of the HTTP servers, the
  \<^verbatim>\<open>main\<close> functions of the presence service and of \<^verbatim>\<open>naive-scale\<close>, load tests and container files. The files of
  \<^verbatim>\<open>naive-scale\<close> that repeat those of \<^verbatim>\<open>single-instance\<close> but for import paths have no definitions of their own.
\<close>

end
